(* ===== verification/Prelude.thy ===== *)
theory Prelude
  imports Main "HOL-Library.Char_ord" "HOL-Library.List_Lexorder" "HOL-Library.Code_Target_Numeral"
begin

section \<open>Shared vocabulary of the development\<close>

text \<open>
  What every component uses: Python's exceptions as values, the result type of a call that
  may raise, the ASCII fragment of Python's \<^verbatim>\<open>str\<close> methods, decimal digits, and the
  fact collections the component proofs draw on.

  Strings are HOL strings, one character per UTF-8 byte. \<^verbatim>\<open>strip\<close>, \<^verbatim>\<open>lower\<close> and
  \<^verbatim>\<open>upper\<close> act on the ASCII characters only; a byte above 127 is passed through unchanged.
  The lexicographic order of the strings is the order of their bytes, which for UTF-8 is the
  order of the code points that Python compares.
\<close>

named_theorems res_simps \<open>evaluation of calls that may raise\<close>
named_theorems py_defs \<open>definitions of small helpers, to be unfolded together\<close>

subsection \<open>Exceptions and results\<close>

text \<open>
  One constructor per exception class the modelled code raises or catches, carrying the
  message. \<open>ContractError\<close>, \<open>ReplayError\<close>, \<open>ResilienceError\<close>, \<open>PaperError\<close>
  (the \<^verbatim>\<open>ContractError\<close> of \<^verbatim>\<open>paper_execution_contract.py\<close>),
  \<open>EvaluationError\<close>, \<open>OutcomeContaminationError\<close>, \<open>PacketSizeError\<close> and
  \<open>CursorError\<close> are subclasses of \<^verbatim>\<open>ValueError\<close>; the others are not.
\<close>

datatype exc =
    ValueError string
  | ContractError string
  | ReplayError string
  | ResilienceError string
  | PaperError string
  | EvaluationError string
  | OutcomeContaminationError string
  | PacketSizeError string
  | CursorError string
  | PacketSequenceError string
  | TypeError string
  | KeyError string
  | AttributeError string
  | DivisionByZero string
  | HardPaperLockError string
  | OSError string
  | OverflowError string
  | NotImplementedError string
  | IndexError string
  | RuntimeError string
  | PaperControlStateError string

fun exc_msg :: "exc \<Rightarrow> string" where
  "exc_msg (ValueError m) = m"
| "exc_msg (ContractError m) = m"
| "exc_msg (ReplayError m) = m"
| "exc_msg (ResilienceError m) = m"
| "exc_msg (PaperError m) = m"
| "exc_msg (EvaluationError m) = m"
| "exc_msg (OutcomeContaminationError m) = m"
| "exc_msg (PacketSizeError m) = m"
| "exc_msg (CursorError m) = m"
| "exc_msg (PacketSequenceError m) = m"
| "exc_msg (TypeError m) = m"
| "exc_msg (KeyError m) = m"
| "exc_msg (AttributeError m) = m"
| "exc_msg (DivisionByZero m) = m"
| "exc_msg (HardPaperLockError m) = m"
| "exc_msg (OSError m) = m"
| "exc_msg (OverflowError m) = m"
| "exc_msg (NotImplementedError m) = m"
| "exc_msg (IndexError m) = m"
| "exc_msg (RuntimeError m) = m"
| "exc_msg (PaperControlStateError m) = m"

fun exc_name :: "exc \<Rightarrow> string" where
  "exc_name (ValueError m) = ''ValueError''"
| "exc_name (ContractError m) = ''ContractError''"
| "exc_name (ReplayError m) = ''ReplayError''"
| "exc_name (ResilienceError m) = ''ResilienceError''"
| "exc_name (PaperError m) = ''ContractError''"
| "exc_name (EvaluationError m) = ''EvaluationError''"
| "exc_name (OutcomeContaminationError m) = ''OutcomeContaminationError''"
| "exc_name (PacketSizeError m) = ''PacketSizeError''"
| "exc_name (CursorError m) = ''CursorError''"
| "exc_name (PacketSequenceError m) = ''PacketSequenceError''"
| "exc_name (TypeError m) = ''TypeError''"
| "exc_name (KeyError m) = ''KeyError''"
| "exc_name (AttributeError m) = ''AttributeError''"
| "exc_name (DivisionByZero m) = ''DivisionByZero''"
| "exc_name (HardPaperLockError m) = ''HardPaperLockError''"
| "exc_name (OSError m) = ''OSError''"
| "exc_name (OverflowError m) = ''OverflowError''"
| "exc_name (NotImplementedError m) = ''NotImplementedError''"
| "exc_name (IndexError m) = ''IndexError''"
| "exc_name (RuntimeError m) = ''RuntimeError''"
| "exc_name (PaperControlStateError m) = ''PaperControlStateError''"

fun is_value_error :: "exc \<Rightarrow> bool" where
  "is_value_error (PacketSequenceError m) = False"
| "is_value_error (TypeError m) = False"
| "is_value_error (KeyError m) = False"
| "is_value_error (AttributeError m) = False"
| "is_value_error (DivisionByZero m) = False"
| "is_value_error (HardPaperLockError m) = False"
| "is_value_error (OSError m) = False"
| "is_value_error (OverflowError m) = False"
| "is_value_error (NotImplementedError m) = False"
| "is_value_error (IndexError m) = False"
| "is_value_error (RuntimeError m) = False"
| "is_value_error (PaperControlStateError m) = False"
| "is_value_error _ = True"

type_synonym 'a res = "exc + 'a"

text \<open>Sequencing: the first exception ends the computation.\<close>

fun rbind :: "'a res \<Rightarrow> ('a \<Rightarrow> 'b res) \<Rightarrow> 'b res" where
  "rbind (Inl e) f = Inl e"
| "rbind (Inr x) f = f x"

text \<open>\<^verbatim>\<open>if bad: raise e\<close> followed by the rest of the body.\<close>

definition raise_if :: "bool \<Rightarrow> exc \<Rightarrow> unit res" where
  "raise_if b e = (if b then Inl e else Inr ())"

text \<open>\<^verbatim>\<open>except ValueError as exc: raise Wrap(str(exc))\<close>.\<close>

fun rewrap :: "(string \<Rightarrow> exc) \<Rightarrow> 'a res \<Rightarrow> 'a res" where
  "rewrap w (Inr x) = Inr x"
| "rewrap w (Inl e) = (if is_value_error e then Inl (w (exc_msg e)) else Inl e)"

fun rmap :: "('a \<Rightarrow> 'b res) \<Rightarrow> 'a list \<Rightarrow> 'b list res" where
  "rmap f [] = Inr []"
| "rmap f (x # xs) = rbind (f x) (\<lambda>y. rbind (rmap f xs) (\<lambda>ys. Inr (y # ys)))"

fun is_ok :: "'a res \<Rightarrow> bool" where
  "is_ok (Inr x) = True"
| "is_ok (Inl e) = False"

lemma rbind_Inr_iff [res_simps]: "rbind m f = Inr y \<longleftrightarrow> (\<exists>x. m = Inr x \<and> f x = Inr y)"
  by (cases m) auto

lemma rbind_Inl_iff [res_simps]:
  "rbind m f = Inl e \<longleftrightarrow> m = Inl e \<or> (\<exists>x. m = Inr x \<and> f x = Inl e)"
  by (cases m) auto

lemma raise_if_Inr [res_simps]: "raise_if b e = Inr u \<longleftrightarrow> \<not> b"
  by (simp add: raise_if_def)

lemma raise_if_Inl [res_simps]: "raise_if b e = Inl e' \<longleftrightarrow> b \<and> e' = e"
  by (auto simp: raise_if_def)

text \<open>A guard that raises, read as a condition; with \<open>rbind_Inr_iff\<close> it opens a whole body.\<close>

lemma guard_Inr: "(if b then Inl x else m) = Inr y \<longleftrightarrow> \<not> b \<and> m = Inr y"
  by simp

lemma guard_Inr': "(if b then m else Inl x) = Inr y \<longleftrightarrow> b \<and> m = Inr y"
  by simp

lemmas opened = rbind_Inr_iff raise_if_Inr guard_Inr guard_Inr' sum.inject simp_thms

lemma rbind_raise_if [simp]: "rbind (raise_if b e) f = (if b then Inl e else f ())"
  by (simp add: raise_if_def)

lemma rewrap_Inr_iff [res_simps]: "rewrap w m = Inr x \<longleftrightarrow> m = Inr x"
  by (cases m) auto

text \<open>Evaluation looks into a continuation only when its argument is there.\<close>

lemma rbind_weak_cong: "m = m' \<Longrightarrow> rbind m f = rbind m' f"
  by simp

lemma rbind_assoc: "rbind (rbind m f) g = rbind m (\<lambda>x. rbind (f x) g)"
  by (cases m) auto

lemma rbind_Inr_right [simp]: "rbind m Inr = m"
  by (cases m) auto

lemma is_ok_iff: "is_ok m \<longleftrightarrow> (\<exists>x. m = Inr x)"
  by (cases m) auto

lemma rmap_map_Inr: "(\<And>x. x \<in> set xs \<Longrightarrow> f x = Inr (g x)) \<Longrightarrow> rmap f xs = Inr (map g xs)"
  by (induction xs) auto

lemma rmap_length: "rmap f xs = Inr ys \<Longrightarrow> length ys = length xs"
  by (induction xs arbitrary: ys) (auto simp: res_simps)

subsection \<open>Lists searched and updated by key\<close>

text \<open>\<^verbatim>\<open>next((x for x in xs if p(x)), None)\<close> is \<^const>\<open>find\<close> of the library.\<close>

lemma find_Some_set: "find p xs = Some x \<Longrightarrow> x \<in> set xs \<and> p x"
  by (induction xs) (auto split: if_splits)

lemma find_None_set: "find p xs = None \<longleftrightarrow> (\<forall>x \<in> set xs. \<not> p x)"
  by (induction xs) auto

lemma find_append: "find p (xs @ ys) = (case find p xs of None \<Rightarrow> find p ys | Some x \<Rightarrow> Some x)"
  by (induction xs) auto

lemma distinct_map_find:
  "distinct (map k xs) \<Longrightarrow> x \<in> set xs \<Longrightarrow> find (\<lambda>y. k y = k x) xs = Some x"
  by (induction xs) (force split: if_splits)+

text \<open>The last \<open>n\<close> elements: \<^verbatim>\<open>xs[-n:]\<close> for positive \<open>n\<close>.\<close>

definition last_n :: "nat \<Rightarrow> 'a list \<Rightarrow> 'a list" where
  "last_n n xs = drop (length xs - n) xs"

lemma length_last_n [simp]: "length (last_n n xs) = min n (length xs)"
  by (auto simp: last_n_def)

subsection \<open>ASCII strings\<close>

definition is_space :: "char \<Rightarrow> bool" where
  "is_space c = (let n = of_char c :: nat in (9 \<le> n \<and> n \<le> 13) \<or> (28 \<le> n \<and> n \<le> 32))"

definition lstrip :: "string \<Rightarrow> string" where
  "lstrip s = dropWhile is_space s"

definition rstrip :: "string \<Rightarrow> string" where
  "rstrip s = rev (dropWhile is_space (rev s))"

definition strip :: "string \<Rightarrow> string" where
  "strip s = rstrip (lstrip s)"

definition lower_char :: "char \<Rightarrow> char" where
  "lower_char c = (let n = of_char c :: nat in if 65 \<le> n \<and> n \<le> 90 then char_of (n + 32) else c)"

definition upper_char :: "char \<Rightarrow> char" where
  "upper_char c = (let n = of_char c :: nat in if 97 \<le> n \<and> n \<le> 122 then char_of (n - 32) else c)"

definition lower :: "string \<Rightarrow> string" where
  "lower s = map lower_char s"

definition upper :: "string \<Rightarrow> string" where
  "upper s = map upper_char s"

definition is_digit :: "char \<Rightarrow> bool" where
  "is_digit c = (let n = of_char c :: nat in 48 \<le> n \<and> n \<le> 57)"

definition is_hex_lower :: "char \<Rightarrow> bool" where
  "is_hex_lower c = (c \<in> set ''0123456789abcdef'')"

fun ends_with :: "string \<Rightarrow> string \<Rightarrow> bool" where
  "ends_with s t = (length t \<le> length s \<and> drop (length s - length t) s = t)"

fun starts_with :: "string \<Rightarrow> string \<Rightarrow> bool" where
  "starts_with s t = (take (length t) s = t)"

text \<open>\<^verbatim>\<open>sep in s\<close> and \<^verbatim>\<open>s.replace(old, new)\<close> for a non-empty \<open>old\<close>.\<close>

fun contains :: "string \<Rightarrow> string \<Rightarrow> bool" where
  "contains [] t = (t = [])"
| "contains (c # s) t = (starts_with (c # s) t \<or> contains s t)"

function replace_all :: "string \<Rightarrow> string \<Rightarrow> string \<Rightarrow> string" where
  "replace_all old new s =
     (if s = [] then []
      else if old \<noteq> [] \<and> take (length old) s = old
        then new @ replace_all old new (drop (length old) s)
      else hd s # replace_all old new (tl s))"
  by pat_completeness auto
termination
  by (relation "measure (\<lambda>(old, new, s). length s)") auto

declare replace_all.simps [simp del]

fun join :: "string \<Rightarrow> string list \<Rightarrow> string" where
  "join sep [] = []"
| "join sep [x] = x"
| "join sep (x # y # xs) = x @ sep @ join sep (y # xs)"

lemma dropWhile_idem': "dropWhile P (dropWhile P xs) = dropWhile P xs"
  by (induction xs) auto

lemma strip_Nil [simp]: "strip [] = []"
  by (simp add: strip_def rstrip_def lstrip_def)

lemma strip_id:
  "s \<noteq> [] \<Longrightarrow> \<not> is_space (hd s) \<Longrightarrow> \<not> is_space (last s) \<Longrightarrow> strip s = s"
proof -
  assume s: "s \<noteq> []" "\<not> is_space (hd s)" "\<not> is_space (last s)"
  then have "dropWhile is_space s = s" by (cases s) auto
  moreover from s have "rev s \<noteq> []" "\<not> is_space (hd (rev s))" by (auto simp: hd_rev)
  then have "dropWhile is_space (rev s) = rev s" by (cases "rev s") auto
  ultimately show ?thesis by (simp add: strip_def rstrip_def lstrip_def)
qed

lemma strip_no_space: "\<forall>c \<in> set s. \<not> is_space c \<Longrightarrow> strip s = s"
  by (cases "s = []") (auto intro: strip_id)

lemma lower_char_idem [simp]: "lower_char (lower_char c) = lower_char c"
  by (simp add: lower_char_def Let_def)

lemma lower_idem [simp]: "lower (lower s) = lower s"
  by (simp add: lower_def)

lemma length_lower [simp]: "length (lower s) = length s"
  by (simp add: lower_def)

subsection \<open>Decimal digits\<close>

definition digit_char :: "nat \<Rightarrow> char" where
  "digit_char n = ''0123456789'' ! n"

definition digit_val :: "char \<Rightarrow> nat" where
  "digit_val c = of_char c - 48"

fun show_nat :: "nat \<Rightarrow> string" where
  "show_nat n = (if n < 10 then [digit_char n] else show_nat (n div 10) @ [digit_char (n mod 10)])"

declare show_nat.simps [simp del]

definition show_int :: "int \<Rightarrow> string" where
  "show_int i = (if i < 0 then ''-'' @ show_nat (nat (- i)) else show_nat (nat i))"

text \<open>\<^verbatim>\<open>int(text)\<close> on a text of digits, and the number of digits of a natural number.\<close>

definition read_nat :: "string \<Rightarrow> nat" where
  "read_nat s = foldl (\<lambda>acc c. 10 * acc + digit_val c) 0 s"

fun ndigits :: "nat \<Rightarrow> nat" where
  "ndigits n = (if n < 10 then 1 else Suc (ndigits (n div 10)))"

declare ndigits.simps [simp del]

text \<open>The ten digits, checked one by one.\<close>

lemma digit_table:
  "\<forall>d \<in> set [0..<10]. is_digit (digit_char d) \<and> digit_val (digit_char d) = d
     \<and> \<not> is_space (digit_char d) \<and> digit_char d \<notin> set ''-+.EeTZ:_Wns''"
  by code_simp

lemma digit_char_of: "\<forall>d \<in> set [0..<10]. digit_char d = char_of (48 + d)"
  by code_simp

lemma digit_char_props [simp]:
  assumes "d < 10"
  shows "is_digit (digit_char d)" and "digit_val (digit_char d) = d"
    and "\<not> is_space (digit_char d)" and "digit_char d \<notin> set ''-+.EeTZ:_Wns''"
  using assms digit_table by (auto simp del: upt_Suc)

lemma is_digit_cases: "is_digit c \<longleftrightarrow> (\<exists>d < 10. c = digit_char d)"
proof
  assume "is_digit c"
  then have n: "48 \<le> (of_char c :: nat)" "(of_char c :: nat) \<le> 57"
    by (simp_all add: is_digit_def Let_def)
  then have "of_char c - 48 < (10::nat)" by simp
  with digit_char_of have "digit_char (of_char c - 48) = char_of (48 + (of_char c - 48 :: nat))"
    by (auto simp del: upt_Suc)
  with n have "digit_char (of_char c - 48) = c" by simp
  with n show "\<exists>d < 10. c = digit_char d" by (intro exI [of _ "of_char c - 48"]) auto
qed auto

lemma is_digit_not_special:
  "is_digit c \<Longrightarrow> \<not> is_space c \<and> c \<notin> set ''-+.EeTZ:_Wns''"
  by (auto simp: is_digit_cases simp del: list.set)

lemma show_nat_digits: "\<forall>c \<in> set (show_nat n). is_digit c"
proof (induction n rule: show_nat.induct)
  case (1 n)
  then show ?case by (subst show_nat.simps) (cases "n < 10", auto)
qed

lemma show_nat_nonempty [simp]: "show_nat n \<noteq> []"
  by (subst show_nat.simps) auto

lemma show_nat_no_space: "\<forall>c \<in> set (show_nat n). \<not> is_space c"
  using show_nat_digits [of n] is_digit_not_special by blast

lemma read_nat_append_digit: "read_nat (s @ [c]) = 10 * read_nat s + digit_val c"
  by (simp add: read_nat_def)

lemma read_show_nat [simp]: "read_nat (show_nat n) = n"
proof (induction n rule: show_nat.induct)
  case (1 n)
  show ?case
  proof (cases "n < 10")
    case True
    then show ?thesis by (subst show_nat.simps) (simp add: read_nat_def)
  next
    case False
    with 1 show ?thesis by (subst show_nat.simps) (simp add: read_nat_append_digit)
  qed
qed

lemma show_nat_inject [simp]: "show_nat m = show_nat n \<longleftrightarrow> m = n"
  using read_show_nat by metis

lemma length_show_nat: "length (show_nat n) = ndigits n"
proof (induction n rule: show_nat.induct)
  case (1 n)
  then show ?case by (subst show_nat.simps, subst ndigits.simps) auto
qed

lemma ndigits_pos [simp]: "0 < ndigits n"
  by (subst ndigits.simps) auto

lemma ndigits_0 [simp]: "ndigits 0 = 1"
  by (subst ndigits.simps) simp

lemma ndigits_less: "n < 10 ^ ndigits n"
proof (induction n rule: ndigits.induct)
  case (1 n)
  show ?case
  proof (cases "n < 10")
    case True
    then show ?thesis by (subst ndigits.simps) simp
  next
    case False
    with 1 have "n div 10 < 10 ^ ndigits (n div 10)" by simp
    then have "n < 10 * 10 ^ ndigits (n div 10)" by (simp add: div_less_iff_less_mult mult.commute)
    with False show ?thesis by (subst ndigits.simps) simp
  qed
qed

lemma ndigits_le: "0 < n \<Longrightarrow> 10 ^ (ndigits n - 1) \<le> n"
proof (induction n rule: ndigits.induct)
  case (1 n)
  show ?case
  proof (cases "n < 10")
    case True
    with 1 show ?thesis by (subst ndigits.simps) simp
  next
    case False
    with 1 have "10 ^ (ndigits (n div 10) - 1) \<le> n div 10" by simp
    then have "10 * 10 ^ (ndigits (n div 10) - 1) \<le> n" by linarith
    then have "10 ^ ndigits (n div 10) \<le> n"
      by (metis One_nat_def Suc_pred ndigits_pos power_Suc)
    with False show ?thesis by (subst ndigits.simps) simp
  qed
qed

lemma ndigits_shift: "0 < c \<Longrightarrow> ndigits (c * 10 ^ j) = ndigits c + j"
proof (induction j)
  case (Suc j)
  then have "ndigits (c * 10 ^ Suc j) = Suc (ndigits (c * 10 ^ j))"
    by (subst ndigits.simps) (auto simp: mult.commute mult.left_commute)
  with Suc show ?case by simp
qed simp

lemma ndigits_le_iff:
  assumes "0 < k"
  shows "ndigits n \<le> k \<longleftrightarrow> n < 10 ^ k"
proof
  assume "ndigits n \<le> k"
  then have "(10::nat) ^ ndigits n \<le> 10 ^ k" by (rule power_increasing) simp
  with ndigits_less [of n] show "n < 10 ^ k" by (rule less_le_trans)
next
  assume n: "n < 10 ^ k"
  show "ndigits n \<le> k"
  proof (cases "n = 0")
    case True
    with assms show ?thesis by (subst ndigits.simps) simp
  next
    case False
    then have "(10::nat) ^ (ndigits n - 1) \<le> n" using ndigits_le [of n] by simp
    then have "(10::nat) ^ (ndigits n - 1) < 10 ^ k" using n by (rule le_less_trans)
    then have "ndigits n - 1 < k" by (rule power_less_imp_less_exp [rotated]) simp
    then show ?thesis by simp
  qed
qed

lemma ndigits_mono: "c \<le> d \<Longrightarrow> ndigits c \<le> ndigits d"
  using ndigits_le_iff [of "ndigits d" c] ndigits_less [of d] by simp

end
