(* ===== verification/PyDecimal.thy ===== *)
theory PyDecimal
  imports Prelude Complex_Main
begin

section \<open>Python's decimal.Decimal in the default context\<close>

text \<open>
  Finite decimals as the module keeps them: a sign, an integer coefficient and an exponent,
  so that \<open>1.0\<close> and \<open>1.00\<close> are equal numbers with different texts. The operations
  follow the module's algorithms in the default context: 28 significant digits, rounding half
  to even after every operation, and the exponent rules of the General Decimal Arithmetic
  specification. \<open>dval\<close> gives the number a decimal stands for; the lemmas of this theory
  relate every operation to it.

  The operations leave out the exponent limits of the context (plus or minus 999999), whose overflow raises
  \<^verbatim>\<open>decimal.Overflow\<close> and whose underflow rounds to zero. A text as short as \<open>1E+999999\<close> reaches them, so that every
  result about these operations is one about runs whose decimal results stay within the limits. The last section states the limits,
  shows that the operations agree with the limited ones on moderate operands, and where they do not. NaN and infinities are not
  modelled; \<open>as_decimal\<close> refuses them at the border of the modelled code.
\<close>

datatype dec = Dec (dneg: bool) (dcoef: nat) (dexp: int)

definition prec :: nat where "prec = 28"

text \<open>The signed coefficient, and the value.\<close>

definition scoef :: "dec \<Rightarrow> int" where
  "scoef d = (if dneg d then - int (dcoef d) else int (dcoef d))"

definition dval :: "dec \<Rightarrow> rat" where
  "dval d = of_int (scoef d) * 10 powi dexp d"

definition dec_of_int :: "int \<Rightarrow> dec" where
  "dec_of_int i = Dec (i < 0) (nat \<bar>i\<bar>) 0"

definition dzero :: dec where "dzero = Dec False 0 0"
definition done1 :: dec where "done1 = Dec False 1 0"

subsection \<open>Rounding to the context\<close>

text \<open>Half to even at a digit position: \<open>c / m\<close> rounded to an integer.\<close>

definition half_even :: "nat \<Rightarrow> nat \<Rightarrow> nat" where
  "half_even c m =
     (let q = c div m; r = c mod m
      in if m < 2 * r \<or> (2 * r = m \<and> odd q) then Suc q else q)"

definition dfix :: "dec \<Rightarrow> dec" where
  "dfix d =
     (if ndigits (dcoef d) \<le> prec then d
      else let k = ndigits (dcoef d) - prec;
               q = half_even (dcoef d) (10 ^ k)
           in if q = 10 ^ prec then Dec (dneg d) (10 ^ (prec - 1)) (dexp d + int k + 1)
              else Dec (dneg d) q (dexp d + int k))"

subsection \<open>Arithmetic\<close>

definition signed_dec :: "bool \<Rightarrow> int \<Rightarrow> int \<Rightarrow> dec" where
  "signed_dec zero_sign x e = Dec (if x = 0 then zero_sign else x < 0) (nat \<bar>x\<bar>) e"

text \<open>The coefficient of a decimal written at a smaller exponent.\<close>

definition at_exp :: "int \<Rightarrow> dec \<Rightarrow> int" where
  "at_exp e d = scoef d * 10 ^ nat (dexp d - e)"

definition dadd :: "dec \<Rightarrow> dec \<Rightarrow> dec" where
  "dadd a b =
     (let e = min (dexp a) (dexp b)
      in dfix (signed_dec (dcoef a = 0 \<and> dcoef b = 0 \<and> dneg a \<and> dneg b) (at_exp e a + at_exp e b) e))"

definition dneg_copy :: "dec \<Rightarrow> dec" where
  "dneg_copy a = Dec (\<not> dneg a) (dcoef a) (dexp a)"

definition dsub :: "dec \<Rightarrow> dec \<Rightarrow> dec" where
  "dsub a b = dadd a (dneg_copy b)"

definition dmul :: "dec \<Rightarrow> dec \<Rightarrow> dec" where
  "dmul a b = dfix (Dec (dneg a \<noteq> dneg b) (dcoef a * dcoef b) (dexp a + dexp b))"

definition dabs :: "dec \<Rightarrow> dec" where
  "dabs a = dfix (Dec False (dcoef a) (dexp a))"

text \<open>
  Division: one more digit than the precision, with a sticky last digit when the division is
  not exact; an exact quotient drops trailing zeros down to the ideal exponent.
\<close>

function drop_zeros :: "nat \<Rightarrow> int \<Rightarrow> int \<Rightarrow> nat \<times> int" where
  "drop_zeros c e ideal =
     (if e < ideal \<and> c mod 10 = 0 then drop_zeros (c div 10) (e + 1) ideal else (c, e))"
  by pat_completeness auto
termination
  by (relation "measure (\<lambda>(c, e, ideal). nat (ideal - e))") auto

declare drop_zeros.simps [simp del]

definition dquot :: "dec \<Rightarrow> dec \<Rightarrow> dec" where
  "dquot a b =
     (let s = (dneg a \<noteq> dneg b); ideal = dexp a - dexp b
      in if dcoef a = 0 then dfix (Dec s 0 ideal)
         else let shift = int (ndigits (dcoef b)) - int (ndigits (dcoef a)) + int prec + 1;
                  num = dcoef a * 10 ^ nat shift;
                  den = dcoef b * 10 ^ nat (- shift);
                  q = num div den; r = num mod den;
                  e = ideal - shift
              in if r \<noteq> 0 then dfix (Dec s (if q mod 5 = 0 then q + 1 else q) e)
                 else (let (c', e') = drop_zeros q e ideal in dfix (Dec s c' e')))"

definition ddiv :: "dec \<Rightarrow> dec \<Rightarrow> dec res" where
  "ddiv a b =
     (if dcoef b = 0
      then Inl (DivisionByZero (if dcoef a = 0 then ''[<class 'decimal.DivisionUndefined'>]''
                                else ''[<class 'decimal.DivisionByZero'>]''))
      else Inr (dquot a b))"

subsection \<open>Comparisons and conversions\<close>

definition dle :: "dec \<Rightarrow> dec \<Rightarrow> bool" where
  "dle a b = (let e = min (dexp a) (dexp b) in at_exp e a \<le> at_exp e b)"

definition dlt :: "dec \<Rightarrow> dec \<Rightarrow> bool" where
  "dlt a b = (let e = min (dexp a) (dexp b) in at_exp e a < at_exp e b)"

definition deq :: "dec \<Rightarrow> dec \<Rightarrow> bool" where
  "deq a b = (let e = min (dexp a) (dexp b) in at_exp e a = at_exp e b)"

text \<open>The built-ins \<^verbatim>\<open>max(a, b)\<close> and \<^verbatim>\<open>min(a, b)\<close> keep their first argument on a tie.\<close>

definition dmax :: "dec \<Rightarrow> dec \<Rightarrow> dec" where
  "dmax a b = (if dlt a b then b else a)"

definition dmin :: "dec \<Rightarrow> dec \<Rightarrow> dec" where
  "dmin a b = (if dlt b a then b else a)"

text \<open>\<^verbatim>\<open>int(d)\<close> truncates towards zero.\<close>

definition int_of_dec :: "dec \<Rightarrow> int" where
  "int_of_dec d =
     (let m = (if 0 \<le> dexp d then dcoef d * 10 ^ nat (dexp d) else dcoef d div 10 ^ nat (- dexp d))
      in if dneg d then - int m else int m)"

text \<open>\<^verbatim>\<open>str(d)\<close>: the to-scientific-string conversion.\<close>

definition signed_exp :: "int \<Rightarrow> string" where
  "signed_exp n = (if n < 0 then ''E-'' else ''E+'') @ show_nat (nat \<bar>n\<bar>)"

definition dec_str :: "dec \<Rightarrow> string" where
  "dec_str d =
     (let ds = show_nat (dcoef d);
          left = dexp d + int (length ds);
          dot = (if dexp d \<le> 0 \<and> - 6 < left then left else 1);
          ip = (if dot \<le> 0 then ''0''
                else if int (length ds) \<le> dot then ds @ replicate (nat dot - length ds) CHR ''0''
                else take (nat dot) ds);
          fp = (if dot \<le> 0 then ''.'' @ replicate (nat (- dot)) CHR ''0'' @ ds
                else if int (length ds) \<le> dot then []
                else ''.'' @ drop (nat dot) ds);
          ep = (if left = dot then [] else signed_exp (left - dot))
      in (if dneg d then ''-'' else []) @ ip @ fp @ ep)"

text \<open>
  \<^verbatim>\<open>Decimal(text)\<close>: an optional sign, digits with an optional point, an optional exponent;
  or an infinity or a NaN; anything else raises \<^verbatim>\<open>InvalidOperation\<close>. Surrounding
  white space and underscores are dropped first.
\<close>

datatype parsed = PFinite dec | PSpecial | PInvalid

definition take_sign :: "string \<Rightarrow> bool \<times> string" where
  "take_sign s =
     (case s of [] \<Rightarrow> (False, [])
      | c # t \<Rightarrow> if c = CHR ''-'' then (True, t) else if c = CHR ''+'' then (False, t) else (False, c # t))"

definition parse_exp :: "string \<Rightarrow> int option" where
  "parse_exp s =
     (case s of [] \<Rightarrow> Some 0
      | c # t \<Rightarrow>
          if c = CHR ''E'' \<or> c = CHR ''e'' then
            (let (neg, ds) = take_sign t
             in if ds \<noteq> [] \<and> list_all is_digit ds
                then Some (if neg then - int (read_nat ds) else int (read_nat ds)) else None)
          else None)"

definition split_frac :: "string \<Rightarrow> string \<times> string" where
  "split_frac s =
     (case s of [] \<Rightarrow> ([], [])
      | c # t \<Rightarrow> if c = CHR ''.'' then (takeWhile is_digit t, dropWhile is_digit t) else ([], c # t))"

definition is_special_text :: "string \<Rightarrow> bool" where
  "is_special_text s =
     (let t = lower s; u = (case t of c # r \<Rightarrow> if c = CHR ''s'' then r else t | [] \<Rightarrow> t)
      in t = ''inf'' \<or> t = ''infinity'' \<or> (take 3 u = ''nan'' \<and> list_all is_digit (drop 3 u)))"

definition dec_parse :: "string \<Rightarrow> parsed" where
  "dec_parse text =
     (let (neg, body) = take_sign (filter (\<lambda>c. c \<noteq> CHR ''_'') (strip text));
          ip = takeWhile is_digit body;
          (fp, rest) = split_frac (dropWhile is_digit body)
      in if ip = [] \<and> fp = [] then (if is_special_text body then PSpecial else PInvalid)
         else case parse_exp rest of
                None \<Rightarrow> PInvalid
              | Some e \<Rightarrow> PFinite (Dec neg (read_nat (ip @ fp)) (e - int (length fp))))"

section \<open>What the operations compute\<close>

text \<open>Comparisons are the comparisons of the values; rounding is monotone and odd.\<close>

lemma scoef_Dec [simp]: "scoef (Dec s c e) = (if s then - int c else int c)"
  by (simp add: scoef_def)

lemma prec_pos: "0 < prec"
  by (simp add: prec_def)

lemma powi_at:
  assumes "f \<le> e"
  shows "(10::rat) powi e = 10 powi f * 10 ^ nat (e - f)"
proof -
  define n where "n = nat (e - f)"
  have "e = f + int n" using assms by (simp add: n_def)
  then have "(10::rat) powi e = 10 powi f * 10 powi int n" by (simp add: power_int_add)
  then show ?thesis by (simp add: n_def [symmetric])
qed

lemma dval_at_exp: "e \<le> dexp d \<Longrightarrow> dval d = of_int (at_exp e d) * 10 powi e"
  using powi_at [of e "dexp d"] by (simp add: dval_def at_exp_def)

lemma powi10_pos [simp]: "0 < (10::rat) powi e"
  by simp

lemma powi10_not_neg [simp]: "\<not> (10::rat) powi e < 0" "\<not> (10::rat) powi e \<le> 0"
  using powi10_pos [of e] by linarith+

lemma dle_iff: "dle a b \<longleftrightarrow> dval a \<le> dval b"
  by (simp add: dle_def Let_def dval_at_exp [of "min (dexp a) (dexp b)"])

lemma dlt_iff: "dlt a b \<longleftrightarrow> dval a < dval b"
  by (simp add: dlt_def Let_def dval_at_exp [of "min (dexp a) (dexp b)"])

lemma deq_iff: "deq a b \<longleftrightarrow> dval a = dval b"
  by (simp add: deq_def Let_def dval_at_exp [of "min (dexp a) (dexp b)"])

lemma dmax_val: "dval (dmax a b) = max (dval a) (dval b)"
  by (auto simp: dmax_def dlt_iff)

lemma dmin_val: "dval (dmin a b) = min (dval a) (dval b)"
  by (auto simp: dmin_def dlt_iff)

lemma dval_zero_iff: "dval d = 0 \<longleftrightarrow> dcoef d = 0"
  by (simp add: dval_def scoef_def)

lemma dval_dzero [simp]: "dval dzero = 0"
  by (simp add: dval_zero_iff dzero_def)

lemma dval_done1 [simp]: "dval done1 = 1"
  by (simp add: dval_def done1_def scoef_def)

lemma dval_dec_of_int [simp]: "dval (dec_of_int i) = of_int i"
  by (simp add: dval_def dec_of_int_def scoef_def)

lemma half_even_mult: "0 < m \<Longrightarrow> half_even (q * m) m = q"
  by (simp add: half_even_def)

lemma half_even_scale: "0 < t \<Longrightarrow> half_even (c * t) (m * t) = half_even c m"
proof -
  assume t: "0 < t"
  then have "(c * t) div (m * t) = c div m" by simp
  moreover have "(c * t) mod (m * t) = (c mod m) * t" by (simp add: mod_mult_mult2)
  moreover have "m * t < 2 * ((c mod m) * t) \<longleftrightarrow> m < 2 * (c mod m)"
    using t by (metis mult.assoc mult_less_cancel2)
  moreover have "2 * ((c mod m) * t) = m * t \<longleftrightarrow> 2 * (c mod m) = m"
    using t by (metis mult.assoc mult_cancel2 less_numeral_extra(3))
  ultimately show ?thesis by (simp add: half_even_def Let_def)
qed

lemma half_even_mono:
  assumes "0 < m" "c \<le> d"
  shows "half_even c m \<le> half_even d m"
proof (cases "c div m = d div m")
  case True
  from assms(2) True have "c mod m \<le> d mod m"
    by (metis add_le_cancel_left div_mult_mod_eq)
  with True show ?thesis by (auto simp: half_even_def Let_def)
next
  case False
  with assms have "c div m < d div m" using div_le_mono [of c d m] by simp
  then show ?thesis by (auto simp: half_even_def Let_def)
qed

definition rfix :: "nat \<Rightarrow> nat" where
  "rfix c = (if ndigits c \<le> prec then c
             else half_even c (10 ^ (ndigits c - prec)) * 10 ^ (ndigits c - prec))"

lemma rfix_scale: "rfix (c * 10 ^ j) = rfix c * 10 ^ j"
proof (cases "c = 0")
  case True
  then show ?thesis by (simp add: rfix_def half_even_def)
next
  case False
  then have nd: "ndigits (c * 10 ^ j) = ndigits c + j" by (simp add: ndigits_shift)
  show ?thesis
  proof (cases "ndigits c \<le> prec")
    case small: True
    show ?thesis
    proof (cases "ndigits c + j \<le> prec")
      case True
      with small nd show ?thesis by (simp add: rfix_def)
    next
      case False
      define k where "k = ndigits c + j - prec"
      have "k \<le> j" using small by (simp add: k_def)
      then have "c * 10 ^ j = (c * 10 ^ (j - k)) * 10 ^ k"
        by (simp flip: power_add)
      moreover have "half_even ((c * 10 ^ (j - k)) * 10 ^ k) (10 ^ k) = c * 10 ^ (j - k)"
        by (rule half_even_mult) simp
      ultimately have "half_even (c * 10 ^ j) (10 ^ k) * 10 ^ k = c * 10 ^ j" by metis
      with False small nd show ?thesis by (simp add: rfix_def k_def)
    qed
  next
    case False
    define k where "k = ndigits c - prec"
    have kj: "ndigits c + j - prec = k + j" using False by (simp add: k_def)
    have "rfix (c * 10 ^ j) = half_even (c * 10 ^ j) (10 ^ k * 10 ^ j) * (10 ^ k * 10 ^ j)"
      using False nd kj by (simp add: rfix_def power_add)
    also have "\<dots> = half_even c (10 ^ k) * (10 ^ k * 10 ^ j)" by (simp add: half_even_scale)
    also have "\<dots> = rfix c * 10 ^ j" using False by (simp add: rfix_def k_def)
    finally show ?thesis .
  qed
qed

lemma rfix_upper: "c \<le> 10 ^ n \<Longrightarrow> prec \<le> n \<Longrightarrow> ndigits c \<le> n \<Longrightarrow> rfix c \<le> 10 ^ n"
proof (cases "ndigits c \<le> prec")
  case False
  assume c: "c \<le> 10 ^ n" "prec \<le> n" "ndigits c \<le> n"
  define k where "k = ndigits c - prec"
  have k: "k \<le> n" using c by (simp add: k_def)
  then have eq: "(10::nat) ^ n = 10 ^ (n - k) * 10 ^ k" by (simp flip: power_add)
  have "half_even c (10 ^ k) \<le> half_even (10 ^ (n - k) * 10 ^ k) (10 ^ k)"
    using c(1) eq by (intro half_even_mono) auto
  then have "half_even c (10 ^ k) \<le> 10 ^ (n - k)" by (simp add: half_even_mult)
  then have "half_even c (10 ^ k) * 10 ^ k \<le> 10 ^ n" by (subst eq) simp
  with False show ?thesis by (simp add: rfix_def k_def)
qed (auto simp: rfix_def)

lemma rfix_lower: "10 ^ n \<le> c \<Longrightarrow> prec \<le> n \<Longrightarrow> ndigits c = Suc n \<Longrightarrow> 10 ^ n \<le> rfix c"
proof -
  assume c: "10 ^ n \<le> c" "prec \<le> n" "ndigits c = Suc n"
  define k where "k = ndigits c - prec"
  note p = prec_pos
  have k: "k \<le> n" using c p by (simp add: k_def)
  then have eq: "(10::nat) ^ n = 10 ^ (n - k) * 10 ^ k" by (simp flip: power_add)
  have "half_even (10 ^ (n - k) * 10 ^ k) (10 ^ k) \<le> half_even c (10 ^ k)"
    using c(1) eq by (intro half_even_mono) auto
  then have "10 ^ (n - k) \<le> half_even c (10 ^ k)" by (simp add: half_even_mult)
  then have "10 ^ n \<le> half_even c (10 ^ k) * 10 ^ k" by (subst eq) simp
  with c show ?thesis by (simp add: rfix_def k_def)
qed

lemma rfix_mono:
  assumes "c \<le> d"
  shows "rfix c \<le> rfix d"
proof (cases "ndigits d \<le> prec")
  case True
  with assms ndigits_mono [OF assms] show ?thesis by (simp add: rfix_def)
next
  case d: False
  show ?thesis
  proof (cases "ndigits c = ndigits d")
    case True
    with assms d show ?thesis by (auto simp: rfix_def intro: half_even_mono)
  next
    case False
    define n where "n = ndigits d - 1"
    have n: "ndigits d = Suc n" "prec \<le> n" "ndigits c \<le> n"
      using d False ndigits_mono [OF assms] by (auto simp: n_def)
    have "c \<le> 10 ^ n" using n(3) ndigits_le_iff [of n c] ndigits_pos [of c] by auto
    then have "rfix c \<le> 10 ^ n" using n by (intro rfix_upper) auto
    also have "0 < d" using n by (cases d) (auto simp: ndigits.simps prec_def)
    then have "10 ^ n \<le> rfix d" using ndigits_le [of d] n by (intro rfix_lower) auto
    finally show ?thesis .
  qed
qed

definition rint :: "int \<Rightarrow> int" where
  "rint x = (if x < 0 then - int (rfix (nat (- x))) else int (rfix (nat x)))"

lemma rfix_0 [simp]: "rfix 0 = 0"
  by (simp add: rfix_def ndigits.simps prec_def)

lemma rfix_eq_0_iff [simp]: "rfix c = 0 \<longleftrightarrow> c = 0"
proof
  assume r: "rfix c = 0"
  show "c = 0"
  proof (rule ccontr)
    assume "c \<noteq> 0"
    then have "rfix 1 \<le> rfix c" by (intro rfix_mono) simp
    moreover have "rfix 1 = 1" by (simp add: rfix_def ndigits.simps prec_def)
    ultimately show False using r by simp
  qed
qed simp

lemma rint_mono: "x \<le> y \<Longrightarrow> rint x \<le> rint y"
  by (auto simp: rint_def intro!: rfix_mono nat_mono)

lemma rint_scale: "rint (x * 10 ^ j) = rint x * 10 ^ j"
proof -
  have "nat (- (x * 10 ^ j)) = nat (- x) * 10 ^ j" if "x < 0"
    using that nat_mult_distrib [of "- x" "10 ^ j"] by (simp add: nat_power_eq)
  moreover have "nat (x * 10 ^ j) = nat x * 10 ^ j" if "\<not> x < 0"
    using that nat_mult_distrib [of x "10 ^ j"] by (simp add: nat_power_eq)
  ultimately show ?thesis
    by (auto simp: rint_def rfix_scale mult_less_0_iff)
qed

lemma dneg_dfix [simp]: "dneg (dfix d) = dneg d"
  by (simp add: dfix_def Let_def)

lemma dval_dfix: "dval (dfix d) = of_int (rint (scoef d)) * 10 powi dexp d"
proof (cases "ndigits (dcoef d) \<le> prec")
  case True
  then show ?thesis by (auto simp: dfix_def rint_def rfix_def dval_def scoef_def)
next
  case False
  define k where "k = ndigits (dcoef d) - prec"
  define q where "q = half_even (dcoef d) (10 ^ k)"
  have r: "rfix (dcoef d) = q * 10 ^ k" using False by (simp add: rfix_def k_def q_def)
  have c0: "dcoef d \<noteq> 0" using False ndigits_0 by (metis One_nat_def Suc_leI prec_pos)
  have sc: "rint (scoef d) = (if dneg d then - int (q * 10 ^ k) else int (q * 10 ^ k))"
    using c0 r by (auto simp: rint_def scoef_def)
  have pk: "(10::rat) powi (dexp d + int k) = 10 ^ k * 10 powi dexp d"
    by (simp add: power_int_add)
  have pk1: "(10::rat) ^ 27 * 10 powi (dexp d + int k + 1) = 10 ^ 28 * 10 ^ k * 10 powi dexp d"
    by (simp add: power_int_add)
  show ?thesis
  proof (cases "q = 10 ^ prec")
    case True
    then have "dfix d = Dec (dneg d) (10 ^ 27) (dexp d + int k + 1)"
      using False by (simp add: dfix_def q_def k_def Let_def prec_def)
    with True pk1 show ?thesis by (simp add: sc dval_def prec_def)
  next
    case qn: False
    then have "dfix d = Dec (dneg d) q (dexp d + int k)"
      using False by (simp add: dfix_def q_def k_def Let_def)
    with pk show ?thesis by (simp add: sc dval_def)
  qed
qed

lemma dfix_mono:
  assumes "dval a \<le> dval b"
  shows "dval (dfix a) \<le> dval (dfix b)"
proof -
  define e where "e = min (dexp a) (dexp b)"
  define i where "i = nat (dexp a - e)"
  define j where "j = nat (dexp b - e)"
  have a: "dval a = of_int (scoef a * 10 ^ i) * 10 powi e"
    using dval_at_exp [of e a] by (simp add: e_def i_def at_exp_def)
  have b: "dval b = of_int (scoef b * 10 ^ j) * 10 powi e"
    using dval_at_exp [of e b] by (simp add: e_def j_def at_exp_def)
  have fa: "dval (dfix a) = of_int (rint (scoef a * 10 ^ i)) * 10 powi e"
    using powi_at [of e "dexp a"] by (simp add: dval_dfix rint_scale e_def i_def)
  have fb: "dval (dfix b) = of_int (rint (scoef b * 10 ^ j)) * 10 powi e"
    using powi_at [of e "dexp b"] by (simp add: dval_dfix rint_scale e_def j_def)
  from assms a b have "scoef a * 10 ^ i \<le> scoef b * 10 ^ j"
    by (simp del: of_int_mult of_int_power)
  then have "rint (scoef a * 10 ^ i) \<le> rint (scoef b * 10 ^ j)" by (rule rint_mono)
  then show ?thesis unfolding fa fb by (intro mult_right_mono) auto
qed

lemma dfix_cong_val: "dval a = dval b \<Longrightarrow> dval (dfix a) = dval (dfix b)"
  using dfix_mono [of a b] dfix_mono [of b a] by simp

definition fits :: "dec \<Rightarrow> bool" where
  "fits d = (ndigits (dcoef d) \<le> prec)"

lemma dfix_fits [simp]: "fits d \<Longrightarrow> dfix d = d"
  by (simp add: fits_def dfix_def)

lemma fits_dfix [simp]: "fits (dfix d)"
proof (cases "ndigits (dcoef d) \<le> prec")
  case True
  then show ?thesis by (simp add: dfix_def fits_def)
next
  case False
  define k where "k = ndigits (dcoef d) - prec"
  define q where "q = half_even (dcoef d) (10 ^ k)"
  have "dcoef d \<le> 10 ^ prec * 10 ^ k"
    using ndigits_less [of "dcoef d"] False by (simp add: k_def flip: power_add)
  then have "q \<le> half_even (10 ^ prec * 10 ^ k) (10 ^ k)"
    unfolding q_def by (rule half_even_mono [rotated]) simp
  then have q: "q \<le> 10 ^ prec" by (simp add: half_even_mult)
  have p: "ndigits (10 ^ (prec - 1)) \<le> prec"
    by (subst ndigits_le_iff) (simp_all add: prec_def)
  have "q \<noteq> 10 ^ prec \<Longrightarrow> ndigits q \<le> prec"
    using q by (subst ndigits_le_iff) (simp_all add: prec_def)
  with False p show ?thesis by (simp add: dfix_def fits_def Let_def k_def q_def)
qed

lemma rint_eq_0_iff [simp]: "rint x = 0 \<longleftrightarrow> x = 0"
  by (auto simp: rint_def)

lemma dfix_zero_iff [simp]: "dval (dfix d) = 0 \<longleftrightarrow> dval d = 0"
  unfolding dval_dfix by (simp add: dval_def)

lemma fits_dzero [simp]: "fits dzero"
  by (simp add: fits_def dzero_def prec_def)

lemma dfix_nonneg: "0 \<le> dval d \<Longrightarrow> 0 \<le> dval (dfix d)"
  using dfix_mono [of dzero d] by simp

lemma dfix_nonpos: "dval d \<le> 0 \<Longrightarrow> dval (dfix d) \<le> 0"
  using dfix_mono [of d dzero] by simp

lemma dfix_pos: "0 < dval d \<Longrightarrow> 0 < dval (dfix d)"
  using dfix_nonneg [of d] dfix_zero_iff [of d] by linarith

subsection \<open>The operations on values\<close>

definition exact_sum :: "dec \<Rightarrow> dec \<Rightarrow> dec" where
  "exact_sum a b =
     (let e = min (dexp a) (dexp b)
      in signed_dec (dcoef a = 0 \<and> dcoef b = 0 \<and> dneg a \<and> dneg b) (at_exp e a + at_exp e b) e)"

definition exact_prod :: "dec \<Rightarrow> dec \<Rightarrow> dec" where
  "exact_prod a b = Dec (dneg a \<noteq> dneg b) (dcoef a * dcoef b) (dexp a + dexp b)"

lemma dadd_exact: "dadd a b = dfix (exact_sum a b)"
  by (simp add: dadd_def exact_sum_def Let_def)

lemma dmul_exact: "dmul a b = dfix (exact_prod a b)"
  by (simp add: dmul_def exact_prod_def)

lemma dval_signed_dec: "dval (signed_dec s x e) = of_int x * 10 powi e"
  by (simp add: signed_dec_def dval_def scoef_def)

lemma dval_exact_sum [simp]: "dval (exact_sum a b) = dval a + dval b"
  by (simp add: exact_sum_def Let_def dval_signed_dec algebra_simps
      dval_at_exp [of "min (dexp a) (dexp b)" a] dval_at_exp [of "min (dexp a) (dexp b)" b])

lemma dval_exact_prod [simp]: "dval (exact_prod a b) = dval a * dval b"
  by (auto simp: exact_prod_def dval_def scoef_def power_int_add)

lemma dval_dneg_copy [simp]: "dval (dneg_copy a) = - dval a"
  by (simp add: dneg_copy_def dval_def scoef_def)

lemma fits_dneg_copy [simp]: "fits (dneg_copy a) = fits a"
  by (simp add: dneg_copy_def fits_def)

lemma fits_ops [simp]: "fits (dadd a b)" "fits (dsub a b)" "fits (dmul a b)" "fits (dabs a)"
  by (simp_all add: dadd_exact dsub_def dmul_exact dabs_def)

lemma dadd_nonneg: "0 \<le> dval a + dval b \<Longrightarrow> 0 \<le> dval (dadd a b)"
  by (simp add: dadd_exact dfix_nonneg)

lemma dadd_pos: "0 < dval a + dval b \<Longrightarrow> 0 < dval (dadd a b)"
  by (simp add: dadd_exact dfix_pos)

lemma dadd_mono: "dval a + dval b \<le> dval c + dval d \<Longrightarrow> dval (dadd a b) \<le> dval (dadd c d)"
  by (simp add: dadd_exact dfix_mono)

lemma dadd_le_fits: "fits c \<Longrightarrow> dval a + dval b \<le> dval c \<Longrightarrow> dval (dadd a b) \<le> dval c"
  using dfix_mono [of "exact_sum a b" c] by (simp add: dadd_exact)

lemma dadd_ge_fits: "fits c \<Longrightarrow> dval c \<le> dval a + dval b \<Longrightarrow> dval c \<le> dval (dadd a b)"
  using dfix_mono [of c "exact_sum a b"] by (simp add: dadd_exact)

lemma dsub_nonneg: "dval b \<le> dval a \<Longrightarrow> 0 \<le> dval (dsub a b)"
  by (simp add: dsub_def dadd_nonneg)

lemma dsub_pos: "dval b < dval a \<Longrightarrow> 0 < dval (dsub a b)"
  by (simp add: dsub_def dadd_pos)

lemma dsub_zero_iff: "dval (dsub a b) = 0 \<longleftrightarrow> dval a = dval b"
  by (simp add: dsub_def dadd_exact)

lemma dsub_le_fits: "fits c \<Longrightarrow> dval a - dval b \<le> dval c \<Longrightarrow> dval (dsub a b) \<le> dval c"
  by (simp add: dsub_def dadd_le_fits)

lemma dsub_ge_fits: "fits c \<Longrightarrow> dval c \<le> dval a - dval b \<Longrightarrow> dval c \<le> dval (dsub a b)"
  by (simp add: dsub_def dadd_ge_fits)

lemma dmul_nonneg: "0 \<le> dval a \<Longrightarrow> 0 \<le> dval b \<Longrightarrow> 0 \<le> dval (dmul a b)"
  by (simp add: dmul_exact dfix_nonneg)

lemma dmul_pos: "0 < dval a \<Longrightarrow> 0 < dval b \<Longrightarrow> 0 < dval (dmul a b)"
  by (simp add: dmul_exact dfix_pos)

lemma dmul_le_fits: "fits c \<Longrightarrow> dval a * dval b \<le> dval c \<Longrightarrow> dval (dmul a b) \<le> dval c"
  using dfix_mono [of "exact_prod a b" c] by (simp add: dmul_exact)

lemma dmul_ge_fits: "fits c \<Longrightarrow> dval c \<le> dval a * dval b \<Longrightarrow> dval c \<le> dval (dmul a b)"
  using dfix_mono [of c "exact_prod a b"] by (simp add: dmul_exact)

lemma dval_dabs_fits: "fits a \<Longrightarrow> dval (dabs a) = \<bar>dval a\<bar>"
  by (simp add: dabs_def fits_def dfix_def dval_def scoef_def abs_mult)

text \<open>An operation is exact when the unrounded result has at most 28 digits.\<close>

lemma dadd_fits: "fits (exact_sum a b) \<Longrightarrow> dval (dadd a b) = dval a + dval b"
  by (simp add: dadd_exact)

lemma dsub_fits: "fits (exact_sum a (dneg_copy b)) \<Longrightarrow> dval (dsub a b) = dval a - dval b"
  by (simp add: dsub_def dadd_exact)

lemma dmul_fits: "fits (exact_prod a b) \<Longrightarrow> dval (dmul a b) = dval a * dval b"
  by (simp add: dmul_exact)

subsection \<open>Division\<close>

lemma drop_zeros_val:
  "drop_zeros c e ideal = (c', e') \<Longrightarrow> of_nat c' * (10::rat) powi e' = of_nat c * 10 powi e"
proof (induction c e ideal arbitrary: c' e' rule: drop_zeros.induct)
  case (1 c e ideal)
  show ?case
  proof (cases "e < ideal \<and> c mod 10 = 0")
    case True
    then have "of_nat c' * (10::rat) powi e' = of_nat (c div 10) * 10 powi (e + 1)"
      using 1 by (subst (asm) (2) drop_zeros.simps) simp
    moreover have "of_nat c = (10::rat) * of_nat (c div 10)"
      using True by (metis dvd_mult_div_cancel mod_0_imp_dvd of_nat_mult of_nat_numeral)
    ultimately show ?thesis by (simp add: power_int_add)
  next
    case False
    then show ?thesis using "1.prems" by (subst (asm) drop_zeros.simps) auto
  qed
qed

text \<open>
  The quotient is the context's rounding of a decimal \<open>y\<close> that no number of 28 digits
  separates from the exact quotient: this is what the sticky digit is for.
\<close>

lemma ndigits_gap:
  assumes "0 < m" "0 < n" "ndigits n + k < ndigits m"
  shows "10 ^ k * n < m"
proof -
  have "n < 10 ^ ndigits n" by (rule ndigits_less)
  then have "10 ^ k * n < 10 ^ k * 10 ^ ndigits n" by simp
  also have "\<dots> = 10 ^ (ndigits n + k)" by (simp add: power_add)
  also have "\<dots> \<le> 10 ^ (ndigits m - 1)" using assms(3) by (intro power_increasing) auto
  also have "\<dots> \<le> m" using assms(1) by (rule ndigits_le)
  finally show ?thesis .
qed

lemma fits_multiple:
  assumes c: "fits c" and big: "(10::rat) ^ prec * 10 powi e \<le> \<bar>dval c\<bar>"
  obtains n :: int where "dval c = of_int n * 10 powi e"
proof -
  have "\<bar>scoef c\<bar> < 10 ^ prec"
    using c ndigits_le_iff [of prec "dcoef c"] by (simp add: fits_def scoef_def prec_def)
  then have "\<bar>dval c\<bar> < 10 ^ prec * 10 powi dexp c"
    by (simp add: dval_def abs_mult flip: of_int_abs)
  with big have "(10::rat) ^ prec * 10 powi e < 10 ^ prec * 10 powi dexp c" by linarith
  then have "(10::rat) powi e < 10 powi dexp c" by simp
  then have "e \<le> dexp c" using power_int_increasing [of "dexp c" e "10::rat"] by linarith
  then have "dval c = of_int (at_exp e c) * 10 powi e" by (rule dval_at_exp)
  then show ?thesis by (rule that)
qed

lemma sticky_between:
  assumes q: "(0::nat) < r" "r < den" and num: "num = q * den + r"
    and q': "q' = (if q mod 5 = 0 then q + 1 else q)"
  shows "of_nat q < (of_nat num / of_nat den :: rat)" and "(of_nat num / of_nat den :: rat) < of_nat q + 1"
    and "q \<le> q'" and "q' \<le> q + 1"
proof -
  have n: "(of_nat num :: rat) = of_nat q * of_nat den + of_nat r" by (simp add: num)
  show "of_nat q < (of_nat num / of_nat den :: rat)"
    using q by (simp add: n field_simps)
  show "(of_nat num / of_nat den :: rat) < of_nat q + 1"
    using q by (simp add: n field_simps)
qed (simp_all add: q')

definition near_quot :: "dec \<Rightarrow> dec \<Rightarrow> dec \<Rightarrow> bool" where
  "near_quot a b y =
     (\<forall>c. fits c \<longrightarrow> (\<bar>dval a\<bar> / \<bar>dval b\<bar> \<le> dval c \<longrightarrow> \<bar>dval y\<bar> \<le> dval c)
        \<and> (dval c \<le> \<bar>dval a\<bar> / \<bar>dval b\<bar> \<longrightarrow> dval c \<le> \<bar>dval y\<bar>))"

lemma near_quot_sticky:
  assumes t: "\<bar>dval a\<bar> / \<bar>dval b\<bar> = t * 10 powi e"
    and q: "of_nat q < t" "t < of_nat q + 1" "q \<le> q'" "q' \<le> q + 1" and big: "10 ^ prec \<le> q"
    and y: "\<bar>dval y\<bar> = of_nat q' * 10 powi e"
  shows "near_quot a b y"
  unfolding near_quot_def
proof (intro allI impI conjI)
  fix c assume c: "fits c"
  have qb: "(10::rat) ^ prec \<le> of_nat q" using big by (metis of_nat_le_iff of_nat_numeral of_nat_power)
  {
    assume le: "\<bar>dval a\<bar> / \<bar>dval b\<bar> \<le> dval c"
    have "(10::rat) ^ prec * 10 powi e \<le> t * 10 powi e" 
      by (intro mult_right_mono order_trans [OF qb less_imp_le [OF q(1)]]) simp
    then have "(10::rat) ^ prec * 10 powi e \<le> \<bar>dval c\<bar>" using le t by linarith
    then obtain n where n: "dval c = of_int n * 10 powi e" using c fits_multiple by blast
    then have "t \<le> of_int n" using le t by simp
    then have "of_int (int q) < (of_int n :: rat)" using q(1) by simp
    then have "int q < n" by (simp only: of_int_less_iff)
    then have "int q' \<le> n" using q(4) by linarith
    then have "(of_int (int q') :: rat) \<le> of_int n" by (simp only: of_int_le_iff)
    then show "\<bar>dval y\<bar> \<le> dval c" unfolding y n by (intro mult_right_mono) simp_all
  next
    assume le: "dval c \<le> \<bar>dval a\<bar> / \<bar>dval b\<bar>"
    show "dval c \<le> \<bar>dval y\<bar>"
    proof (cases "(10::rat) ^ prec * 10 powi e \<le> \<bar>dval c\<bar>")
      case True
      then obtain n where n: "dval c = of_int n * 10 powi e" using c fits_multiple by blast
      then have "of_int n \<le> t" using le t by simp
      then have "of_int n < (of_int (int q + 1) :: rat)" using q(2) by simp
      then have "n < int q + 1" by (simp only: of_int_less_iff)
      then have "n \<le> int q'" using q(3) by linarith
      then have "(of_int n :: rat) \<le> of_int (int q')" by (simp only: of_int_le_iff)
      then show ?thesis unfolding y n by (intro mult_right_mono) simp_all
    next
      case False
      have "(of_nat q :: rat) \<le> of_nat q'" using q(3) by simp
      then have "(10::rat) ^ prec * 10 powi e \<le> of_nat q' * 10 powi e"
        by (intro mult_right_mono order_trans [OF qb]) auto
      with False show ?thesis unfolding y by linarith
    qed
  }
qed

lemma near_quot_exact: "\<bar>dval y\<bar> = \<bar>dval a\<bar> / \<bar>dval b\<bar> \<Longrightarrow> near_quot a b y"
  by (simp add: near_quot_def)

lemma abs_dval: "\<bar>dval d\<bar> = of_nat (dcoef d) * 10 powi dexp d"
  by (simp add: dval_def scoef_def abs_mult)

lemma quot_scaled:
  assumes "dcoef b \<noteq> 0"
    and "num = dcoef a * 10 ^ nat shift" "den = dcoef b * 10 ^ nat (- shift)"
  shows "\<bar>dval a\<bar> / \<bar>dval b\<bar> = of_nat num / of_nat den * 10 powi (dexp a - dexp b - shift)"
proof -
  have "(10::rat) ^ nat shift = 10 powi shift * 10 ^ nat (- shift)"
    by (cases "0 \<le> shift") (simp_all add: power_int_def flip: power_mult_distrib)
  then show ?thesis using assms
    by (simp add: abs_dval power_int_diff power_int_add field_simps)
qed

lemma quot_big:
  assumes "dcoef a \<noteq> 0" "dcoef b \<noteq> 0"
    and sh: "shift = int (ndigits (dcoef b)) - int (ndigits (dcoef a)) + int prec + 1"
    and num: "num = dcoef a * 10 ^ nat shift" and den: "den = dcoef b * 10 ^ nat (- shift)"
  shows "0 < den" "10 ^ prec \<le> num div den"
proof -
  show d: "0 < den" using assms(2) by (simp add: den)
  have nn: "ndigits num = ndigits (dcoef a) + nat shift" using assms(1) by (simp add: num ndigits_shift)
  have nd: "ndigits den = ndigits (dcoef b) + nat (- shift)" using assms(2) by (simp add: den ndigits_shift)
  have "ndigits den + prec < ndigits num" unfolding nn nd using sh by linarith
  then have "10 ^ prec * den < num" using d assms(1) by (intro ndigits_gap) (auto simp: num)
  then show "10 ^ prec \<le> num div den" using d by (simp add: less_eq_div_iff_mult_less_eq)
qed

lemma dquot_rounds:
  assumes b: "dcoef b \<noteq> 0"
  obtains y where "dquot a b = dfix y" "near_quot a b y" "dneg y = (dneg a \<noteq> dneg b)"
    "dcoef y = 0 \<longleftrightarrow> dcoef a = 0"
proof (cases "dcoef a = 0")
  case True
  let ?y = "Dec (dneg a \<noteq> dneg b) 0 (dexp a - dexp b)"
  have "dquot a b = dfix ?y" using True by (simp add: dquot_def Let_def)
  moreover have "near_quot a b ?y" using True by (intro near_quot_exact) (simp add: abs_dval)
  ultimately show ?thesis using True by (intro that [of ?y]) auto
next
  case a: False
  define shift where "shift = int (ndigits (dcoef b)) - int (ndigits (dcoef a)) + int prec + 1"
  define num where "num = dcoef a * 10 ^ nat shift"
  define den where "den = dcoef b * 10 ^ nat (- shift)"
  define e where "e = dexp a - dexp b - shift"
  define q where "q = num div den"
  define r where "r = num mod den"
  note big = quot_big [OF a b shift_def num_def den_def]
  have x: "\<bar>dval a\<bar> / \<bar>dval b\<bar> = of_nat num / of_nat den * 10 powi e"
    unfolding e_def by (rule quot_scaled [OF b num_def den_def])
  have q: "10 ^ prec \<le> q" using big by (simp add: q_def)
  then have q0: "0 < q" by (metis gr0I not_le zero_less_numeral zero_less_power)
  have nq: "num = q * den + r" by (simp add: q_def r_def)
  have dq: "dquot a b = (if r \<noteq> 0 then dfix (Dec (dneg a \<noteq> dneg b) (if q mod 5 = 0 then q + 1 else q) e)
     else (let (c', e') = drop_zeros q e (dexp a - dexp b) in dfix (Dec (dneg a \<noteq> dneg b) c' e')))"
    using a by (simp add: dquot_def Let_def shift_def num_def den_def e_def q_def r_def)
  show ?thesis
  proof (cases "r = 0")
    case False
    define q' where "q' = (if q mod 5 = 0 then q + 1 else q)"
    have r: "0 < r" "r < den" using False big by (auto simp: r_def)
    note st = sticky_between [OF r nq q'_def]
    have "near_quot a b (Dec (dneg a \<noteq> dneg b) q' e)"
      by (rule near_quot_sticky [OF x st q]) (simp add: abs_dval)
    moreover have "q' \<noteq> 0" using q0 by (simp add: q'_def)
    ultimately show ?thesis using False a dq
      by (intro that [of "Dec (dneg a \<noteq> dneg b) q' e"]) (auto simp: q'_def)
  next
    case True
    obtain c' e' where dz: "drop_zeros q e (dexp a - dexp b) = (c', e')" by (cases "drop_zeros q e (dexp a - dexp b)")
    have v: "of_nat c' * (10::rat) powi e' = of_nat q * 10 powi e" by (rule drop_zeros_val [OF dz])
    have "of_nat num / of_nat den = (of_nat q :: rat)" using True nq big by simp
    then have "near_quot a b (Dec (dneg a \<noteq> dneg b) c' e')"
      using x v by (intro near_quot_exact) (simp add: abs_dval)
    moreover have "c' \<noteq> 0"
    proof
      assume "c' = 0"
      with v have "(of_nat q :: rat) * 10 powi e = 0" by simp
      with q0 show False using powi10_not_neg(2) [of e] by simp
    qed
    ultimately show ?thesis using True a dq dz
      by (intro that [of "Dec (dneg a \<noteq> dneg b) c' e'"]) auto
  qed
qed

lemma dval_nonneg_iff: "0 \<le> dval d \<longleftrightarrow> \<not> dneg d \<or> dcoef d = 0"
  by (simp add: dval_def scoef_def zero_le_mult_iff)

lemma dval_pos_iff: "0 < dval d \<longleftrightarrow> \<not> dneg d \<and> dcoef d \<noteq> 0"
  by (simp add: dval_def scoef_def zero_less_mult_iff)

lemma fits_dquot [simp]: "dcoef b \<noteq> 0 \<Longrightarrow> fits (dquot a b)"
  by (rule dquot_rounds [of b a]) auto

lemma dquot_sign:
  assumes "0 < dval b"
  shows "0 \<le> dval a \<Longrightarrow> 0 \<le> dval (dquot a b)" and "0 < dval a \<Longrightarrow> 0 < dval (dquot a b)"
proof -
  from assms have "dcoef b \<noteq> 0" by (simp add: dval_pos_iff)
  then obtain y where y: "dquot a b = dfix y" "dneg y = (dneg a \<noteq> dneg b)" "dcoef y = 0 \<longleftrightarrow> dcoef a = 0"
    by (rule dquot_rounds)
  {
    assume "0 \<le> dval a"
    then have "0 \<le> dval y" using y assms by (auto simp: dval_nonneg_iff dval_pos_iff)
    then show "0 \<le> dval (dquot a b)" unfolding y(1) by (rule dfix_nonneg)
  next
    assume "0 < dval a"
    then have "0 < dval y" using y assms by (auto simp: dval_pos_iff)
    then show "0 < dval (dquot a b)" unfolding y(1) by (rule dfix_pos)
  }
qed

lemma dquot_nonneg: "0 \<le> dval a \<Longrightarrow> 0 < dval b \<Longrightarrow> 0 \<le> dval (dquot a b)"
  and dquot_pos: "0 < dval a \<Longrightarrow> 0 < dval b \<Longrightarrow> 0 < dval (dquot a b)"
  by (simp_all add: dquot_sign)

lemma dquot_le_fits:
  assumes "0 \<le> dval a" "0 < dval b" "fits c" "dval a / dval b \<le> dval c"
  shows "dval (dquot a b) \<le> dval c"
proof -
  from assms(2) have b: "dcoef b \<noteq> 0" by (simp add: dval_pos_iff)
  then obtain y where y: "dquot a b = dfix y" "near_quot a b y" by (rule dquot_rounds)
  from assms have "\<bar>dval a\<bar> / \<bar>dval b\<bar> \<le> dval c" by simp
  with y(2) assms(3) have "\<bar>dval y\<bar> \<le> dval c" unfolding near_quot_def by blast
  then have "dval (dfix y) \<le> dval (dfix c)" by (intro dfix_mono) linarith
  with assms(3) y(1) show ?thesis by simp
qed

lemma dquot_ge_fits:
  assumes "0 \<le> dval a" "0 < dval b" "fits c" "dval c \<le> dval a / dval b"
  shows "dval c \<le> dval (dquot a b)"
proof (cases "dcoef a = 0")
  case True
  then have "dval a = 0" by (simp add: dval_zero_iff)
  with assms dquot_nonneg [of a b] show ?thesis by simp
next
  case a: False
  from assms(2) have b: "dcoef b \<noteq> 0" by (simp add: dval_pos_iff)
  then obtain y where y: "dquot a b = dfix y" "near_quot a b y" "dneg y = (dneg a \<noteq> dneg b)"
    by (rule dquot_rounds)
  have "\<not> dneg y" using y(3) a assms by (simp add: dval_nonneg_iff dval_pos_iff)
  then have "\<bar>dval y\<bar> = dval y" by (simp add: dval_nonneg_iff)
  moreover from assms have "dval c \<le> \<bar>dval a\<bar> / \<bar>dval b\<bar>" by simp
  with y(2) assms(3) have "dval c \<le> \<bar>dval y\<bar>" unfolding near_quot_def by blast
  ultimately have "dval (dfix c) \<le> dval (dfix y)" by (intro dfix_mono) simp
  with assms(3) y(1) show ?thesis by simp
qed

section \<open>Texts of decimals\<close>

lemma split_digits:
  assumes "\<forall>c \<in> set ds. is_digit c" and "t = [] \<or> \<not> is_digit (hd t)"
  shows "takeWhile is_digit (ds @ t) = ds" and "dropWhile is_digit (ds @ t) = t"
  using assms by (cases t; auto simp: takeWhile_append2 dropWhile_append2)+

lemma not_digit_special [simp]:
  "\<not> is_digit CHR ''.''" "\<not> is_digit CHR ''E''" "\<not> is_digit CHR ''-''" "\<not> is_digit CHR ''+''"
  "\<not> is_digit CHR ''_''" "\<not> is_space CHR ''.''" "\<not> is_space CHR ''E''" "\<not> is_space CHR ''-''"
  "\<not> is_space CHR ''+''"
  by code_simp+

lemma parse_signed_exp [simp]: "parse_exp (signed_exp n) = Some n"
  using show_nat_digits [of "nat \<bar>n\<bar>"]
  by (auto simp: parse_exp_def signed_exp_def take_sign_def list_all_iff)

lemma parse_exp_Nil [simp]: "parse_exp [] = Some 0"
  by (simp add: parse_exp_def)

definition num_text :: "bool \<Rightarrow> string \<Rightarrow> string \<Rightarrow> int option \<Rightarrow> string" where
  "num_text neg ip fp e =
     (if neg then ''-'' else []) @ ip @ (if fp = [] then [] else ''.'' @ fp)
       @ (case e of None \<Rightarrow> [] | Some n \<Rightarrow> signed_exp n)"

lemma num_text_chars:
  assumes "\<forall>c \<in> set ip. is_digit c" "\<forall>c \<in> set fp. is_digit c"
  shows "\<forall>c \<in> set (num_text neg ip fp e). \<not> is_space c \<and> c \<noteq> CHR ''_''"
proof -
  define P where "P = (\<lambda>c. \<not> is_space c \<and> c \<noteq> CHR ''_'')"
  have d: "\<And>c. is_digit c \<Longrightarrow> P c"
    unfolding P_def using is_digit_not_special by auto
  have special: "P CHR ''-''" "P CHR ''.''" "P CHR ''E''" "P CHR ''+''"
    by (simp_all add: P_def)
  have "\<forall>c \<in> set (signed_exp n). P c" for n
    using show_nat_digits [of "nat \<bar>n\<bar>"] d special by (auto simp: signed_exp_def)
  then have "\<forall>c \<in> set (num_text neg ip fp e). P c"
    using assms d special by (auto simp: num_text_def split: option.splits)
  then show ?thesis by (simp add: P_def)
qed

lemma dec_parse_num_text:
  assumes ip: "\<forall>c \<in> set ip. is_digit c" and fp: "\<forall>c \<in> set fp. is_digit c" and ne: "ip \<noteq> []"
  shows "dec_parse (num_text neg ip fp e)
    = PFinite (Dec neg (read_nat (ip @ fp)) ((case e of None \<Rightarrow> 0 | Some n \<Rightarrow> n) - int (length fp)))"
proof -
  define tl where "tl = (case e of None \<Rightarrow> [] | Some n \<Rightarrow> signed_exp n)"
  define body where "body = ip @ (if fp = [] then [] else ''.'' @ fp) @ tl"
  have tl: "tl = [] \<or> \<not> is_digit (hd tl)" "tl = [] \<or> hd tl \<noteq> CHR ''.''"
    by (auto simp: tl_def signed_exp_def split: option.splits)
  have "strip (num_text neg ip fp e) = num_text neg ip fp e"
    using num_text_chars [OF ip fp] by (intro strip_no_space) blast
  then have clean: "filter (\<lambda>c. c \<noteq> CHR ''_'') (strip (num_text neg ip fp e)) = num_text neg ip fp e"
    using num_text_chars [OF ip fp] by (simp add: filter_id_conv)
  obtain c ip' where c: "ip = c # ip'" using ne by (cases ip) auto
  then have "is_digit c" using ip by simp
  then have "c \<noteq> CHR ''-''" "c \<noteq> CHR ''+''" by auto
  then have sgn: "take_sign (num_text neg ip fp e) = (neg, body)"
    by (auto simp: take_sign_def num_text_def body_def c tl_def)
  have w: "takeWhile is_digit body = ip" "dropWhile is_digit body = (if fp = [] then [] else ''.'' @ fp) @ tl"
    unfolding body_def using tl by (auto intro!: split_digits [OF ip])
  have fr: "split_frac ((if fp = [] then [] else ''.'' @ fp) @ tl) = (fp, tl)"
    using tl split_digits [OF fp tl(1)] by (cases tl) (auto simp: split_frac_def)
  have "parse_exp tl = Some (case e of None \<Rightarrow> 0 | Some n \<Rightarrow> n)"
    by (auto simp: tl_def split: option.splits)
  then show ?thesis by (simp add: dec_parse_def clean sgn w fr ne)
qed

lemma read_nat_zeros: "read_nat (replicate k CHR ''0'' @ s) = read_nat s"
proof -
  have z: "digit_val CHR ''0'' = 0" by code_simp
  have "foldl (\<lambda>acc c. 10 * acc + digit_val c) 0 (replicate k CHR ''0'') = 0"
    by (induction k) (auto simp: z)
  then show ?thesis by (simp add: read_nat_def)
qed

lemma is_digit_zero [simp]: "is_digit CHR ''0''"
  by code_simp

lemma read_nat_zero_first: "read_nat (CHR ''0'' # s) = read_nat s"
  using read_nat_zeros [of 1 s] by simp

text \<open>Python reads back what it prints, to the exponent and the sign of a zero.\<close>

lemma dec_parse_str: "dec_parse (dec_str d) = PFinite d"
proof -
  obtain s c e where d: "d = Dec s c e" by (cases d)
  define ds where "ds = show_nat c"
  define left where "left = e + int (length ds)"
  define dot where "dot = (if e \<le> 0 \<and> - 6 < left then left else 1)"
  have ds: "\<forall>c \<in> set ds. is_digit c" "read_nat ds = c" "0 < length ds"
    using show_nat_digits by (auto simp: ds_def)
  have str: "dec_str d = (if s then ''-'' else []) @
      (if dot \<le> 0 then ''0''
       else if int (length ds) \<le> dot then ds @ replicate (nat dot - length ds) CHR ''0''
       else take (nat dot) ds) @
      (if dot \<le> 0 then ''.'' @ replicate (nat (- dot)) CHR ''0'' @ ds
       else if int (length ds) \<le> dot then [] else ''.'' @ drop (nat dot) ds) @
      (if left = dot then [] else signed_exp (left - dot))"
    by (simp add: dec_str_def Let_def d ds_def left_def dot_def)
  let ?x = "if left = dot then None else Some (left - dot)"
  consider (small) "dot \<le> 0" | (whole) "0 < dot" "int (length ds) \<le> dot" | (mid) "0 < dot" "dot < int (length ds)"
    by linarith
  then show ?thesis
  proof cases
    case small
    then have l: "left = dot" by (auto simp: dot_def split: if_splits)
    let ?fp = "replicate (nat (- dot)) CHR ''0'' @ ds"
    have "dec_str d = num_text s ''0'' ?fp ?x"
      using small l ds(3) unfolding str num_text_def by auto
    moreover have "dec_parse (num_text s ''0'' ?fp ?x) = PFinite (Dec s (read_nat (''0'' @ ?fp)) (0 - int (length ?fp)))"
    proof -
      have "\<forall>c \<in> set ?fp. is_digit c" using ds(1) by auto
      then show ?thesis using dec_parse_num_text [of "''0''" ?fp s ?x] l by simp
    qed
    moreover have "read_nat (''0'' @ ?fp) = c" using ds(2) by (simp add: read_nat_zero_first read_nat_zeros)
    moreover have "0 - int (length ?fp) = e" using small l by (simp add: left_def)
    ultimately show ?thesis by (simp add: d)
  next
    case whole
    have "dot \<le> int (length ds)"
    proof (cases "e \<le> 0 \<and> - 6 < left")
      case True
      then have "dot = left" "e \<le> 0" by (simp_all add: dot_def)
      then show ?thesis by (simp add: left_def)
    next
      case False
      then have "dot = 1" unfolding dot_def by (simp only: if_False)
      with ds(3) show ?thesis by linarith
    qed
    then have k: "nat dot - length ds = 0" by simp
    have "dec_str d = num_text s ds [] ?x"
      using whole k unfolding str num_text_def by auto
    moreover have "dec_parse (num_text s ds [] ?x)
        = PFinite (Dec s (read_nat (ds @ [])) ((case ?x of None \<Rightarrow> 0 | Some n \<Rightarrow> n) - int (length ([] :: string))))"
      using ds by (intro dec_parse_num_text) auto
    moreover have "(case ?x of None \<Rightarrow> 0 | Some n \<Rightarrow> n) = e"
    proof -
      have "dot = int (length ds)" using whole \<open>dot \<le> int (length ds)\<close> by linarith
      then show ?thesis by (auto simp: left_def)
    qed
    ultimately show ?thesis by (simp add: d ds(2))
  next
    case mid
    let ?ip = "take (nat dot) ds" and ?fp = "drop (nat dot) ds"
    have ne: "?ip \<noteq> []" "?fp \<noteq> []" using mid by auto
    have dig: "\<forall>c \<in> set ?ip. is_digit c" "\<forall>c \<in> set ?fp. is_digit c"
      using ds(1) by (auto dest: in_set_takeD in_set_dropD)
    have "dec_str d = num_text s ?ip ?fp ?x"
      using mid ne unfolding str num_text_def by auto
    moreover have "dec_parse (num_text s ?ip ?fp ?x)
        = PFinite (Dec s (read_nat (?ip @ ?fp)) ((case ?x of None \<Rightarrow> 0 | Some n \<Rightarrow> n) - int (length ?fp)))"
      using dig ne by (intro dec_parse_num_text) auto
    moreover have "(case ?x of None \<Rightarrow> 0 | Some n \<Rightarrow> n) - int (length ?fp) = e"
      using mid by (auto simp: dot_def left_def split: if_splits)
    ultimately show ?thesis by (simp add: d ds(2))
  qed
qed

lemma dec_str_inject [simp]: "dec_str a = dec_str b \<longleftrightarrow> a = b"
  using dec_parse_str by (metis parsed.inject)

subsection \<open>Evaluation on literals\<close>

text \<open>
  \<open>simp add: dec_eval\<close> computes with decimals whose coefficients are numerals. Every rule
  asks for a constructor, so that nothing is unfolded on variables.
\<close>

named_theorems dec_eval \<open>arithmetic on literal decimals\<close>

lemma ndigits_add:
  assumes "10 ^ k \<le> n"
  shows "ndigits n = k + ndigits (n div 10 ^ k)"
  using assms
proof (induction k arbitrary: n)
  case (Suc k)
  then have "10 \<le> n" by (metis le_trans one_le_numeral one_le_power mult.right_neutral mult_le_mono2 power_Suc)
  moreover from Suc.prems have "10 ^ k \<le> n div 10" by (simp add: less_eq_div_iff_mult_less_eq mult.commute)
  ultimately show ?case
    using Suc.IH [of "n div 10"] by (subst ndigits.simps) (simp add: div_mult2_eq)
qed simp

lemma ndigits_split:
  "ndigits n =
     (if n < 10 then 1
      else if n < 100000 then 1 + ndigits (n div 10)
      else if n < 10000000000 then 5 + ndigits (n div 100000)
      else if n < 10 ^ 20 then 10 + ndigits (n div 10 ^ 10)
      else 20 + ndigits (n div 10 ^ 20))"
proof -
  have "n < 10 \<Longrightarrow> ndigits n = 1" by (subst ndigits.simps) simp
  with ndigits_add [of 1 n] ndigits_add [of 5 n] ndigits_add [of 10 n] ndigits_add [of 20 n]
  show ?thesis by (simp add: not_less)
qed

lemmas ndigits_num [dec_eval] = ndigits_split [of "numeral k" for k]

lemma ndigits_small [dec_eval]: "ndigits 1 = 1" "ndigits (Suc 0) = 1"
  by (simp_all add: ndigits.simps)

lemma drop_zeros_add:
  "e + int k \<le> i \<Longrightarrow> c mod 10 ^ k = 0 \<Longrightarrow> drop_zeros c e i = drop_zeros (c div 10 ^ k) (e + int k) i"
proof (induction k arbitrary: c e)
  case (Suc k)
  from Suc.prems(2) obtain d where c: "c = 10 ^ Suc k * d" by (metis mod_0_imp_dvd dvd_def)
  then have "c mod 10 = 0" "(c div 10) mod 10 ^ k = 0" by auto
  with Suc.prems(1) Suc.IH [of "e + 1" "c div 10"] show ?case
    by (subst drop_zeros.simps) (simp add: div_mult2_eq algebra_simps)
qed simp

lemma drop_zeros_num [dec_eval]:
  "drop_zeros (numeral k) e i =
     (if e + 8 \<le> i \<and> numeral k mod 10 ^ 8 = (0::nat) then drop_zeros (numeral k div 10 ^ 8) (e + 8) i
      else if e < i \<and> numeral k mod 10 = (0::nat) then drop_zeros (numeral k div 10) (e + 1) i
      else (numeral k, e))"
  using drop_zeros_add [of e 8 i "numeral k"] drop_zeros.simps [of "numeral k" e i] by simp

lemma drop_zeros_small [dec_eval]: "drop_zeros 1 e i = (1, e)" "drop_zeros (Suc 0) e i = (1, e)"
  by (subst drop_zeros.simps, simp)+

lemma signed_dec_lit [dec_eval]:
  "signed_dec z 0 e = Dec z 0 e" "signed_dec z 1 e = Dec False 1 e"
  "signed_dec z (numeral k) e = Dec False (numeral k) e"
  "signed_dec z (- 1) e = Dec True 1 e" "signed_dec z (- numeral k) e = Dec True (numeral k) e"
  by (simp_all add: signed_dec_def)

lemma dfix_lit [dec_eval]:
  "dfix (Dec s c e) =
     (if c < 10 ^ 28 then Dec s c e
      else let k = ndigits c - 28; q = half_even c (10 ^ k)
           in if q = 10 ^ 28 then Dec s (10 ^ 27) (e + int k + 1) else Dec s q (e + int k))"
  using ndigits_le_iff [of 28 c] by (simp add: dfix_def prec_def Let_def)

lemma half_even_lit [dec_eval]:
  "half_even (numeral c) (numeral m) =
     (let q = numeral c div numeral m; r = numeral c mod numeral m :: nat
      in if numeral m < 2 * r \<or> (2 * r = numeral m \<and> odd q) then Suc q else q)"
  by (rule half_even_def)

lemma dadd_lit [dec_eval]:
  "dadd (Dec s a e) (Dec t b f) =
     dfix (signed_dec (a = 0 \<and> b = 0 \<and> s \<and> t)
       ((if s then - int a else int a) * 10 ^ nat (e - min e f)
         + (if t then - int b else int b) * 10 ^ nat (f - min e f)) (min e f))"
  by (simp add: dadd_def at_exp_def Let_def)

lemma dsub_lit [dec_eval]: "dsub (Dec s a e) (Dec t b f) = dadd (Dec s a e) (Dec (\<not> t) b f)"
  by (simp add: dsub_def dneg_copy_def)

lemma dmul_lit [dec_eval]: "dmul (Dec s a e) (Dec t b f) = dfix (Dec (s \<noteq> t) (a * b) (e + f))"
  by (simp add: dmul_def)

lemma dabs_lit [dec_eval]: "dabs (Dec s a e) = dfix (Dec False a e)"
  by (simp add: dabs_def)

lemma dneg_copy_lit [dec_eval]: "dneg_copy (Dec s a e) = Dec (\<not> s) a e"
  by (simp add: dneg_copy_def)

lemmas dquot_lit [dec_eval] = dquot_def [of "Dec s a e" "Dec t b f" for s a e t b f,
    unfolded dec.sel prec_def]

lemma ddiv_lit [dec_eval]:
  "ddiv (Dec s a e) (Dec t 0 f) =
     Inl (DivisionByZero (if a = 0 then ''[<class 'decimal.DivisionUndefined'>]''
                          else ''[<class 'decimal.DivisionByZero'>]''))"
  "b \<noteq> 0 \<Longrightarrow> ddiv (Dec s a e) (Dec t b f) = Inr (dquot (Dec s a e) (Dec t b f))"
  by (simp_all add: ddiv_def)

lemmas compare_lit [dec_eval] =
  dle_def [of "Dec s a e" "Dec t b f" for s a e t b f, unfolded at_exp_def scoef_Dec dec.sel]
  dlt_def [of "Dec s a e" "Dec t b f" for s a e t b f, unfolded at_exp_def scoef_Dec dec.sel]
  deq_def [of "Dec s a e" "Dec t b f" for s a e t b f, unfolded at_exp_def scoef_Dec dec.sel]

lemmas exact_lit [dec_eval] =
  exact_sum_def [of "Dec s a e" "Dec t b f" for s a e t b f, unfolded at_exp_def scoef_Dec dec.sel]
  exact_prod_def [of "Dec s a e" "Dec t b f" for s a e t b f, unfolded dec.sel]
  dmax_def [of "Dec s a e" "Dec t b f" for s a e t b f]
  dmin_def [of "Dec s a e" "Dec t b f" for s a e t b f]

lemma int_of_dec_lit [dec_eval]:
  "int_of_dec (Dec s c e) =
     (if s then - int (if 0 \<le> e then c * 10 ^ nat e else c div 10 ^ nat (- e))
      else int (if 0 \<le> e then c * 10 ^ nat e else c div 10 ^ nat (- e)))"
  by (simp add: int_of_dec_def Let_def)

lemma sign_lit [dec_eval]:
  "dval (Dec s c e) \<le> 0 \<longleftrightarrow> s \<or> c = 0" "dval (Dec s c e) < 0 \<longleftrightarrow> s \<and> c \<noteq> 0"
  "0 \<le> dval (Dec s c e) \<longleftrightarrow> \<not> s \<or> c = 0" "0 < dval (Dec s c e) \<longleftrightarrow> \<not> s \<and> c \<noteq> 0"
  "dval (Dec s c e) = 0 \<longleftrightarrow> c = 0"
  using dval_pos_iff [of "Dec s c e"] dval_nonneg_iff [of "Dec s c e"] dval_zero_iff [of "Dec s c e"]
  unfolding dec.sel by linarith+

declare dec_of_int_def [dec_eval] dzero_def [dec_eval] done1_def [dec_eval] Let_def [dec_eval]

section \<open>The exponent limits of the context\<close>

text \<open>
  The module finishes every operation in a context whose exponents are limited: \<open>Emax\<close> 999999 and, with 28 digits,
  \<open>Etop\<close> 999972 and \<open>Etiny\<close> -1000026. A larger result raises \<^verbatim>\<open>decimal.Overflow\<close>, which is an
  \<^verbatim>\<open>ArithmeticError\<close> and here \<open>None\<close>; a smaller one is rounded to a multiple of the smallest number, possibly to zero.
  The operations above leave these limits out. They agree with the ones here as long as the operands stay within
  \<open>10 powi 400000\<close> and its inverse, and differ on operands that a text of nine characters can give.
\<close>

definition emax :: int where "emax = 999999"
definition etop :: int where "etop = 999972"
definition etiny :: int where "etiny = - 1000026"

definition ctx_fix :: "dec \<Rightarrow> dec option" where
  "ctx_fix d =
     (if dcoef d = 0 then Some (Dec (dneg d) 0 (min (max (dexp d) etiny) emax))
      else let least = int (ndigits (dcoef d)) + dexp d - int prec; m = max least etiny
           in if etop < least then None
              else if m \<le> dexp d then Some d
              else let q = half_even (dcoef d) (10 ^ nat (m - dexp d));
                       (c, e) = (if q = 10 ^ prec then (10 ^ (prec - 1), m + 1) else (q, m))
                   in if etop < e then None else Some (Dec (dneg d) c e))"

definition ctx_add :: "dec \<Rightarrow> dec \<Rightarrow> dec option" where
  "ctx_add a b =
     (let e = min (dexp a) (dexp b)
      in ctx_fix (signed_dec (dcoef a = 0 \<and> dcoef b = 0 \<and> dneg a \<and> dneg b) (at_exp e a + at_exp e b) e))"

definition ctx_mul :: "dec \<Rightarrow> dec \<Rightarrow> dec option" where
  "ctx_mul a b = ctx_fix (Dec (dneg a \<noteq> dneg b) (dcoef a * dcoef b) (dexp a + dexp b))"

definition ctx_quot :: "dec \<Rightarrow> dec \<Rightarrow> dec option" where
  "ctx_quot a b =
     (let s = (dneg a \<noteq> dneg b); ideal = dexp a - dexp b
      in if dcoef a = 0 then ctx_fix (Dec s 0 ideal)
         else let shift = int (ndigits (dcoef b)) - int (ndigits (dcoef a)) + int prec + 1;
                  num = dcoef a * 10 ^ nat shift;
                  den = dcoef b * 10 ^ nat (- shift);
                  q = num div den; r = num mod den;
                  e = ideal - shift
              in if r \<noteq> 0 then ctx_fix (Dec s (if q mod 5 = 0 then q + 1 else q) e)
                 else (let (c', e') = drop_zeros q e ideal in ctx_fix (Dec s c' e')))"

definition moderate :: "dec \<Rightarrow> bool" where
  "moderate d = (- 400000 \<le> dexp d \<and> dexp d + int (ndigits (dcoef d)) \<le> 400000)"

lemma ctx_fix_within:
  assumes "etiny \<le> dexp d" "int (ndigits (dcoef d)) + dexp d \<le> emax"
  shows "ctx_fix d = Some (dfix d)"
proof (cases "dcoef d = 0")
  case True
  have "dexp d \<le> emax" using assms(2) ndigits_pos [of "dcoef d"] by simp
  with assms(1) True show ?thesis by (cases d) (simp add: ctx_fix_def dfix_def prec_def ndigits.simps)
next
  case False
  show ?thesis
  proof (cases "ndigits (dcoef d) \<le> prec")
    case True
    with False assms show ?thesis by (simp add: ctx_fix_def dfix_def Let_def etop_def emax_def prec_def)
  next
    case big: False
    define k where "k = ndigits (dcoef d) - prec"
    have m: "max (int (ndigits (dcoef d)) + dexp d - int prec) etiny = dexp d + int k" "nat (dexp d + int k - dexp d) = k"
      "\<not> dexp d + int k \<le> dexp d" "\<not> etop < int (ndigits (dcoef d)) + dexp d - int prec" "\<not> etop < dexp d + int k" "\<not> etop < dexp d + int k + 1"
      using big assms by (simp_all add: k_def etop_def emax_def prec_def)
    have "k \<noteq> 0" using big by (simp add: k_def)
    then show ?thesis using False big m(4-6) unfolding ctx_fix_def dfix_def Let_def k_def [symmetric] m(1-2)
      by (simp add: m(3))
  qed
qed

lemma digits_below: "c < 10 ^ n \<Longrightarrow> 0 < n \<Longrightarrow> ndigits c \<le> n"
  using ndigits_le_iff by blast

lemma at_exp_below:
  assumes "moderate a" "e \<le> dexp a"
  shows "nat \<bar>at_exp e a\<bar> < 10 ^ nat (400000 - e)"
proof -
  have "dcoef a < 10 ^ ndigits (dcoef a)" by (rule ndigits_less)
  moreover have "nat \<bar>at_exp e a\<bar> = dcoef a * 10 ^ nat (dexp a - e)"
    by (simp add: at_exp_def scoef_def abs_mult nat_mult_distrib nat_power_eq)
  ultimately have "nat \<bar>at_exp e a\<bar> < 10 ^ ndigits (dcoef a) * 10 ^ nat (dexp a - e)" by simp
  also have "\<dots> \<le> 10 ^ nat (400000 - e)"
    unfolding power_add [symmetric] using assms by (intro power_increasing) (auto simp: moderate_def)
  finally show ?thesis .
qed

lemma ctx_add_moderate:
  assumes "moderate a" "moderate b"
  shows "ctx_add a b = Some (dadd a b)"
proof -
  define e where "e = min (dexp a) (dexp b)"
  have e: "- 400000 \<le> e" "e < 400000" using assms ndigits_pos [of "dcoef a"] ndigits_pos [of "dcoef b"] unfolding e_def moderate_def by linarith+
  have "nat \<bar>at_exp e a + at_exp e b\<bar> \<le> nat \<bar>at_exp e a\<bar> + nat \<bar>at_exp e b\<bar>" by linarith
  also have "\<dots> < 10 ^ nat (400000 - e) + 10 ^ nat (400000 - e)"
    by (intro add_strict_mono at_exp_below assms) (simp_all add: e_def)
  also have "\<dots> \<le> 10 ^ Suc (nat (400000 - e))" by simp
  finally have "ndigits (nat \<bar>at_exp e a + at_exp e b\<bar>) \<le> Suc (nat (400000 - e))" by (intro digits_below) simp_all
  then have "int (ndigits (nat \<bar>at_exp e a + at_exp e b\<bar>)) + e \<le> emax" using e by (simp add: emax_def)
  then show ?thesis
    unfolding ctx_add_def dadd_def Let_def e_def [symmetric]
    using e by (intro ctx_fix_within) (simp_all add: signed_dec_def etiny_def)
qed

lemma digits_mult: "ndigits (m * n) \<le> ndigits m + ndigits n"
proof -
  have "m < 10 ^ ndigits m" "n < 10 ^ ndigits n" by (rule ndigits_less)+
  then have "m * n < 10 ^ (ndigits m + ndigits n)" by (simp add: power_add mult_strict_mono)
  then show ?thesis using ndigits_pos [of m] by (intro digits_below) simp_all
qed

lemma ctx_mul_moderate: "moderate a \<Longrightarrow> moderate b \<Longrightarrow> ctx_mul a b = Some (dmul a b)"
  unfolding ctx_mul_def dmul_def using digits_mult [of "dcoef a" "dcoef b"]
  by (intro ctx_fix_within) (auto simp: moderate_def etiny_def emax_def)

lemma drop_zeros_bounds: "drop_zeros c e i = (c', e') \<Longrightarrow> c' \<le> c \<and> e \<le> e' \<and> e' \<le> max e i"
proof (induction c e i rule: drop_zeros.induct)
  case (1 c e i)
  show ?case
  proof (cases "e < i \<and> c mod 10 = 0")
    case True
    with 1 have "c' \<le> c div 10 \<and> e + 1 \<le> e' \<and> e' \<le> max (e + 1) i" by (simp add: drop_zeros.simps [of c e i])
    with True show ?thesis by (auto intro: order_trans [of c' "c div 10" c])
  next
    case False
    with 1(2) show ?thesis by (auto simp: drop_zeros.simps [of c e i])
  qed
qed

text \<open>The quotient that division computes has at most 30 digits.\<close>

lemma quotient_digits:
  fixes a b :: nat
  assumes "0 < b"
  defines "shift \<equiv> int (ndigits b) - int (ndigits a) + int prec + 1"
  shows "a * 10 ^ nat shift div (b * 10 ^ nat (- shift)) < 10 ^ 30"
proof -
  let ?s = "nat shift" and ?t = "nat (- shift)"
  have e: "ndigits a + ?s = 30 + (ndigits b - 1) + ?t"
    using ndigits_pos [of b] unfolding shift_def prec_def by linarith
  have "a * 10 ^ ?s < 10 ^ ndigits a * 10 ^ ?s" using ndigits_less by simp
  also have "\<dots> = 10 ^ 30 * (10 ^ (ndigits b - 1) * 10 ^ ?t)" unfolding power_add [symmetric] e by (simp add: add.assoc)
  also have "\<dots> \<le> 10 ^ 30 * (b * 10 ^ ?t)" using ndigits_le [OF assms(1)] by simp
  finally show ?thesis by (simp add: less_mult_imp_div_less)
qed

lemma ctx_quot_moderate:
  assumes "moderate a" "moderate b" "dcoef b \<noteq> 0"
  shows "ctx_quot a b = Some (dquot a b)"
proof -
  define shift where "shift = int (ndigits (dcoef b)) - int (ndigits (dcoef a)) + int prec + 1"
  define ideal where "ideal = dexp a - dexp b"
  define q where "q = dcoef a * 10 ^ nat shift div (dcoef b * 10 ^ nat (- shift))"
  note pos = ndigits_pos [of "dcoef a"] ndigits_pos [of "dcoef b"]
  have range: "- 800000 \<le> ideal" "ideal \<le> 800000" "- 800100 \<le> ideal - shift" "ideal - shift \<le> 800000"
    using assms(1,2) pos by (simp_all add: ideal_def shift_def moderate_def prec_def)
  have q: "q < 10 ^ 30" unfolding q_def shift_def by (rule quotient_digits) (use assms(3) in simp)
  have fx: "ctx_fix (Dec s c e) = Some (dfix (Dec s c e))" if "c \<le> 10 ^ 30" "- 800100 \<le> e" "e \<le> 800000" for s c e
  proof -
    have "c < 10 ^ 31" using that(1) by (rule le_less_trans) simp
    then have "ndigits c \<le> 31" by (intro digits_below) simp_all
    with that show ?thesis by (intro ctx_fix_within) (simp_all add: etiny_def emax_def)
  qed
  obtain c e where d: "drop_zeros q (ideal - shift) ideal = (c, e)" by (cases "drop_zeros q (ideal - shift) ideal")
  note b = drop_zeros_bounds [OF d]
  have "ctx_fix (Dec s 0 ideal) = Some (dfix (Dec s 0 ideal))" for s using range by (intro fx) simp_all
  moreover have "ctx_fix (Dec s (if q mod 5 = 0 then q + 1 else q) (ideal - shift)) = Some (dfix (Dec s (if q mod 5 = 0 then q + 1 else q) (ideal - shift)))" for s
    using range q by (intro fx) auto
  moreover have "ctx_fix (Dec s c e) = Some (dfix (Dec s c e))" for s using range b q by (intro fx) auto
  ultimately show ?thesis
    unfolding ctx_quot_def dquot_def Let_def ideal_def [symmetric] shift_def [symmetric] q_def [symmetric] d prod.case by simp
qed

text \<open>A price that \<open>as_decimal\<close> accepts, and what the limits do to it: ten units of it overflow, and the units that a small
  amount buys at it underflow to zero.\<close>

lemma limits_reached:
  "dec_parse ''1E+999999'' = PFinite (Dec False 1 999999)" "ctx_mul (dec_of_int 10) (Dec False 1 999999) = None"
  "ctx_quot (Dec False 1 (- 99)) (Dec False 1 999999) = Some (Dec False 0 (- 1000026))"
  by code_simp+

end
