(* ===== verification/PyValue.thy ===== *)
theory PyValue
  imports PyDecimal
begin

section \<open>Python values, floats and JSON\<close>

text \<open>
  The dynamically typed values the code passes around: what \<^verbatim>\<open>json.loads\<close> returns, what
  goes into \<^verbatim>\<open>json.dumps\<close>, and the \<^verbatim>\<open>object\<close> arguments of the validators. A
  dictionary is the list of its items in insertion order, with string keys, each key once.
\<close>

subsection \<open>Binary64 floats\<close>

text \<open>
  A finite float is \<open>m * 2 ^ e\<close> with a sign; \<open>fl_round\<close> is the correctly rounded
  quotient of two naturals, half to even, with gradual underflow and overflow to infinity. All
  results of the operations are in the form \<open>fl_round\<close> gives (zero is \<open>Flt s 0 0\<close>).
\<close>

datatype pyfloat = Flt bool nat int | FInf bool | FNaN

fun nbits :: "nat \<Rightarrow> nat" where
  "nbits n = (if n = 0 then 0 else Suc (nbits (n div 2)))"

declare nbits.simps [simp del]

definition fl_scale :: "nat \<Rightarrow> nat \<Rightarrow> int \<Rightarrow> nat \<times> nat" where
  "fl_scale num den e = (num * 2 ^ nat (- e), den * 2 ^ nat e)"

definition fl_exp :: "nat \<Rightarrow> nat \<Rightarrow> int" where
  "fl_exp num den =
     (let e0 = int (nbits num) - int (nbits den) - 53;
          (n, d) = fl_scale num den e0
      in max (- 1074) (if 2 ^ 53 * d \<le> n then e0 + 1 else e0))"

definition fl_round :: "bool \<Rightarrow> nat \<Rightarrow> nat \<Rightarrow> pyfloat" where
  "fl_round s num den =
     (if num = 0 then Flt s 0 0
      else let e = fl_exp num den;
               (n, d) = fl_scale num den e;
               q = half_even n d;
               (q', e') = (if q = 2 ^ 53 then (2 ^ 52, e + 1) else (q, e))
           in if q' = 0 then Flt s 0 0 else if 971 < e' then FInf s else Flt s q' e')"

definition fl_int :: "bool \<Rightarrow> nat \<Rightarrow> int" where
  "fl_int s m = (if s then - int m else int m)"

text \<open>The sum of two finite floats, exactly, at their smaller exponent.\<close>

definition fl_of_scaled :: "bool \<Rightarrow> int \<Rightarrow> int \<Rightarrow> pyfloat" where
  "fl_of_scaled zero_sign x e =
     (if x = 0 then Flt zero_sign 0 0 else fl_round (x < 0) (nat \<bar>x\<bar> * 2 ^ nat e) (2 ^ nat (- e)))"

fun fneg :: "pyfloat \<Rightarrow> pyfloat" where
  "fneg (Flt s m e) = Flt (\<not> s) m e"
| "fneg (FInf s) = FInf (\<not> s)"
| "fneg FNaN = FNaN"

fun fabs :: "pyfloat \<Rightarrow> pyfloat" where
  "fabs (Flt s m e) = Flt False m e"
| "fabs (FInf s) = FInf False"
| "fabs FNaN = FNaN"

fun fadd :: "pyfloat \<Rightarrow> pyfloat \<Rightarrow> pyfloat" where
  "fadd (Flt s m e) (Flt t n f) =
     (let g = min e f
      in fl_of_scaled (s \<and> t) (fl_int s m * 2 ^ nat (e - g) + fl_int t n * 2 ^ nat (f - g)) g)"
| "fadd (FInf s) (FInf t) = (if s = t then FInf s else FNaN)"
| "fadd FNaN y = FNaN"
| "fadd x FNaN = FNaN"
| "fadd (FInf s) y = FInf s"
| "fadd x (FInf t) = FInf t"

definition fsub :: "pyfloat \<Rightarrow> pyfloat \<Rightarrow> pyfloat" where
  "fsub x y = fadd x (fneg y)"

fun fmul :: "pyfloat \<Rightarrow> pyfloat \<Rightarrow> pyfloat" where
  "fmul (Flt s m e) (Flt t n f) =
     fl_round (s \<noteq> t) (m * n * 2 ^ nat (e + f)) (2 ^ nat (- (e + f)))"
| "fmul FNaN y = FNaN"
| "fmul x FNaN = FNaN"
| "fmul (FInf s) (FInf t) = FInf (s \<noteq> t)"
| "fmul (FInf s) (Flt t n f) = (if n = 0 then FNaN else FInf (s \<noteq> t))"
| "fmul (Flt s m e) (FInf t) = (if m = 0 then FNaN else FInf (s \<noteq> t))"

text \<open>Comparisons; every comparison with a NaN is false.\<close>

fun flt :: "pyfloat \<Rightarrow> pyfloat \<Rightarrow> bool" where
  "flt (Flt s m e) (Flt t n f) =
     (let g = min e f in fl_int s m * 2 ^ nat (e - g) < fl_int t n * 2 ^ nat (f - g))"
| "flt FNaN y = False"
| "flt x FNaN = False"
| "flt (FInf s) (FInf t) = (s \<and> \<not> t)"
| "flt (FInf s) (Flt t n f) = s"
| "flt (Flt s m e) (FInf t) = (\<not> t)"

fun feq :: "pyfloat \<Rightarrow> pyfloat \<Rightarrow> bool" where
  "feq (Flt s m e) (Flt t n f) =
     (let g = min e f in fl_int s m * 2 ^ nat (e - g) = fl_int t n * 2 ^ nat (f - g))"
| "feq (FInf s) (FInf t) = (s = t)"
| "feq x y = False"

definition fle :: "pyfloat \<Rightarrow> pyfloat \<Rightarrow> bool" where
  "fle x y = (flt x y \<or> feq x y)"

fun is_finite :: "pyfloat \<Rightarrow> bool" where
  "is_finite (Flt s m e) = True"
| "is_finite x = False"

definition fl_of_int :: "int \<Rightarrow> pyfloat" where
  "fl_of_int i = fl_round (i < 0) (nat \<bar>i\<bar>) 1"

text \<open>A finite decimal as the nearest float: \<^verbatim>\<open>float(text)\<close> for a numeric text.\<close>

definition fl_of_dec :: "dec \<Rightarrow> pyfloat" where
  "fl_of_dec d = fl_round (dneg d) (dcoef d * 10 ^ nat (dexp d)) (10 ^ nat (- dexp d))"

text \<open>
  \<^verbatim>\<open>repr\<close> of a float: the shortest digits that read back as the same float, the nearest
  such when there are several; point notation for decimal exponents from -4 to 15.
\<close>

definition dec_exp10 :: "nat \<Rightarrow> nat \<Rightarrow> int" where
  "dec_exp10 num den =
     (let k = int (ndigits num) - int (ndigits den)
      in if den * 10 ^ nat k \<le> num * 10 ^ nat (- k) then k + 1 else k)"

fun short_digits :: "nat \<Rightarrow> nat \<Rightarrow> nat \<Rightarrow> nat \<Rightarrow> int \<Rightarrow> pyfloat \<Rightarrow> nat \<times> int" where
  "short_digits 0 n num den k x = (half_even (num * 10 ^ nat (17 - k)) (den * 10 ^ nat (k - 17)), k - 17)"
| "short_digits (Suc fuel) n num den k x =
     (let p = k - int n;
          N = num * 10 ^ nat (- p); D = den * 10 ^ nat p;
          near = half_even N D; down = N div D; other = (if near = down then down + 1 else down);
          back = (\<lambda>c. feq (fl_of_dec (Dec False c p)) x)
      in if back near then (near, p) else if back other then (other, p)
         else short_digits fuel (Suc n) num den k x)"

fun float_repr :: "pyfloat \<Rightarrow> string" where
  "float_repr FNaN = ''nan''"
| "float_repr (FInf s) = (if s then ''-inf'' else ''inf'')"
| "float_repr (Flt s m e) =
     (if s then ''-'' else []) @
     (if m = 0 then ''0.0''
      else let num = m * 2 ^ nat e; den = 2 ^ nat (- e);
               k = dec_exp10 num den;
               (c0, p0) = short_digits 16 1 num den k (Flt False m e);
               (c, p) = drop_zeros c0 p0 (p0 + 400);
               ds = show_nat c; pt = p + int (length ds)
           in if - 4 < pt \<and> pt \<le> 16
              then (if pt \<le> 0 then ''0.'' @ replicate (nat (- pt)) CHR ''0'' @ ds
                    else if int (length ds) \<le> pt
                      then ds @ replicate (nat pt - length ds) CHR ''0'' @ ''.0''
                      else take (nat pt) ds @ ''.'' @ drop (nat pt) ds)
              else take 1 ds @ (if length ds = 1 then [] else ''.'' @ drop 1 ds)
                     @ (if pt - 1 < 0 then ''e-'' else ''e+'')
                     @ (if \<bar>pt - 1\<bar> < 10 then ''0'' else []) @ show_nat (nat \<bar>pt - 1\<bar>))"

text \<open>\<^verbatim>\<open>float(text)\<close>: underscores only between digits, no signalling or payload NaNs.\<close>

fun underscores_ok :: "string \<Rightarrow> bool" where
  "underscores_ok (a # b # c # s) =
     ((b = CHR ''_'' \<longrightarrow> is_digit a \<and> is_digit c) \<and> underscores_ok (b # c # s))"
| "underscores_ok s = True"

definition float_of_text :: "string \<Rightarrow> pyfloat option" where
  "float_of_text text =
     (let s = strip text; (neg, body) = take_sign s; b = lower body
      in if b = ''nan'' then Some FNaN
         else if b = ''inf'' \<or> b = ''infinity'' then Some (FInf neg)
         else if s = [] \<or> hd s = CHR ''_'' \<or> last s = CHR ''_'' \<or> \<not> underscores_ok s then None
         else case dec_parse s of PFinite d \<Rightarrow> Some (fl_of_dec d) | _ \<Rightarrow> None)"

subsection \<open>Values\<close>

datatype pyval =
    VNone
  | VBool bool
  | VInt int
  | VFloat pyfloat
  | VStr string
  | VDec dec
  | VList "pyval list"
  | VDict "(string \<times> pyval) list"

type_synonym pydict = "(string \<times> pyval) list"

text \<open>\<^verbatim>\<open>d.get(k)\<close>, \<^verbatim>\<open>d.get(k, default)\<close>, \<^verbatim>\<open>d[k]\<close>, \<^verbatim>\<open>d[k] = v\<close>, \<^verbatim>\<open>d.pop(k, None)\<close>.\<close>

definition dget :: "pydict \<Rightarrow> string \<Rightarrow> pyval" where
  "dget d k = (case map_of d k of None \<Rightarrow> VNone | Some v \<Rightarrow> v)"

definition dget_or :: "pydict \<Rightarrow> string \<Rightarrow> pyval \<Rightarrow> pyval" where
  "dget_or d k v0 = (case map_of d k of None \<Rightarrow> v0 | Some v \<Rightarrow> v)"

definition dindex :: "pydict \<Rightarrow> string \<Rightarrow> pyval res" where
  "dindex d k = (case map_of d k of None \<Rightarrow> Inl (KeyError (CHR 0x27 # k @ [CHR 0x27])) | Some v \<Rightarrow> Inr v)"

fun dset :: "pydict \<Rightarrow> string \<Rightarrow> pyval \<Rightarrow> pydict" where
  "dset [] k v = [(k, v)]"
| "dset ((k', v') # d) k v = (if k' = k then (k, v) # d else (k', v') # dset d k v)"

definition dpop :: "pydict \<Rightarrow> string \<Rightarrow> pydict" where
  "dpop d k = filter (\<lambda>(k', v). k' \<noteq> k) d"

definition dkeys :: "pydict \<Rightarrow> string list" where
  "dkeys d = map fst d"

definition dupdate :: "pydict \<Rightarrow> pydict \<Rightarrow> pydict" where
  "dupdate d e = foldl (\<lambda>acc (k, v). dset acc k v) d e"

text \<open>\<^verbatim>\<open>set(d) == {k1, ..., kn}\<close>.\<close>

definition keys_are :: "pydict \<Rightarrow> string list \<Rightarrow> bool" where
  "keys_are d ks = (list_all (\<lambda>k. k \<in> set ks) (dkeys d) \<and> list_all (\<lambda>k. k \<in> set (dkeys d)) ks)"

fun is_dict :: "pyval \<Rightarrow> bool" where
  "is_dict (VDict d) = True"
| "is_dict v = False"

fun is_str :: "pyval \<Rightarrow> bool" where
  "is_str (VStr s) = True"
| "is_str v = False"

text \<open>\<^verbatim>\<open>x if isinstance(x, dict) else {}\<close>.\<close>

fun as_dict :: "pyval \<Rightarrow> pydict" where
  "as_dict (VDict d) = d"
| "as_dict v = []"

fun truthy :: "pyval \<Rightarrow> bool" where
  "truthy VNone = False"
| "truthy (VBool b) = b"
| "truthy (VInt i) = (i \<noteq> 0)"
| "truthy (VFloat x) = (\<not> feq x (Flt False 0 0))"
| "truthy (VStr s) = (s \<noteq> [])"
| "truthy (VDec d) = (dcoef d \<noteq> 0)"
| "truthy (VList xs) = (xs \<noteq> [])"
| "truthy (VDict d) = (d \<noteq> [])"

text \<open>\<^verbatim>\<open>a or b\<close>.\<close>

definition por :: "pyval \<Rightarrow> pyval \<Rightarrow> pyval" where
  "por a b = (if truthy a then a else b)"

subsection \<open>str and repr\<close>

definition hex_digit :: "nat \<Rightarrow> char" where
  "hex_digit n = ''0123456789abcdef'' ! n"

definition hex2 :: "nat \<Rightarrow> string" where
  "hex2 n = [hex_digit (n div 16 mod 16), hex_digit (n mod 16)]"

text \<open>
  \<^verbatim>\<open>repr\<close> of a string: single quotes unless the text has a single and no double quote;
  control characters escaped, bytes above 127 (printable text, in UTF-8) unchanged.
\<close>

definition repr_char :: "char \<Rightarrow> char \<Rightarrow> string" where
  "repr_char q c =
     (let n = of_char c :: nat
      in if c = q \<or> n = 92 then [CHR 0x5C, c]
         else if n = 9 then [CHR 0x5C, CHR ''t''] else if n = 10 then [CHR 0x5C, CHR ''n'']
         else if n = 13 then [CHR 0x5C, CHR ''r'']
         else if n < 32 \<or> n = 127 then CHR 0x5C # ''x'' @ hex2 n
         else [c])"

definition str_repr :: "string \<Rightarrow> string" where
  "str_repr s =
     (let q = (if CHR 0x27 \<in> set s \<and> CHR 0x22 \<notin> set s then CHR 0x22 else CHR 0x27)
      in q # concat (map (repr_char q) s) @ [q])"

fun py_repr :: "pyval \<Rightarrow> string" where
  "py_repr VNone = ''None''"
| "py_repr (VBool b) = (if b then ''True'' else ''False'')"
| "py_repr (VInt i) = show_int i"
| "py_repr (VFloat x) = float_repr x"
| "py_repr (VStr s) = str_repr s"
| "py_repr (VDec d) = ''Decimal('' @ str_repr (dec_str d) @ '')''"
| "py_repr (VList xs) = ''['' @ join '', '' (map py_repr xs) @ '']''"
| "py_repr (VDict d) = ''{'' @ join '', '' (map (\<lambda>(k, v). str_repr k @ '': '' @ py_repr v) d) @ ''}''"

fun py_str :: "pyval \<Rightarrow> string" where
  "py_str (VStr s) = s"
| "py_str (VDec d) = dec_str d"
| "py_str v = py_repr v"

subsection \<open>Equality\<close>

text \<open>Numbers compare by value across \<^verbatim>\<open>bool\<close>, \<^verbatim>\<open>int\<close>, \<^verbatim>\<open>float\<close> and \<^verbatim>\<open>Decimal\<close>.\<close>

datatype pynum =
    NFin bool nat nat nat \<comment> \<open>sign, coefficient, numerator and denominator of the scale\<close>
  | NInf bool
  | NNan
  | NoNum

fun num_of :: "pyval \<Rightarrow> pynum" where
  "num_of (VBool b) = NFin False (if b then 1 else 0) 1 1"
| "num_of (VInt i) = NFin (i < 0) (nat \<bar>i\<bar>) 1 1"
| "num_of (VFloat (Flt s m e)) = NFin s m (2 ^ nat e) (2 ^ nat (- e))"
| "num_of (VFloat (FInf s)) = NInf s"
| "num_of (VFloat FNaN) = NNan"
| "num_of (VDec d) = NFin (dneg d) (dcoef d) (10 ^ nat (dexp d)) (10 ^ nat (- dexp d))"
| "num_of v = NoNum"

fun num_eq :: "pynum \<Rightarrow> pynum \<Rightarrow> bool" where
  "num_eq (NFin s m a b) (NFin t n c d) = (m * a * d = n * c * b \<and> (s = t \<or> m = 0))"
| "num_eq (NInf s) (NInf t) = (s = t)"
| "num_eq x y = False"

function py_eq :: "pyval \<Rightarrow> pyval \<Rightarrow> bool" where
  "py_eq v w =
     (case v of
        VNone \<Rightarrow> w = VNone
      | VStr s \<Rightarrow> w = VStr s
      | VList xs \<Rightarrow>
          (case w of
             VList ys \<Rightarrow> length xs = length ys \<and> list_all (\<lambda>(x, y). py_eq x y) (zip xs ys)
           | _ \<Rightarrow> False)
      | VDict d \<Rightarrow>
          (case w of
             VDict e \<Rightarrow> length d = length e
               \<and> list_all (\<lambda>(k, u). case map_of e k of None \<Rightarrow> False | Some u' \<Rightarrow> py_eq u u') d
           | _ \<Rightarrow> False)
      | _ \<Rightarrow> num_eq (num_of v) (num_of w))"
  by pat_completeness auto
termination
proof (relation "measure (\<lambda>(v, w). size v)", goal_cases)
  case (2 v w xs ys z a b)
  then have "a \<in> set xs" by (metis set_zip_leftD)
  then have "size a \<le> size_list size xs" by (simp add: size_list_estimation')
  with 2 show ?case by auto
next
  case (3 v w d e z k u u')
  then have "(k, u) \<in> set d" by simp
  then have "size u \<le> size_list (size_prod (\<lambda>x. 0) size) d"
    by (rule size_list_estimation') simp
  with 3 show ?case by simp
qed simp

declare py_eq.simps [simp del]

subsection \<open>Canonical JSON\<close>

text \<open>
  \<^verbatim>\<open>json.dumps(v, sort_keys=True, separators=(",", ":"))\<close>. The flag \<open>asc\<close> is
  \<^verbatim>\<open>ensure_ascii\<close>: the code uses \<^verbatim>\<open>False\<close> everywhere but in
  \<^verbatim>\<open>paper_control_state.py\<close> and in \<^verbatim>\<open>event_sourcing.py\<close>, whose \<^verbatim>\<open>default=str\<close> renders a \<^verbatim>\<open>Decimal\<close> as its text.
\<close>

definition esc_char :: "char \<Rightarrow> string" where
  "esc_char c =
     (let n = of_char c :: nat
      in if n = 34 \<or> n = 92 then [CHR 0x5C, c]
         else if n = 8 then [CHR 0x5C, CHR ''b''] else if n = 9 then [CHR 0x5C, CHR ''t'']
         else if n = 10 then [CHR 0x5C, CHR ''n''] else if n = 12 then [CHR 0x5C, CHR ''f'']
         else if n = 13 then [CHR 0x5C, CHR ''r'']
         else if n < 32 then CHR 0x5C # ''u00'' @ hex2 n
         else [c])"

text \<open>With \<^verbatim>\<open>ensure_ascii\<close>: code points above 127 as \<open>\u\<close> escapes, in surrogate pairs above 65535.\<close>

definition u_escape :: "nat \<Rightarrow> string" where
  "u_escape n = CHR 0x5C # ''u'' @ hex2 (n div 256) @ hex2 n"

fun ascii_text :: "string \<Rightarrow> string" where
  "ascii_text [] = []"
| "ascii_text (c # s) =
     (let n = of_char c :: nat; byte = (\<lambda>i. (case drop i s of [] \<Rightarrow> 0 | x # _ \<Rightarrow> of_char x) mod 64 :: nat)
      in if n < 128 then (if n = 127 then u_escape n else esc_char c) @ ascii_text s
         else if n < 192 then ascii_text s
         else if n < 224 then u_escape ((n mod 32) * 64 + byte 0) @ ascii_text s
         else if n < 240 then u_escape ((n mod 16) * 4096 + byte 0 * 64 + byte 1) @ ascii_text s
         else (let p = (n mod 8) * 262144 + byte 0 * 4096 + byte 1 * 64 + byte 2 - 65536
               in u_escape (55296 + p div 1024) @ u_escape (56320 + p mod 1024) @ ascii_text s))"

definition jstr :: "bool \<Rightarrow> string \<Rightarrow> string" where
  "jstr asc s = CHR 0x22 # (if asc then ascii_text s else concat (map esc_char s)) @ [CHR 0x22]"

fun json_float :: "pyfloat \<Rightarrow> string" where
  "json_float FNaN = ''NaN''"
| "json_float (FInf s) = (if s then ''-Infinity'' else ''Infinity'')"
| "json_float x = float_repr x"

fun canon :: "bool \<Rightarrow> pyval \<Rightarrow> string" where
  "canon asc VNone = ''null''"
| "canon asc (VBool b) = (if b then ''true'' else ''false'')"
| "canon asc (VInt i) = show_int i"
| "canon asc (VFloat x) = json_float x"
| "canon asc (VStr s) = jstr asc s"
| "canon asc (VDec d) = jstr asc (dec_str d)"
| "canon asc (VList xs) = ''['' @ join '','' (map (canon asc) xs) @ '']''"
| "canon asc (VDict d) =
     ''{'' @ join '',''
       (map snd (sort_key fst (map (\<lambda>(k, v). (k, jstr asc k @ '':'' @ canon asc v)) d))) @ ''}''"

text \<open>
  What \<^verbatim>\<open>allow_nan=False\<close> without a \<^verbatim>\<open>default\<close> refuses: NaN and infinities
  (\<^verbatim>\<open>ValueError\<close>), decimals (\<^verbatim>\<open>TypeError\<close>); the first in the order of the output.
\<close>

fun first_err :: "exc option list \<Rightarrow> exc option" where
  "first_err [] = None"
| "first_err (Some e # xs) = Some e"
| "first_err (None # xs) = first_err xs"

fun json_err :: "pyval \<Rightarrow> exc option" where
  "json_err (VFloat x) =
     (if is_finite x then None else Some (ValueError ''Out of range float values are not JSON compliant''))"
| "json_err (VDec d) = Some (TypeError ''Object of type Decimal is not JSON serializable'')"
| "json_err (VList xs) = first_err (map json_err xs)"
| "json_err (VDict d) = first_err (map snd (sort_key fst (map (\<lambda>(k, v). (k, json_err v)) d)))"
| "json_err v = None"

definition dumps :: "pyval \<Rightarrow> string res" where
  "dumps v = (case json_err v of Some e \<Rightarrow> Inl e | None \<Rightarrow> Inr (canon False v))"

end
