(* ===== verification/PyDatetime.thy ===== *)
theory PyDatetime
  imports PyValue
begin

section \<open>datetime.fromisoformat and isoformat\<close>

text \<open>
  The part of Python 3.11's \<^verbatim>\<open>datetime\<close> the code uses: reading an ISO-8601 text,
  conversion to UTC, and the canonical text with microseconds. An instant is a number of
  microseconds since the start of year 1; a parsed datetime is its local reading and its
  offset from UTC, when it has one.
\<close>

record pydatetime =
  dt_local :: int
  dt_offset :: "int option"

definition us_per_day :: int where "us_per_day = 86400000000"

definition is_leap :: "int \<Rightarrow> bool" where
  "is_leap y = (y mod 4 = 0 \<and> (y mod 100 \<noteq> 0 \<or> y mod 400 = 0))"

definition days_in_month :: "int \<Rightarrow> int \<Rightarrow> int" where
  "days_in_month y m =
     (if m = 2 then (if is_leap y then 29 else 28)
      else if m = 4 \<or> m = 6 \<or> m = 9 \<or> m = 11 then 30 else 31)"

definition days_before_year :: "int \<Rightarrow> int" where
  "days_before_year y = (let z = y - 1 in z * 365 + z div 4 - z div 100 + z div 400)"

fun days_before_month :: "int \<Rightarrow> nat \<Rightarrow> int" where
  "days_before_month y 0 = 0"
| "days_before_month y (Suc 0) = 0"
| "days_before_month y (Suc (Suc m)) = days_before_month y (Suc m) + days_in_month y (int (Suc m))"

text \<open>The proleptic Gregorian ordinal; 1 January of year 1 is day 1.\<close>

definition ymd2ord :: "int \<Rightarrow> int \<Rightarrow> int \<Rightarrow> int" where
  "ymd2ord y m d = days_before_year y + days_before_month y (nat m) + d"

fun month_day :: "nat \<Rightarrow> int \<Rightarrow> int \<Rightarrow> int \<Rightarrow> int \<times> int" where
  "month_day 0 y m n = (m, n + 1)"
| "month_day (Suc fuel) y m n =
     (if n < days_in_month y m then (m, n + 1) else month_day fuel y (m + 1) (n - days_in_month y m))"

definition ord2ymd :: "int \<Rightarrow> int \<times> int \<times> int" where
  "ord2ymd n0 =
     (let n = n0 - 1; n400 = n div 146097; n = n mod 146097;
          n100 = n div 36524; n = n mod 36524;
          n4 = n div 1461; n = n mod 1461;
          n1 = n div 365; n = n mod 365;
          y = n400 * 400 + 1 + n100 * 100 + n4 * 4 + n1
      in if n1 = 4 \<or> n100 = 4 then (y - 1, 12, 31)
         else (let (m, d) = month_day 11 y 1 n in (y, m, d)))"

subsection \<open>Reading\<close>

definition two_digits :: "string \<Rightarrow> int option" where
  "two_digits s = (if length s = 2 \<and> list_all is_digit s then Some (int (read_nat s)) else None)"

definition digit_run :: "nat \<Rightarrow> string \<Rightarrow> int option" where
  "digit_run k s = (if length s = k \<and> list_all is_digit s then Some (int (read_nat s)) else None)"

fun run_of_digits :: "string \<Rightarrow> nat \<Rightarrow> nat" where
  "run_of_digits s i = i + length (takeWhile is_digit (drop i s))"

definition char_at :: "string \<Rightarrow> nat \<Rightarrow> char option" where
  "char_at s i = (if i < length s then Some (s ! i) else None)"

text \<open>Where the date ends: \<^verbatim>\<open>_find_isoformat_datetime_separator\<close>; \<open>None\<close> for an invalid text.\<close>

definition separator_location :: "string \<Rightarrow> nat option" where
  "separator_location s =
     (if length s < 7 then None
      else if length s = 7 then Some 7
      else if s ! 4 = CHR ''-'' then
        (if s ! 5 = CHR ''W'' then
           (if char_at s 8 = Some CHR ''-'' then
              (if length s = 9 then None
               else case char_at s 10 of
                      Some c \<Rightarrow> Some (if is_digit c then 8 else 10)
                    | None \<Rightarrow> Some 10)
            else Some 8)
         else Some 10)
      else if s ! 4 = CHR ''W'' then
        (let i = run_of_digits s 7
         in Some (if i < 9 then i else if even i then 7 else 8))
      else Some 8)"

text \<open>ISO week dates: the Monday of week 1 is the Monday of the week with the year's first Thursday.\<close>

definition iso_week1_monday :: "int \<Rightarrow> int" where
  "iso_week1_monday y =
     (let first = ymd2ord y 1 1; wd = (first + 6) mod 7; mon = first - wd
      in if 3 < wd then mon + 7 else mon)"

definition iso_week_ord :: "int \<Rightarrow> int \<Rightarrow> int \<Rightarrow> int option" where
  "iso_week_ord y w d =
     (let long = ((ymd2ord y 1 1) mod 7 = 4 \<or> ((ymd2ord y 1 1) mod 7 = 3 \<and> is_leap y))
      in if 1 \<le> y \<and> y \<le> 9999 \<and> 1 \<le> w \<and> (w < 53 \<or> (w = 53 \<and> long)) \<and> 1 \<le> d \<and> d \<le> 7
         then Some (iso_week1_monday y + (w - 1) * 7 + (d - 1)) else None)"

definition date_ord :: "int \<Rightarrow> int \<Rightarrow> int \<Rightarrow> int option" where
  "date_ord y m d =
     (if 1 \<le> y \<and> y \<le> 9999 \<and> 1 \<le> m \<and> m \<le> 12 \<and> 1 \<le> d \<and> d \<le> days_in_month y m
      then Some (ymd2ord y m d) else None)"

definition parse_date :: "string \<Rightarrow> int option" where
  "parse_date s =
     (case digit_run 4 (take 4 s) of None \<Rightarrow> None
      | Some y \<Rightarrow>
          (let sep = (char_at s 4 = Some CHR ''-''); p = (if sep then 5 else 4)
           in if char_at s p = Some CHR ''W'' then
                (case digit_run 2 (take 2 (drop (p + 1) s)) of None \<Rightarrow> None
                 | Some w \<Rightarrow>
                     (let q = p + 3
                      in if length s \<le> q then iso_week_ord y w 1
                         else if (char_at s q = Some CHR ''-'') \<noteq> sep then None
                         else case digit_run 1 (drop (if sep then q + 1 else q) s) of
                                None \<Rightarrow> None | Some d \<Rightarrow> iso_week_ord y w d))
              else
                (case digit_run 2 (take 2 (drop p s)) of None \<Rightarrow> None
                 | Some m \<Rightarrow>
                     (let q = p + 2
                      in if (char_at s q = Some CHR ''-'') \<noteq> sep then None
                         else case digit_run 2 (drop (if sep then q + 1 else q) s) of
                                None \<Rightarrow> None | Some d \<Rightarrow> date_ord y m d))))"

text \<open>\<^verbatim>\<open>_parse_hh_mm_ss_ff\<close>: the four components; the fraction is cut after six digits.\<close>

definition parse_frac :: "string \<Rightarrow> int option" where
  "parse_frac s =
     (case s of [] \<Rightarrow> Some 0
      | c # t \<Rightarrow>
          if (c = CHR ''.'' \<or> c = CHR '','') \<and> t \<noteq> [] \<and> list_all is_digit t
          then Some (int (read_nat (take 6 t) * 10 ^ (6 - length (take 6 t)))) else None)"

definition parse_hms :: "string \<Rightarrow> (int \<times> int \<times> int \<times> int) option" where
  "parse_hms s =
     (case digit_run 2 (take 2 s) of None \<Rightarrow> None
      | Some h \<Rightarrow>
          (let r = drop 2 s; sep = (char_at r 0 = Some CHR '':'')
           in if r = [] then Some (h, 0, 0, 0)
              else let r = (if sep then tl r else r)
                   in case digit_run 2 (take 2 r) of None \<Rightarrow> None
                      | Some mi \<Rightarrow>
                          (let r = drop 2 r
                           in if r = [] then Some (h, mi, 0, 0)
                              else if sep \<and> char_at r 0 \<noteq> Some CHR '':'' then None
                              else let r = (if sep then tl r else r)
                                   in case digit_run 2 (take 2 r) of None \<Rightarrow> None
                                      | Some sec \<Rightarrow> map_option (\<lambda>us. (h, mi, sec, us)) (parse_frac (drop 2 r)))))"

definition hms_us :: "int \<times> int \<times> int \<times> int \<Rightarrow> int" where
  "hms_us t = (case t of (h, mi, sec, us) \<Rightarrow> ((h * 60 + mi) * 60 + sec) * 1000000 + us)"

definition valid_hms :: "int \<times> int \<times> int \<times> int \<Rightarrow> bool" where
  "valid_hms t = (case t of (h, mi, sec, us) \<Rightarrow> h < 24 \<and> mi < 60 \<and> sec < 60)"

definition is_tz_mark :: "char \<Rightarrow> bool" where
  "is_tz_mark c = (c = CHR ''-'' \<or> c = CHR ''+'' \<or> c = CHR ''Z'')"

definition parse_time :: "string \<Rightarrow> (int \<times> int option) option" where
  "parse_time s =
     (let body = takeWhile (\<lambda>c. \<not> is_tz_mark c) s; rest = dropWhile (\<lambda>c. \<not> is_tz_mark c) s
      in case parse_hms body of None \<Rightarrow> None
         | Some t \<Rightarrow>
             if \<not> valid_hms t then None
             else (case rest of [] \<Rightarrow> Some (hms_us t, None)
                   | c # z \<Rightarrow>
                       if c = CHR ''Z'' then (if z = [] then Some (hms_us t, Some 0) else None)
                       else (case parse_hms z of None \<Rightarrow> None
                             | Some o' \<Rightarrow>
                                 let us = hms_us o'
                                 in if us < us_per_day
                                    then Some (hms_us t, Some (if c = CHR ''-'' then - us else us))
                                    else None)))"

definition fromisoformat :: "string \<Rightarrow> pydatetime option" where
  "fromisoformat s =
     (case separator_location s of None \<Rightarrow> None
      | Some k \<Rightarrow>
          (case parse_date (take k s) of None \<Rightarrow> None
           | Some n \<Rightarrow>
               (let base = (n - 1) * us_per_day; ts = drop (k + 1) s
                in if ts = [] then Some \<lparr>dt_local = base, dt_offset = None\<rparr>
                   else case parse_time ts of None \<Rightarrow> None
                        | Some (us, off) \<Rightarrow> Some \<lparr>dt_local = base + us, dt_offset = off\<rparr>)))"

subsection \<open>Conversion and printing\<close>

definition max_instant :: int where "max_instant = 3652059 * us_per_day"

text \<open>\<^verbatim>\<open>parsed.astimezone(timezone.utc)\<close> of an aware datetime: its instant.\<close>

definition to_utc :: "int \<Rightarrow> int \<Rightarrow> int res" where
  "to_utc local off =
     (let u = local - off
      in if 0 \<le> u \<and> u < max_instant then Inr u else Inl (OverflowError ''date value out of range''))"

definition pad :: "nat \<Rightarrow> int \<Rightarrow> string" where
  "pad k i = (let ds = show_nat (nat i) in replicate (k - length ds) CHR ''0'' @ ds)"

text \<open>\<^verbatim>\<open>isoformat(timespec="microseconds")\<close> in UTC, with \<open>Z\<close> for the offset.\<close>

definition iso_z :: "int \<Rightarrow> string" where
  "iso_z u =
     (let day = u div us_per_day; us = u mod us_per_day; (y, m, d) = ord2ymd (day + 1)
      in pad 4 y @ ''-'' @ pad 2 m @ ''-'' @ pad 2 d @ ''T'' @ pad 2 (us div 3600000000) @ '':''
         @ pad 2 (us div 60000000 mod 60) @ '':'' @ pad 2 (us div 1000000 mod 60) @ ''.''
         @ pad 6 (us mod 1000000) @ ''Z'')"

subsection \<open>The calendar\<close>

lemma days_before_year_split:
  assumes "0 \<le> b" "b \<le> 3" "0 \<le> c" "c \<le> 24" "0 \<le> d" "d \<le> 3"
  shows "days_before_year (a * 400 + 1 + b * 100 + c * 4 + d) = a * 146097 + b * 36524 + c * 1461 + d * 365"
proof -
  have "(a * 400 + b * 100 + c * 4 + d) div 4 = a * 100 + b * 25 + c" using assms by simp
  moreover have "(a * 400 + b * 100 + c * 4 + d) div 100 = a * 4 + b" using assms by simp
  moreover have "(a * 400 + b * 100 + c * 4 + d) div 400 = a" using assms by simp
  ultimately show ?thesis by (simp add: days_before_year_def Let_def algebra_simps)
qed

lemma month_day_spec:
  assumes "0 \<le> n" "n < 365 \<or> (n = 365 \<and> is_leap y)"
  shows "case month_day 11 y 1 n of (m, d) \<Rightarrow> 1 \<le> m \<and> m \<le> 12 \<and> 1 \<le> d \<and> d \<le> days_in_month y m
    \<and> days_before_month y (nat m) + d = n + 1"
proof -
  have "month_day 11 y 1 n = month_day (Suc (Suc (Suc (Suc (Suc (Suc (Suc (Suc (Suc (Suc (Suc 0))))))))))) y 1 n"
    by (simp add: eval_nat_numeral)
  then show ?thesis
    using assms by (cases "is_leap y") (auto simp: days_in_month_def eval_nat_numeral)
qed


definition valid_date :: "int \<Rightarrow> int \<Rightarrow> int \<Rightarrow> bool" where
  "valid_date y m d = (1 \<le> y \<and> y \<le> 9999 \<and> 1 \<le> m \<and> m \<le> 12 \<and> 1 \<le> d \<and> d \<le> days_in_month y m)"

lemma leap_four_hundred: "is_leap (a * 400)"
  by (simp add: is_leap_def mod_mult_right_eq[symmetric])

lemma leap_in_cycle:
  assumes "0 \<le> b" "b \<le> 3" "0 \<le> c" "c \<le> 23"
  shows "is_leap (a * 400 + b * 100 + c * 4 + 4)"
proof -
  have "a * 400 + b * 100 + c * 4 + 4 = (c * 4 + 4) + 100 * (a * 4 + b)" by simp
  then have "(a * 400 + b * 100 + c * 4 + 4) mod 100 = (c * 4 + 4) mod 100" by (metis mod_mult_self2)
  moreover have "(c * 4 + 4) mod 100 = c * 4 + 4" using assms by (intro mod_pos_pos_trivial) simp_all
  moreover have "a * 400 + b * 100 + c * 4 + 4 = 4 * (a * 100 + b * 25 + c + 1)" by simp
  then have "(a * 400 + b * 100 + c * 4 + 4) mod 4 = 0" by (metis mod_mult_self1_is_0)
  ultimately show ?thesis using assms by (simp add: is_leap_def)
qed

lemma ord2ymd_spec:
  assumes "1 \<le> n" "n \<le> 3652059"
  shows "case ord2ymd n of (y, m, d) \<Rightarrow> valid_date y m d \<and> ymd2ord y m d = n"
proof -
  define a where "a = (n - 1) div 146097"
  define r1 where "r1 = (n - 1) mod 146097"
  define b where "b = r1 div 36524"
  define r2 where "r2 = r1 mod 36524"
  define c where "c = r2 div 1461"
  define r3 where "r3 = r2 mod 1461"
  define d where "d = r3 div 365"
  define r4 where "r4 = r3 mod 365"
  have n: "n - 1 = a * 146097 + r1" "r1 = b * 36524 + r2" "r2 = c * 1461 + r3" "r3 = d * 365 + r4"
    by (simp_all add: a_def r1_def b_def r2_def c_def r3_def d_def r4_def)
  have r: "0 \<le> r1" "r1 < 146097" "0 \<le> r2" "r2 < 36524" "0 \<le> r3" "r3 < 1461" "0 \<le> r4" "r4 < 365"
    by (simp_all add: r1_def r2_def r3_def r4_def)
  have nn: "0 \<le> b" "0 \<le> c" "0 \<le> d" using r by (simp_all add: b_def c_def d_def pos_imp_zdiv_nonneg_iff)
  have a: "0 \<le> a" "a \<le> 24" using n(1) r assms by linarith+
  have bound: "b \<le> 4" "c \<le> 24" "d \<le> 4" using n r nn by linarith+
  have eq: "ord2ymd n = (if d = 4 \<or> b = 4 then (a * 400 + b * 100 + c * 4 + d, 12, 31)
      else (let (m, e) = month_day 11 (a * 400 + 1 + b * 100 + c * 4 + d) 1 r4 in (a * 400 + 1 + b * 100 + c * 4 + d, m, e)))"
    unfolding ord2ymd_def Let_def a_def b_def c_def d_def r1_def r2_def r3_def r4_def by simp
  consider "b = 4" | "b \<noteq> 4" "d = 4" | "b \<noteq> 4" "d \<noteq> 4" by blast
  then show ?thesis
  proof cases
    case 1
    have z: "r2 = 0" "c = 0" "d = 0" using 1 n r nn bound by linarith+
    have l: "is_leap (a * 400 + 400)" using leap_four_hundred [of "a + 1"] by (simp add: algebra_simps)
    have y: "days_before_year (a * 400 + 400) = a * 146097 + 3 * 36524 + 24 * 1461 + 3 * 365"
      using days_before_year_split [of 3 24 3 a] by (simp add: algebra_simps)
    have n1: "n = a * 146097 + 146097" using 1 z n by simp
    then have "a \<le> 23" using assms by linarith
    with n1 show ?thesis
      unfolding eq using a l 1 z by (simp add: valid_date_def ymd2ord_def y days_in_month_def eval_nat_numeral)
  next
    case 2
    have c23: "c \<le> 23" and z: "r4 = 0" using 2 n r nn bound by linarith+
    have b3: "b \<le> 3" using 2 bound by simp
    have l: "is_leap (a * 400 + b * 100 + c * 4 + 4)" using leap_in_cycle b3 c23 nn by blast
    have y: "days_before_year (a * 400 + b * 100 + c * 4 + 4) = a * 146097 + b * 36524 + c * 1461 + 3 * 365"
      using days_before_year_split [of b c 3 a] nn b3 c23 by (simp add: algebra_simps)
    have "n = a * 146097 + b * 36524 + c * 1461 + 1461" using 2 z n by simp
    moreover have "a * 400 + b * 100 + c * 4 + 4 \<le> 9999" using a b3 c23 by linarith
    ultimately show ?thesis
      unfolding eq using a nn l 2 by (simp add: valid_date_def ymd2ord_def y days_in_month_def eval_nat_numeral)
  next
    case 3
    let ?y = "a * 400 + 1 + b * 100 + c * 4 + d"
    have b3: "b \<le> 3" "d \<le> 3" using 3 bound by simp_all
    have y: "days_before_year ?y = a * 146097 + b * 36524 + c * 1461 + d * 365"
      using days_before_year_split [of b c d a] nn b3 bound by simp
    have "?y \<le> 9999"
    proof (rule ccontr)
      assume "\<not> ?y \<le> 9999"
      then have "a = 24" "b = 3" "c = 24" "d = 3" using a b3 bound nn by linarith+
      then show False using n r assms by simp
    qed
    moreover obtain m e where me: "month_day 11 ?y 1 r4 = (m, e)" by (cases "month_day 11 ?y 1 r4")
    moreover have "1 \<le> m \<and> m \<le> 12 \<and> 1 \<le> e \<and> e \<le> days_in_month ?y m \<and> days_before_month ?y (nat m) + e = r4 + 1"
      using month_day_spec [of r4 ?y] r me by simp
    ultimately show ?thesis
      unfolding eq using 3 a nn n y by (simp add: valid_date_def ymd2ord_def)
  qed
qed


subsection \<open>Canonical texts\<close>

lemma digit_run_pad:
  assumes "0 \<le> i" "i < 10 ^ k" "0 < k"
  shows "length (pad k i) = k" "list_all is_digit (pad k i)" "digit_run k (pad k i) = Some i"
proof -
  have len: "length (show_nat (nat i)) \<le> k"
    using assms ndigits_le_iff [of k "nat i"] by (simp add: length_show_nat nat_less_iff)
  then show l: "length (pad k i) = k" by (simp add: pad_def Let_def)
  have "\<forall>c \<in> set (show_nat (nat i)). is_digit c" by (rule show_nat_digits)
  then show d: "list_all is_digit (pad k i)" by (auto simp: pad_def Let_def list_all_iff)
  have "read_nat (pad k i) = nat i" by (simp add: pad_def Let_def read_nat_zeros read_show_nat)
  with l d assms show "digit_run k (pad k i) = Some i" by (simp add: digit_run_def)
qed


lemma dim_le: "days_in_month y m \<le> 31"
  by (simp add: days_in_month_def)

lemma parse_date_iso:
  assumes "valid_date y m d"
  shows "parse_date (pad 4 y @ ''-'' @ pad 2 m @ ''-'' @ pad 2 d) = Some (ymd2ord y m d)"
proof -
  have y: "length (pad 4 y) = 4" "digit_run 4 (pad 4 y) = Some y"
    and m: "length (pad 2 m) = 2" "digit_run 2 (pad 2 m) = Some m" "list_all is_digit (pad 2 m)"
    and d: "length (pad 2 d) = 2" "digit_run 2 (pad 2 d) = Some d"
    using assms dim_le [of y m] digit_run_pad [of y 4] digit_run_pad [of m 2] digit_run_pad [of d 2]
    by (auto simp: valid_date_def)
  obtain m1 m2 where mm: "pad 2 m = [m1, m2]" "is_digit m1"
    using m(1,3) by (auto simp: length_Suc_conv numeral_2_eq_2)
  have "m1 \<noteq> CHR ''W''" using mm(2) by (auto simp: is_digit_def)
  with y m d mm assms show ?thesis
    by (simp add: parse_date_def Let_def char_at_def nth_append date_ord_def valid_date_def)
qed


lemma digits_no_mark: "list_all is_digit s \<Longrightarrow> \<forall>c \<in> set s. \<not> is_tz_mark c \<and> c \<noteq> CHR '':''"
  by (auto simp: list_all_iff is_tz_mark_def is_digit_def)

text \<open>The fraction of a second, as \<^verbatim>\<open>isoformat\<close> prints it: in full, or not at all when it is zero.\<close>

definition frac_text :: "string \<Rightarrow> int \<Rightarrow> bool" where
  "frac_text f us = (f = ''.'' @ pad 6 us \<or> f = [] \<and> us = 0)"

lemma parse_hms_iso:
  assumes "0 \<le> h" "h < 24" "0 \<le> mi" "mi < 60" "0 \<le> sec" "sec < 60" "0 \<le> us" "us < 1000000" "frac_text f us"
  shows "parse_hms (pad 2 h @ '':'' @ pad 2 mi @ '':'' @ pad 2 sec @ f) = Some (h, mi, sec, us)"
proof -
  have h: "length (pad 2 h) = 2" "digit_run 2 (pad 2 h) = Some h"
    and mi: "length (pad 2 mi) = 2" "digit_run 2 (pad 2 mi) = Some mi"
    and sec: "length (pad 2 sec) = 2" "digit_run 2 (pad 2 sec) = Some sec"
    and us: "length (pad 6 us) = 6" "digit_run 6 (pad 6 us) = Some us" "list_all is_digit (pad 6 us)"
    using assms digit_run_pad [of h 2] digit_run_pad [of mi 2] digit_run_pad [of sec 2] digit_run_pad [of us 6]
    by auto
  have "pad 6 us \<noteq> []" "int (read_nat (pad 6 us)) = us" using us by (auto simp: digit_run_def)
  with h mi sec us assms(9) show ?thesis
    by (auto simp: parse_hms_def Let_def char_at_def nth_append parse_frac_def frac_text_def)
qed

lemma div_less_pos:
  assumes "0 < c" "a < b * c"
  shows "a div c < (b::int)"
proof (rule ccontr)
  assume "\<not> a div c < b"
  then have "b * c \<le> a div c * c" using assms(1) by (intro mult_right_mono) simp_all
  also have "a div c * c \<le> a" using div_mult_mod_eq [of a c] pos_mod_sign [OF assms(1), of a] by linarith
  finally show False using assms(2) by simp
qed

lemma hms_sum:
  "a = b * 60 + x \<Longrightarrow> b = c * 60 + y \<Longrightarrow> u = a * 1000000 + z \<Longrightarrow>
    ((c * 60 + y) * 60 + x) * 1000000 + z = (u::int)"
  by simp

lemma hms_parts:
  assumes "0 \<le> us" "us < us_per_day"
  shows "hms_us (us div 3600000000, us div 60000000 mod 60, us div 1000000 mod 60, us mod 1000000) = us"
    and "0 \<le> us div 3600000000" "us div 3600000000 < 24"
proof -
  have "us div 1000000 div 60 = us div 60000000" "us div 60000000 div 60 = us div 3600000000"
    by (simp_all add: zdiv_zmult2_eq [symmetric])
  then have "us div 1000000 = us div 60000000 * 60 + us div 1000000 mod 60"
    "us div 60000000 = us div 3600000000 * 60 + us div 60000000 mod 60"
    by (metis div_mult_mod_eq)+
  moreover have "us = us div 1000000 * 1000000 + us mod 1000000" by simp
  ultimately show "hms_us (us div 3600000000, us div 60000000 mod 60, us div 1000000 mod 60, us mod 1000000) = us"
    unfolding hms_us_def prod.case by (rule hms_sum)
  show "0 \<le> us div 3600000000" using assms(1) by (simp add: pos_imp_zdiv_nonneg_iff)
  have "us < 24 * 3600000000" using assms(2) by (simp add: us_per_day_def)
  then show "us div 3600000000 < 24" by (rule div_less_pos [rotated]) simp
qed


definition iso_at :: "int \<Rightarrow> string \<Rightarrow> string \<Rightarrow> string" where
  "iso_at u f zone =
     (let us = u mod us_per_day; (y, m, d) = ord2ymd (u div us_per_day + 1)
      in (pad 4 y @ ''-'' @ pad 2 m @ ''-'' @ pad 2 d) @ ''T'' @ (pad 2 (us div 3600000000) @ '':''
         @ pad 2 (us div 60000000 mod 60) @ '':'' @ pad 2 (us div 1000000 mod 60) @ f) @ zone)"

definition iso_text :: "int \<Rightarrow> string \<Rightarrow> string" where
  "iso_text u zone = iso_at u (''.'' @ pad 6 (u mod us_per_day mod 1000000)) zone"

lemma iso_z_text: "iso_z u = iso_text u ''Z''"
  by (simp add: iso_z_def iso_text_def iso_at_def Let_def split: prod.split)

lemma take_while_not: "\<forall>c \<in> set a. P c \<Longrightarrow> \<not> P (hd b) \<Longrightarrow> b \<noteq> [] \<Longrightarrow>
    takeWhile P (a @ b) = a \<and> dropWhile P (a @ b) = b"
  by (induction a) (auto simp: neq_Nil_conv)

lemma fromisoformat_at:
  assumes "0 \<le> u" "u < max_instant" "frac_text f (u mod us_per_day mod 1000000)"
  shows "fromisoformat (iso_at u f ''+00:00'') = Some \<lparr>dt_local = u, dt_offset = Some 0\<rparr>"
proof -
  define us where "us = u mod us_per_day"
  define n where "n = u div us_per_day + 1"
  obtain y m d where ymd: "ord2ymd n = (y, m, d)" by (cases "ord2ymd n")
  have us: "0 \<le> us" "us < us_per_day" by (simp_all add: us_def us_per_day_def)
  have "u div us_per_day < 3652059"
    using assms div_less_pos [of us_per_day u 3652059] by (simp add: max_instant_def us_per_day_def)
  then have "1 \<le> n" "n \<le> 3652059" using assms by (auto simp: n_def us_per_day_def pos_imp_zdiv_nonneg_iff)
  then have v: "valid_date y m d" "ymd2ord y m d = n" using ord2ymd_spec [of n] ymd by auto
  define date where "date = pad 4 y @ ''-'' @ pad 2 m @ ''-'' @ pad 2 d"
  define h mi sec mic where "h = us div 3600000000" and "mi = us div 60000000 mod 60"
    and "sec = us div 1000000 mod 60" and "mic = us mod 1000000"
  have hp: "hms_us (h, mi, sec, mic) = us" "0 \<le> h" "h < 24"
    unfolding h_def mi_def sec_def mic_def by (rule hms_parts [OF us])+
  have rest: "0 \<le> mi" "mi < 60" "0 \<le> sec" "sec < 60" "0 \<le> mic" "mic < 1000000"
    by (simp_all add: mi_def sec_def mic_def)
  define time where "time = pad 2 h @ '':'' @ pad 2 mi @ '':'' @ pad 2 sec @ f"
  have split: "iso_at u f ''+00:00'' = date @ ''T'' @ time @ ''+00:00''"
    by (simp add: iso_at_def Let_def ymd us_def [symmetric] n_def [symmetric] date_def time_def
      h_def mi_def sec_def mic_def)
  have y4: "length (pad 4 y) = 4" "list_all is_digit (pad 4 y)" and m2: "length (pad 2 m) = 2" "list_all is_digit (pad 2 m)"
    and d2: "length (pad 2 d) = 2"
    using v(1) dim_le [of y m] digit_run_pad [of y 4] digit_run_pad [of m 2] digit_run_pad [of d 2]
    by (auto simp: valid_date_def)
  then have len: "length date = 10" by (simp add: date_def)
  obtain y1 y2 y3 y4' m1 m2' where parts: "pad 4 y = [y1, y2, y3, y4']" "pad 2 m = [m1, m2']"
    using y4(1) m2(1) by (auto simp: length_Suc_conv eval_nat_numeral)
  have "m1 \<noteq> CHR ''W''" using m2(2) parts by (auto simp: is_digit_def)
  then have sep: "separator_location (date @ ''T'' @ time @ ''+00:00'') = Some 10"
    by (simp add: separator_location_def date_def parts d2)
  have hms: "parse_hms time = Some (h, mi, sec, mic)"
    unfolding time_def using hp(2,3) rest assms(3) by (intro parse_hms_iso) (simp_all add: mic_def us_def)
  have dig: "list_all is_digit (pad 2 h)" "list_all is_digit (pad 2 mi)" "list_all is_digit (pad 2 sec)"
    "list_all is_digit (pad 6 mic)"
    using hp(2,3) rest by (auto intro!: digit_run_pad)
  have "\<not> is_tz_mark CHR '':''" "\<not> is_tz_mark CHR ''.''" by (simp_all add: is_tz_mark_def)
  note marks = this
  have fr: "\<forall>c \<in> set f. \<not> is_tz_mark c"
  proof (cases "f = []")
    case False
    with assms(3) have "f = ''.'' @ pad 6 mic" unfolding frac_text_def us_def mic_def by blast
    with marks digits_no_mark [OF dig(4)] show ?thesis by simp
  qed simp
  from marks have "\<forall>c \<in> set time. \<not> is_tz_mark c"
    using digits_no_mark [OF dig(1)] digits_no_mark [OF dig(2)] digits_no_mark [OF dig(3)] digits_no_mark [OF dig(4)]
    using fr by (simp add: time_def ball_Un)
  then have tw: "takeWhile (\<lambda>c. \<not> is_tz_mark c) (time @ ''+00:00'') = time"
    "dropWhile (\<lambda>c. \<not> is_tz_mark c) (time @ ''+00:00'') = ''+00:00''"
    using take_while_not [of time "\<lambda>c. \<not> is_tz_mark c" "''+00:00''"] by (simp_all add: is_tz_mark_def)
  have off: "parse_hms ''00:00'' = Some (0, 0, 0, 0)" by code_simp
  have zero: "hms_us (0, 0, 0, 0) = 0" by (simp add: hms_us_def)
  have valid: "valid_hms (h, mi, sec, mic)" using hp rest by (simp add: valid_hms_def)
  have "parse_time (time @ ''+00:00'') = Some (us, Some 0)"
    unfolding parse_time_def Let_def tw hms option.case hp(1) list.case off zero
    using valid by (simp add: us_per_day_def)
  moreover have "take 10 (date @ ''T'' @ time @ ''+00:00'') = date"
    "drop 11 (date @ ''T'' @ time @ ''+00:00'') = time @ ''+00:00''" using len by simp_all
  moreover have "parse_date date = Some n" using parse_date_iso [OF v(1)] v(2) by (simp add: date_def)
  ultimately show ?thesis
    unfolding split fromisoformat_def sep by (simp add: n_def us_def Let_def)
qed


lemma fromisoformat_iso:
  assumes "0 \<le> u" "u < max_instant"
  shows "fromisoformat (iso_text u ''+00:00'') = Some \<lparr>dt_local = u, dt_offset = Some 0\<rparr>"
  unfolding iso_text_def by (rule fromisoformat_at [OF assms]) (simp add: frac_text_def)

lemma iso_text_plain: "\<forall>c \<in> set (iso_text u []). \<not> is_space c"
proof -
  obtain y m d where ymd: "ord2ymd (u div us_per_day + 1) = (y, m, d)" by (cases "ord2ymd (u div us_per_day + 1)")
  have "\<forall>c \<in> set (pad k i). is_digit c" for k i
    using show_nat_digits [of "nat i"] by (auto simp: pad_def Let_def)
  then have pad: "\<forall>c \<in> set (pad k i). \<not> is_space c" for k i
    using is_digit_not_special by blast
  have "\<not> is_space CHR ''-''" "\<not> is_space CHR ''T''" "\<not> is_space CHR '':''" "\<not> is_space CHR ''.''"
    by (simp_all add: is_space_def)
  then show ?thesis by (simp add: iso_text_def iso_at_def Let_def ymd ball_Un pad)
qed

end
