(* ===== verification/Contracts.thy ===== *)
theory Contracts
  imports PyDatetime
begin

section \<open>Contracts of the replay lab\<close>

text \<open>
  \<^verbatim>\<open>research/rea_engines/contracts.py\<close>: the validators of numbers and timestamps, and the
  immutable records of the lab. Each \<^verbatim>\<open>__post_init__\<close> is a constructor function that
  returns the normalised record or the exception it raises. A \<^verbatim>\<open>datetime\<close> object is not a
  value of the model, so \<open>normalize_timestamp\<close> has the branches for texts and for other values.
\<close>

subsection \<open>Validators\<close>

fun is_bool :: "pyval \<Rightarrow> bool" where
  "is_bool (VBool b) = True"
| "is_bool v = False"

definition as_decimal :: "pyval \<Rightarrow> string \<Rightarrow> bool \<Rightarrow> bool \<Rightarrow> dec res" where
  "as_decimal value field_name positive non_negative =
     (if is_bool value then Inl (ContractError (field_name @ '' must be numeric, not boolean''))
      else case dec_parse (py_str value) of
        PInvalid \<Rightarrow> Inl (ContractError (field_name @ '' must be a finite decimal''))
      | PSpecial \<Rightarrow> Inl (ContractError (field_name @ '' must be finite''))
      | PFinite result \<Rightarrow>
          if positive \<and> dle result dzero then Inl (ContractError (field_name @ '' must be positive''))
          else if non_negative \<and> dlt result dzero
            then Inl (ContractError (field_name @ '' must be non-negative''))
          else Inr result)"

definition normalize_timestamp :: "pyval \<Rightarrow> string res" where
  "normalize_timestamp value =
     (case value of
        VStr s \<Rightarrow>
          (let t = strip s
           in if t = [] then Inl (ContractError ''timestamp must be a non-empty ISO-8601 datetime'')
              else let text = (if ends_with t ''Z'' then butlast t @ ''+00:00'' else t)
                   in case fromisoformat text of
                        None \<Rightarrow> Inl (ContractError ''timestamp must be an ISO-8601 datetime'')
                      | Some parsed \<Rightarrow>
                          (case dt_offset parsed of
                             None \<Rightarrow> Inl (ContractError ''timestamp must include a timezone'')
                           | Some off \<Rightarrow> rbind (to_utc (dt_local parsed) off) (\<lambda>u. Inr (iso_z u))))
      | _ \<Rightarrow> Inl (ContractError ''timestamp must be a non-empty ISO-8601 datetime''))"

subsection \<open>Candles\<close>

record candle =
  c_ts :: string
  c_open :: dec
  c_high :: dec
  c_low :: dec
  c_close :: dec
  c_volume :: dec

definition mk_candle :: "pyval \<Rightarrow> pyval \<Rightarrow> pyval \<Rightarrow> pyval \<Rightarrow> pyval \<Rightarrow> pyval \<Rightarrow> candle res" where
  "mk_candle ts op hi lo cl vol =
     rbind (normalize_timestamp ts) (\<lambda>t.
     rbind (as_decimal op ''open'' True False) (\<lambda>o1.
     rbind (as_decimal hi ''high'' True False) (\<lambda>h1.
     rbind (as_decimal lo ''low'' True False) (\<lambda>l1.
     rbind (as_decimal cl ''close'' True False) (\<lambda>c1.
     rbind (as_decimal vol ''volume'' False True) (\<lambda>v1.
       if dlt h1 (dmax o1 c1) then Inl (ContractError ''high must be at least open and close'')
       else if dlt (dmin o1 c1) l1 then Inl (ContractError ''low must be at most open and close'')
       else if dlt h1 l1 then Inl (ContractError ''high must be greater than or equal to low'')
       else Inr \<lparr>c_ts = t, c_open = o1, c_high = h1, c_low = l1, c_close = c1, c_volume = v1\<rparr>))))))"

subsection \<open>Intents\<close>

record order_intent =
  oi_side :: string
  oi_type :: string
  oi_qty :: dec
  oi_limit :: "dec option"
  oi_ttl :: "int option"
  oi_tag :: string

definition check_ttl :: "(string \<Rightarrow> exc) \<Rightarrow> string \<Rightarrow> pyval \<Rightarrow> int option res" where
  "check_ttl err field_name v =
     (case v of
        VNone \<Rightarrow> Inr None
      | VInt i \<Rightarrow> if i \<le> 0 then Inl (err (field_name @ '' must be a positive integer or None''))
                  else Inr (Some i)
      | _ \<Rightarrow> Inl (err (field_name @ '' must be a positive integer or None'')))"

definition mk_order_intent ::
    "pyval \<Rightarrow> pyval \<Rightarrow> pyval \<Rightarrow> pyval \<Rightarrow> pyval \<Rightarrow> pyval \<Rightarrow> order_intent res" where
  "mk_order_intent side0 type0 quantity limit_price ttl tag =
     (let side = lower (strip (py_str side0)); otype = lower (strip (py_str type0))
      in if side \<notin> set [''buy'', ''sell''] then Inl (ContractError (''side must be '' @ str_repr ''buy'' @ '' or '' @ str_repr ''sell''))
         else if otype \<notin> set [''market'', ''limit'']
           then Inl (ContractError (''order_type must be '' @ str_repr ''market'' @ '' or '' @ str_repr ''limit''))
         else rbind (as_decimal quantity ''quantity'' True False) (\<lambda>q.
              rbind (if otype = ''limit''
                     then (if limit_price = VNone then Inl (ContractError ''limit orders require limit_price'')
                           else rbind (as_decimal limit_price ''limit_price'' True False) (\<lambda>p. Inr (Some p)))
                     else if limit_price \<noteq> VNone
                       then Inl (ContractError ''market orders must not specify limit_price'')
                     else Inr None) (\<lambda>lp.
              rbind (check_ttl ContractError ''expires_after_bars'' ttl) (\<lambda>t.
                case tag of
                  VStr tg \<Rightarrow> Inr \<lparr>oi_side = side, oi_type = otype, oi_qty = q, oi_limit = lp,
                                   oi_ttl = t, oi_tag = tg\<rparr>
                | _ \<Rightarrow> Inl (ContractError ''tag must be a string'')))))"

record cancel_intent =
  ci_order :: string
  ci_tag :: string

definition mk_cancel_intent :: "pyval \<Rightarrow> pyval \<Rightarrow> cancel_intent res" where
  "mk_cancel_intent order_id tag =
     (case order_id of
        VStr oid \<Rightarrow>
          if strip oid = [] then Inl (ContractError ''order_id must be a non-empty string'')
          else (case tag of VStr tg \<Rightarrow> Inr \<lparr>ci_order = oid, ci_tag = tg\<rparr>
                | _ \<Rightarrow> Inl (ContractError ''tag must be a string''))
      | _ \<Rightarrow> Inl (ContractError ''order_id must be a non-empty string''))"

text \<open>
  What a strategy may hand back: \<open>Foreign\<close> stands for any value that is neither of the two
  intents, \<open>RNone\<close> for \<^verbatim>\<open>None\<close> and \<open>RScalar\<close> for a value that cannot be iterated over.
\<close>

datatype intent = Order order_intent | Cancel cancel_intent | Foreign

datatype returned = RNone | RScalar | RItems "intent list"

subsection \<open>Costs and the records of a run\<close>

record cost_profile =
  fee_bps :: dec
  spread_bps :: dec
  slippage_bps :: dec
  profile_id :: string

definition mk_cost_profile :: "pyval \<Rightarrow> pyval \<Rightarrow> pyval \<Rightarrow> pyval \<Rightarrow> cost_profile res" where
  "mk_cost_profile fee spread slip pid =
     rbind (as_decimal fee ''fee_bps'' False True) (\<lambda>f.
     rbind (as_decimal spread ''spread_bps'' False True) (\<lambda>s.
     rbind (as_decimal slip ''slippage_bps'' False True) (\<lambda>l.
       case pid of
         VStr p \<Rightarrow> if strip p = [] then Inl (ContractError ''profile_id must be a non-empty string'')
                   else Inr \<lparr>fee_bps = f, spread_bps = s, slippage_bps = l, profile_id = p\<rparr>
       | _ \<Rightarrow> Inl (ContractError ''profile_id must be a non-empty string''))))"

definition default_costs :: cost_profile where
  "default_costs = \<lparr>fee_bps = dec_of_int 10, spread_bps = dec_of_int 5, slippage_bps = dec_of_int 5,
     profile_id = ''rea-base-v1''\<rparr>"

definition scaled :: "cost_profile \<Rightarrow> pyval \<Rightarrow> pyval \<Rightarrow> cost_profile res" where
  "scaled p factor pid =
     rbind (as_decimal factor ''factor'' True False) (\<lambda>m.
       mk_cost_profile (VDec (dmul (fee_bps p) m)) (VDec (dmul (spread_bps p) m))
         (VDec (dmul (slippage_bps p) m))
         (por pid (VStr (profile_id p @ ''-x'' @ dec_str m))))"

record snapshot =
  s_cash :: dec
  s_inventory :: dec
  s_avg_entry :: dec
  s_realized :: dec
  s_unrealized :: dec
  s_equity :: dec
  s_fees :: dec
  s_spread :: dec
  s_slippage :: dec
  s_turnover :: dec

record pending_order =
  po_id :: string
  po_side :: string
  po_type :: string
  po_qty :: dec
  po_limit :: "dec option"
  po_index :: nat
  po_ts :: string
  po_ttl :: "int option"
  po_tag :: string
  po_waited :: int

record fill =
  f_order :: string
  f_ts :: string
  f_side :: string
  f_type :: string
  f_qty :: dec
  f_price :: dec
  f_notional :: dec
  f_fee :: dec
  f_spread :: dec
  f_slippage :: dec
  f_realized :: dec
  f_tag :: string

record rejection =
  r_order :: string
  r_ts :: string
  r_reason :: string
  r_side :: string
  r_qty :: dec
  r_tag :: string

subsection \<open>What the validators guarantee\<close>

text \<open>A decimal passes through \<open>as_decimal\<close> unchanged: its text reads back as itself.\<close>

lemma as_decimal_VDec [simp]:
  "as_decimal (VDec d) n pos nonneg =
     (if pos \<and> dval d \<le> 0 then Inl (ContractError (n @ '' must be positive''))
      else if nonneg \<and> dval d < 0 then Inl (ContractError (n @ '' must be non-negative''))
      else Inr d)"
  by (simp add: as_decimal_def dec_parse_str dle_iff dlt_iff)

lemma as_decimal_Inr:
  assumes "as_decimal v n pos nonneg = Inr d"
  shows "(pos \<longrightarrow> 0 < dval d) \<and> (nonneg \<longrightarrow> 0 \<le> dval d)"
  using assms by (auto simp: as_decimal_def dle_iff dlt_iff split: if_splits parsed.splits)

lemma as_decimal_value_error: "as_decimal v n pos nonneg = Inl e \<Longrightarrow> is_value_error e"
  by (auto simp: as_decimal_def split: if_splits parsed.splits)

definition candle_ok :: "candle \<Rightarrow> bool" where
  "candle_ok c =
     (0 < dval (c_low c) \<and> dval (c_low c) \<le> dval (c_open c) \<and> dval (c_low c) \<le> dval (c_close c)
      \<and> dval (c_open c) \<le> dval (c_high c) \<and> dval (c_close c) \<le> dval (c_high c)
      \<and> 0 \<le> dval (c_volume c))"

lemma mk_candle_ok: "mk_candle ts op hi lo cl vol = Inr c \<Longrightarrow> candle_ok c"
  by (auto simp: mk_candle_def res_simps candle_ok_def dlt_iff dmax_val dmin_val
      dest!: as_decimal_Inr split: if_splits)

definition order_intent_ok :: "order_intent \<Rightarrow> bool" where
  "order_intent_ok i =
     (oi_side i \<in> {''buy'', ''sell''} \<and> 0 < dval (oi_qty i)
      \<and> (oi_type i = ''market'' \<and> oi_limit i = None
         \<or> oi_type i = ''limit'' \<and> (\<exists>p. oi_limit i = Some p \<and> 0 < dval p))
      \<and> (\<forall>t. oi_ttl i = Some t \<longrightarrow> 0 < t))"

lemma check_ttl_pos: "check_ttl err n v = Inr (Some t) \<Longrightarrow> 0 < t"
  by (cases v) (auto simp: check_ttl_def split: if_splits)

lemma mk_order_intent_ok: "mk_order_intent s t q l e g = Inr i \<Longrightarrow> order_intent_ok i"
  by (cases g) (auto simp: mk_order_intent_def Let_def res_simps order_intent_ok_def
      dest!: as_decimal_Inr check_ttl_pos split: if_split_asm)

definition costs_ok :: "cost_profile \<Rightarrow> bool" where
  "costs_ok p = (0 \<le> dval (fee_bps p) \<and> 0 \<le> dval (spread_bps p) \<and> 0 \<le> dval (slippage_bps p))"

lemma mk_cost_profile_ok: "mk_cost_profile f s l i = Inr p \<Longrightarrow> costs_ok p"
  by (cases i) (auto simp: mk_cost_profile_def res_simps costs_ok_def dest!: as_decimal_Inr
      split: if_splits)

subsection \<open>Timestamps are canonical\<close>

text \<open>A normalised timestamp is the canonical text of an instant, and normalising it again changes nothing.\<close>

lemma normalize_iso_z:
  assumes "0 \<le> u" "u < max_instant"
  shows "normalize_timestamp (VStr (iso_z u)) = Inr (iso_z u)"
proof -
  have z: "iso_z u = iso_text u [] @ ''Z''" and off: "iso_text u ''+00:00'' = iso_text u [] @ ''+00:00''"
    by (simp_all add: iso_z_text iso_text_def iso_at_def Let_def split: prod.split)
  have "\<forall>c \<in> set (iso_z u). \<not> is_space c"
    using iso_text_plain [of u] by (simp add: z is_space_def)
  then have st: "strip (iso_z u) = iso_z u" by (rule strip_no_space)
  have e: "ends_with (iso_z u) ''Z''" "butlast (iso_z u) @ ''+00:00'' = iso_text u ''+00:00''" "iso_z u \<noteq> []"
    by (simp_all add: z off)
  have "to_utc u 0 = Inr u" using assms by (simp add: to_utc_def)
  with st e fromisoformat_iso [OF assms] show ?thesis
    by (simp add: normalize_timestamp_def Let_def)
qed

lemma to_utc_iso: "to_utc a b = Inr u \<Longrightarrow> 0 \<le> u \<and> u < max_instant"
  by (auto simp: to_utc_def Let_def split: if_splits)

lemma normalize_timestamp_iso: "normalize_timestamp v = Inr t \<Longrightarrow> \<exists>u. 0 \<le> u \<and> u < max_instant \<and> t = iso_z u"
  by (cases v) (fastforce simp: normalize_timestamp_def Let_def res_simps dest: to_utc_iso
      split: if_split_asm option.splits)+

lemma normalize_timestamp_idem: "normalize_timestamp v = Inr t \<Longrightarrow> normalize_timestamp (VStr t) = Inr t"
  using normalize_timestamp_iso normalize_iso_z by blast

end
