(* ===== verification/Machines.thy ===== *)
theory Machines
  imports Prelude
begin

section \<open>Interfaces shared by the stateful components\<close>

text \<open>
  The repository has one shape of stateful component over and over: an immutable state, an
  operation that takes an event and either returns the next state or raises, and a log of the
  events that were accepted, from which the state is rebuilt. The locales below state that
  contract once. \<open>machine\<close> is a step function with an invariant; \<open>counted_machine\<close> adds a
  sequence number that an accepted event advances by one or, when it repeats, not at all; \<open>idempotent_machine\<close> adds keys
  that make the second delivery of an event a no-op; \<open>hash_chain\<close> is a log whose records are
  linked by a digest. Every component that has the shape interprets them on its own
  definitions.
\<close>

primrec run_steps :: "('s \<Rightarrow> 'e \<Rightarrow> 's res) \<Rightarrow> 's \<Rightarrow> 'e list \<Rightarrow> 's res" where
  "run_steps f s [] = Inr s"
| "run_steps f s (e # es) = rbind (f s e) (\<lambda>s'. run_steps f s' es)"

lemma run_steps_append: "run_steps f s (xs @ ys) = rbind (run_steps f s xs) (\<lambda>s'. run_steps f s' ys)"
  by (induction xs arbitrary: s) (simp_all add: rbind_assoc)

lemma run_steps_snoc: "run_steps f s (xs @ [e]) = rbind (run_steps f s xs) (\<lambda>s'. f s' e)"
  by (simp add: run_steps_append)

lemma run_steps_prefix:
  "run_steps f s (xs @ ys) = Inr s' \<Longrightarrow> \<exists>m. run_steps f s xs = Inr m \<and> run_steps f m ys = Inr s'"
  by (simp add: run_steps_append res_simps)

subsection \<open>A step function with an invariant\<close>

locale machine =
  fixes step :: "'s \<Rightarrow> 'e \<Rightarrow> 's res" and good :: "'s \<Rightarrow> bool"
  assumes step_good: "good s \<Longrightarrow> step s e = Inr s' \<Longrightarrow> good s'"
begin

lemma run_good: "good s \<Longrightarrow> run_steps step s es = Inr s' \<Longrightarrow> good s'"
proof (induction es arbitrary: s)
  case (Cons e es)
  then obtain m where "step s e = Inr m" "run_steps step m es = Inr s'" by (auto simp: res_simps)
  with Cons step_good show ?case by blast
qed simp

lemma run_good_prefix:
  "good s \<Longrightarrow> run_steps step s (xs @ ys) = Inr s' \<Longrightarrow> \<exists>m. run_steps step s xs = Inr m \<and> good m"
  using run_steps_prefix run_good by metis

end

text \<open>A caller that catches the exception and goes on with the state it had.\<close>

definition try_step :: "('s \<Rightarrow> 'e \<Rightarrow> 's res) \<Rightarrow> 's \<Rightarrow> 'e \<Rightarrow> 's" where
  "try_step f s e = (case f s e of Inl _ \<Rightarrow> s | Inr s' \<Rightarrow> s')"

context machine
begin

lemma try_good: "good s \<Longrightarrow> good (try_step step s e)"
  using step_good by (auto simp: try_step_def split: sum.split)

lemma tries_good: "good s \<Longrightarrow> good (foldl (try_step step) s es)"
  by (induction es arbitrary: s) (simp_all add: try_good)

end

subsection \<open>A sequence number\<close>

locale counted_machine = machine +
  fixes seq :: "'s \<Rightarrow> int"
  assumes step_seq: "good s \<Longrightarrow> step s e = Inr s' \<Longrightarrow> seq s' = seq s \<or> seq s' = seq s + 1"
begin

lemma run_seq: "good s \<Longrightarrow> run_steps step s es = Inr s' \<Longrightarrow> seq s \<le> seq s' \<and> seq s' \<le> seq s + int (length es)"
proof (induction es arbitrary: s)
  case (Cons e es)
  then obtain m where m: "step s e = Inr m" "run_steps step m es = Inr s'" by (auto simp: res_simps)
  with Cons.prems have "good m" "seq m = seq s \<or> seq m = seq s + 1" using step_good step_seq by blast+
  with Cons.IH [OF _ m(2)] show ?case by force
qed simp

lemma tries_seq: "good s \<Longrightarrow> seq s \<le> seq (foldl (try_step step) s es)"
proof (induction es arbitrary: s)
  case (Cons e es)
  have "seq s \<le> seq (try_step step s e)" using step_seq [OF Cons.prems, of e] by (auto simp: try_step_def split: sum.split)
  with Cons.IH [OF try_good [OF Cons.prems, of e]] show ?case by simp
qed simp

end

subsection \<open>Idempotent delivery\<close>

text \<open>
  \<open>seen s e\<close> says that the event was applied before, with the same content. Such an event
  leaves the state alone, an applied event is seen from then on, and no step forgets one.
\<close>

locale idempotent_machine = machine +
  fixes seen :: "'s \<Rightarrow> 'e \<Rightarrow> bool"
  assumes seen_noop: "good s \<Longrightarrow> seen s e \<Longrightarrow> step s e = Inr s"
    and step_seen: "good s \<Longrightarrow> step s e = Inr s' \<Longrightarrow> seen s' e"
    and seen_kept: "good s \<Longrightarrow> step s e' = Inr s' \<Longrightarrow> seen s e \<Longrightarrow> seen s' e"
begin

lemma run_seen_kept: "good s \<Longrightarrow> run_steps step s es = Inr s' \<Longrightarrow> seen s e \<Longrightarrow> seen s' e"
proof (induction es arbitrary: s)
  case (Cons x es)
  then obtain m where m: "step s x = Inr m" "run_steps step m es = Inr s'" by (auto simp: res_simps)
  with Cons.prems have "good m" "seen m e" using step_good seen_kept by blast+
  with Cons.IH m(2) show ?case by blast
qed simp

lemma run_all_seen: "good s \<Longrightarrow> run_steps step s es = Inr s' \<Longrightarrow> e \<in> set es \<Longrightarrow> seen s' e"
proof (induction es arbitrary: s)
  case (Cons x es)
  then obtain m where m: "step s x = Inr m" "run_steps step m es = Inr s'" by (auto simp: res_simps)
  with Cons.prems have gm: "good m" using step_good by blast
  show ?case
  proof (cases "e \<in> set es")
    case True
    with Cons.IH gm m(2) show ?thesis by blast
  next
    case False
    with Cons.prems(3) have "e = x" by simp
    with m(1) Cons.prems(1) have "seen m e" using step_seen by blast
    with gm m(2) show ?thesis using run_seen_kept by blast
  qed
qed simp

lemma run_seen_noop:
  assumes "good s" and "\<forall>e \<in> set es. seen s e"
  shows "run_steps step s es = Inr s"
  using assms(2) by (induction es) (simp_all add: seen_noop assms(1))

lemma run_twice:
  assumes "good s" "run_steps step s es = Inr s'" "set ds \<subseteq> set es"
  shows "run_steps step s' ds = Inr s'"
  by (rule run_seen_noop) (use assms run_good run_all_seen in blast)+

end

subsection \<open>Logs whose records are linked by a digest\<close>

text \<open>
  \<open>link p r\<close> is the digest of record \<open>r\<close> written after digest \<open>p\<close>. \<open>body r\<close> is what
  the digest covers: two records with the same digest after the same predecessor have the same
  body, unless the digest function itself collides. Only valid records are compared.
\<close>

primrec chain_from :: "('h \<Rightarrow> 'r \<Rightarrow> 'h) \<Rightarrow> 'h \<Rightarrow> 'r list \<Rightarrow> 'h" where
  "chain_from link p [] = p"
| "chain_from link p (r # rs) = chain_from link (link p r) rs"

lemma chain_from_append: "chain_from link p (xs @ ys) = chain_from link (chain_from link p xs) ys"
  by (induction xs arbitrary: p) simp_all

text \<open>The texts that are digested on the way, each with the digest of the one before it in it.\<close>

primrec chain_texts :: "('h \<Rightarrow> 'r \<Rightarrow> 't) \<Rightarrow> ('t \<Rightarrow> 'h) \<Rightarrow> 'h \<Rightarrow> 'r list \<Rightarrow> 't list" where
  "chain_texts covered digest p [] = []"
| "chain_texts covered digest p (r # rs) = covered p r # chain_texts covered digest (digest (covered p r)) rs"

locale hash_chain =
  fixes digest :: "'t \<Rightarrow> 'h" and covered :: "'h \<Rightarrow> 'r \<Rightarrow> 't" and body :: "'r \<Rightarrow> 'b" and valid :: "'r \<Rightarrow> bool"
  assumes covered_inj: "valid r \<Longrightarrow> valid r' \<Longrightarrow> covered p r = covered q r' \<Longrightarrow> p = q \<and> body r = body r'"
begin

definition link :: "'h \<Rightarrow> 'r \<Rightarrow> 'h" where
  "link p r = digest (covered p r)"

definition collision :: "'t \<Rightarrow> 't \<Rightarrow> bool" where
  "collision x y = (x \<noteq> y \<and> digest x = digest y)"

lemma link_eqD: "valid r \<Longrightarrow> valid r' \<Longrightarrow> link p r = link q r' \<Longrightarrow> p = q \<and> body r = body r' \<or> collision (covered p r) (covered q r')"
  using covered_inj [of r r' p q] by (auto simp: link_def collision_def)

lemma same_end_same_log:
  assumes "length rs = length qs" "chain_from link p rs = chain_from link p' qs" "list_all valid rs" "list_all valid qs"
  shows "p = p' \<and> map body rs = map body qs
    \<or> (\<exists>i < length rs. collision (chain_texts covered digest p rs ! i) (chain_texts covered digest p' qs ! i))"
  using assms
proof (induction rs qs arbitrary: p p' rule: list_induct2)
  case (Cons r rs q qs)
  from Cons.IH [of "link p r" "link p' q"] Cons.prems
  consider "link p r = link p' q" "map body rs = map body qs"
    | i where "i < length rs" "collision (chain_texts covered digest (link p r) rs ! i) (chain_texts covered digest (link p' q) qs ! i)"
    by auto
  then show ?case
  proof cases
    case 1
    with link_eqD [of r q p p'] Cons.prems(2,3) show ?thesis by force
  next
    case (2 i)
    then have "Suc i < length (r # rs)"
      "collision (chain_texts covered digest p (r # rs) ! Suc i) (chain_texts covered digest p' (q # qs) ! Suc i)"
      by (simp_all add: link_def)
    then show ?thesis by blast
  qed
qed simp

end

end
