(* ===== verification/Accounting.thy ===== *)
theory Accounting
  imports Contracts Machines
begin

section \<open>The cash ledger\<close>

text \<open>
  \<^verbatim>\<open>research/rea_engines/accounting.py\<close>. The record is the \<^verbatim>\<open>Ledger\<close> object;
  every operation takes its arguments as Python values, checks them with \<open>as_decimal\<close> in the
  order of the code, and either returns the new ledger or the exception, before which the
  object has not been touched. The lemmas: a well-formed ledger stays well formed (no negative
  cash, no short position, inventory within its limit), every guard, and the refinement of
  the decimal ledger to a ledger of rational numbers as long as nothing is rounded, which gives
  the reconciliation the class documents.
\<close>

subsection \<open>State and operations\<close>

record ledger =
  starting_cash :: dec
  max_inventory :: dec
  max_fill_qty :: dec
  cash :: dec
  inventory_qty :: dec
  cost_basis :: dec
  realized_pnl :: dec
  total_fees :: dec
  total_spread :: dec
  total_slippage :: dec
  turnover :: dec

record ledger_operation =
  op_qty :: dec
  op_price :: dec
  op_notional :: dec
  op_fee :: dec
  op_spread :: dec
  op_slippage :: dec
  op_allocated :: dec
  op_realized :: dec

definition total_costs :: "ledger_operation \<Rightarrow> dec" where
  "total_costs op = dadd (dadd (op_fee op) (op_spread op)) (op_slippage op)"

definition new_ledger :: "pyval \<Rightarrow> pyval \<Rightarrow> pyval \<Rightarrow> ledger res" where
  "new_ledger cash0 max_inv max_fill =
     rbind (as_decimal cash0 ''starting_cash'' True False) (\<lambda>c.
     rbind (as_decimal max_inv ''max_inventory'' True False) (\<lambda>mi.
     rbind (as_decimal max_fill ''max_fill_qty'' True False) (\<lambda>mf.
       Inr \<lparr>starting_cash = c, max_inventory = mi, max_fill_qty = mf, cash = c,
            inventory_qty = dzero, cost_basis = dzero, realized_pnl = dzero, total_fees = dzero,
            total_spread = dzero, total_slippage = dzero, turnover = dzero\<rparr>)))"

definition operation_values ::
    "ledger \<Rightarrow> pyval \<Rightarrow> pyval \<Rightarrow> pyval \<Rightarrow> pyval \<Rightarrow> pyval \<Rightarrow> (dec \<times> dec \<times> dec \<times> dec \<times> dec \<times> dec) res"
  where
  "operation_values l quantity price fee spread slip =
     rbind (as_decimal quantity ''quantity'' True False) (\<lambda>qty.
     rbind (as_decimal price ''price'' True False) (\<lambda>px.
     rbind (as_decimal fee ''fee'' False True) (\<lambda>fv.
     rbind (as_decimal spread ''spread_cost'' False True) (\<lambda>sv.
     rbind (as_decimal slip ''slippage_cost'' False True) (\<lambda>lv.
       if dlt (max_fill_qty l) qty then Inl (ValueError ''quantity exceeds max_fill_qty'')
       else Inr (qty, px, dmul qty px, fv, sv, lv))))))"

definition ledger_buy ::
    "ledger \<Rightarrow> pyval \<Rightarrow> pyval \<Rightarrow> pyval \<Rightarrow> pyval \<Rightarrow> pyval \<Rightarrow> (ledger \<times> ledger_operation) res" where
  "ledger_buy l quantity price fee spread slip =
     rbind (operation_values l quantity price fee spread slip) (\<lambda>(qty, px, notional, fv, sv, lv).
       if dlt (max_inventory l) (dadd (inventory_qty l) qty)
         then Inl (ValueError ''buy would exceed max_inventory'')
       else let costs = dadd (dadd fv sv) lv; debit = dadd notional costs
            in if dlt (cash l) debit
               then Inl (ValueError ''insufficient cash for buy including modeled costs'')
               else Inr (l\<lparr>cash := dsub (cash l) debit,
                           inventory_qty := dadd (inventory_qty l) qty,
                           cost_basis := dadd (cost_basis l) debit,
                           total_fees := dadd (total_fees l) fv,
                           total_spread := dadd (total_spread l) sv,
                           total_slippage := dadd (total_slippage l) lv,
                           turnover := dadd (turnover l) notional\<rparr>,
                         \<lparr>op_qty = qty, op_price = px, op_notional = notional, op_fee = fv,
                          op_spread = sv, op_slippage = lv, op_allocated = dzero,
                          op_realized = dzero\<rparr>))"

definition ledger_sell ::
    "ledger \<Rightarrow> pyval \<Rightarrow> pyval \<Rightarrow> pyval \<Rightarrow> pyval \<Rightarrow> pyval \<Rightarrow> (ledger \<times> ledger_operation) res" where
  "ledger_sell l quantity price fee spread slip =
     rbind (operation_values l quantity price fee spread slip) (\<lambda>(qty, px, notional, fv, sv, lv).
       if dlt (inventory_qty l) qty then Inl (ValueError ''sell would create a short position'')
       else let costs = dadd (dadd fv sv) lv
            in if dlt notional costs then Inl (ValueError ''sale costs exceed gross proceeds'')
               else let net = dsub notional costs
                    in if dlt (dadd (cash l) net) dzero
                       then Inl (ValueError ''sale would create negative cash'')
                       else rbind (if deq qty (inventory_qty l) then Inr (cost_basis l)
                                   else ddiv (dmul (cost_basis l) qty) (inventory_qty l)) (\<lambda>alloc.
                         let realized = dsub net alloc; inv = dsub (inventory_qty l) qty;
                             basis = dsub (cost_basis l) alloc
                         in Inr (l\<lparr>cash := dadd (cash l) net,
                                   inventory_qty := inv,
                                   cost_basis := (if deq inv dzero then dzero else basis),
                                   realized_pnl := dadd (realized_pnl l) realized,
                                   total_fees := dadd (total_fees l) fv,
                                   total_spread := dadd (total_spread l) sv,
                                   total_slippage := dadd (total_slippage l) lv,
                                   turnover := dadd (turnover l) notional\<rparr>,
                                 \<lparr>op_qty = qty, op_price = px, op_notional = notional, op_fee = fv,
                                  op_spread = sv, op_slippage = lv, op_allocated = alloc,
                                  op_realized = realized\<rparr>)))"

definition average_entry_price :: "ledger \<Rightarrow> dec res" where
  "average_entry_price l =
     (if deq (inventory_qty l) dzero then Inr dzero else ddiv (cost_basis l) (inventory_qty l))"

definition equity :: "ledger \<Rightarrow> pyval \<Rightarrow> dec res" where
  "equity l mark_price =
     rbind (as_decimal mark_price ''mark_price'' True False) (\<lambda>mark.
       Inr (dadd (cash l) (dmul (inventory_qty l) mark)))"

definition unrealized_pnl :: "ledger \<Rightarrow> pyval \<Rightarrow> dec res" where
  "unrealized_pnl l mark_price =
     rbind (as_decimal mark_price ''mark_price'' True False) (\<lambda>mark.
       Inr (dsub (dmul (inventory_qty l) mark) (cost_basis l)))"

definition ledger_snapshot :: "ledger \<Rightarrow> pyval \<Rightarrow> snapshot res" where
  "ledger_snapshot l mark_price =
     rbind (as_decimal mark_price ''mark_price'' True False) (\<lambda>mark.
     rbind (average_entry_price l) (\<lambda>avg.
     rbind (unrealized_pnl l (VDec mark)) (\<lambda>unreal.
     rbind (equity l (VDec mark)) (\<lambda>eq.
       Inr \<lparr>s_cash = cash l, s_inventory = inventory_qty l, s_avg_entry = avg,
            s_realized = realized_pnl l, s_unrealized = unreal, s_equity = eq,
            s_fees = total_fees l, s_spread = total_spread l, s_slippage = total_slippage l,
            s_turnover = turnover l\<rparr>))))"

definition metrics_snapshot :: "ledger \<Rightarrow> pyval \<Rightarrow> (string \<times> string) list res" where
  "metrics_snapshot l mark_price =
     rbind (ledger_snapshot l mark_price) (\<lambda>s.
       Inr [(''starting_cash'', dec_str (starting_cash l)), (''cash'', dec_str (s_cash s)),
            (''inventory_qty'', dec_str (s_inventory s)),
            (''average_entry_price'', dec_str (s_avg_entry s)), (''equity'', dec_str (s_equity s)),
            (''realized_pnl'', dec_str (s_realized s)),
            (''unrealized_pnl'', dec_str (s_unrealized s)),
            (''net_pnl'', dec_str (dsub (s_equity s) (starting_cash l))),
            (''total_fees'', dec_str (s_fees s)), (''total_spread_cost'', dec_str (s_spread s)),
            (''total_slippage_cost'', dec_str (s_slippage s)), (''turnover'', dec_str (s_turnover s))])"

subsection \<open>The invariant\<close>

definition ledger_ok :: "ledger \<Rightarrow> bool" where
  "ledger_ok l =
     (0 < dval (starting_cash l) \<and> 0 \<le> dval (cash l)
      \<and> 0 \<le> dval (inventory_qty l) \<and> dval (inventory_qty l) \<le> dval (max_inventory l)
      \<and> fits (inventory_qty l)
      \<and> 0 \<le> dval (total_fees l) \<and> 0 \<le> dval (total_spread l) \<and> 0 \<le> dval (total_slippage l)
      \<and> 0 \<le> dval (turnover l)
      \<and> (dval (inventory_qty l) = 0 \<longrightarrow> dval (cost_basis l) = 0))"

lemma new_ledger_ok: "new_ledger c m f = Inr l \<Longrightarrow> ledger_ok l"
  by (auto simp: new_ledger_def ledger_ok_def res_simps dest!: as_decimal_Inr)

text \<open>What the shared argument check returns.\<close>

lemma operation_values_Inr:
  assumes "operation_values l q p f s sl = Inr (qty, px, notional, fv, sv, lv)"
  shows "0 < dval qty" "0 < dval px" "0 \<le> dval fv" "0 \<le> dval sv" "0 \<le> dval lv"
    "dval qty \<le> dval (max_fill_qty l)" "notional = dmul qty px" "0 < dval notional"
  using assms
  by (auto simp: operation_values_def res_simps dlt_iff dmul_pos dest!: as_decimal_Inr split: if_splits)

lemma operation_values_cong:
  "max_fill_qty l = max_fill_qty l' \<Longrightarrow> operation_values l = operation_values l'"
  by (intro ext) (simp add: operation_values_def)

text \<open>A successful operation, as one equation.\<close>

lemma ledger_buy_Inr:
  assumes "ledger_buy l q p f s sl = Inr (l', op)"
  obtains qty px notional fv sv lv debit where
    "operation_values l q p f s sl = Inr (qty, px, notional, fv, sv, lv)"
    "debit = dadd notional (dadd (dadd fv sv) lv)" "dval debit \<le> dval (cash l)"
    "dval (dadd (inventory_qty l) qty) \<le> dval (max_inventory l)"
    "l' = l\<lparr>cash := dsub (cash l) debit, inventory_qty := dadd (inventory_qty l) qty,
             cost_basis := dadd (cost_basis l) debit, total_fees := dadd (total_fees l) fv,
             total_spread := dadd (total_spread l) sv, total_slippage := dadd (total_slippage l) lv,
             turnover := dadd (turnover l) notional\<rparr>"
    "op = \<lparr>op_qty = qty, op_price = px, op_notional = notional, op_fee = fv, op_spread = sv,
           op_slippage = lv, op_allocated = dzero, op_realized = dzero\<rparr>"
  using assms
  by (auto simp: ledger_buy_def res_simps Let_def dlt_iff not_less split: if_splits prod.splits)

lemma ledger_sell_Inr:
  assumes "ledger_sell l q p f s sl = Inr (l', op)"
  obtains qty px notional fv sv lv net alloc where
    "operation_values l q p f s sl = Inr (qty, px, notional, fv, sv, lv)"
    "net = dsub notional (dadd (dadd fv sv) lv)" "dval (dadd (dadd fv sv) lv) \<le> dval notional"
    "dval qty \<le> dval (inventory_qty l)" "0 \<le> dval (dadd (cash l) net)"
    "alloc = (if dval qty = dval (inventory_qty l) then cost_basis l
              else dquot (dmul (cost_basis l) qty) (inventory_qty l))"
    "l' = l\<lparr>cash := dadd (cash l) net, inventory_qty := dsub (inventory_qty l) qty,
             cost_basis := (if deq (dsub (inventory_qty l) qty) dzero then dzero
                            else dsub (cost_basis l) alloc),
             realized_pnl := dadd (realized_pnl l) (dsub net alloc),
             total_fees := dadd (total_fees l) fv,
             total_spread := dadd (total_spread l) sv, total_slippage := dadd (total_slippage l) lv,
             turnover := dadd (turnover l) notional\<rparr>"
    "op = \<lparr>op_qty = qty, op_price = px, op_notional = notional, op_fee = fv, op_spread = sv,
           op_slippage = lv, op_allocated = alloc, op_realized = dsub net alloc\<rparr>"
proof -
  from assms obtain qty px notional fv sv lv where
    v: "operation_values l q p f s sl = Inr (qty, px, notional, fv, sv, lv)"
    by (auto simp: ledger_sell_def res_simps)
  note pos = operation_values_Inr [OF v]
  from assms v have short: "dval qty \<le> dval (inventory_qty l)"
    by (auto simp: ledger_sell_def dlt_iff split: if_splits)
  with pos have "dcoef (inventory_qty l) \<noteq> 0" by (metis dval_zero_iff leD)
  with assms v show thesis
    by (intro that [OF v refl _ short _ refl])
      (auto simp: ledger_sell_def res_simps Let_def dlt_iff deq_iff ddiv_def split: if_splits)
qed

lemma ledger_buy_ok: "ledger_ok l \<Longrightarrow> ledger_buy l q p f s sl = Inr (l', op) \<Longrightarrow> ledger_ok l'"
proof (elim ledger_buy_Inr, goal_cases)
  case (1 qty px notional fv sv lv debit)
  note pos = operation_values_Inr [OF 1(2)]
  have "0 < dval (dadd (inventory_qty l) qty)"
    using 1 pos by (intro dadd_pos) (auto simp: ledger_ok_def)
  then show ?case
    using 1 pos by (auto simp: ledger_ok_def intro!: dadd_nonneg dsub_nonneg)
qed

lemma ledger_sell_ok: "ledger_ok l \<Longrightarrow> ledger_sell l q p f s sl = Inr (l', op) \<Longrightarrow> ledger_ok l'"
proof (elim ledger_sell_Inr, goal_cases)
  case (1 qty px notional fv sv lv net alloc)
  note pos = operation_values_Inr [OF 1(2)]
  have "dval (dsub (inventory_qty l) qty) \<le> dval (inventory_qty l)"
    using 1 pos by (intro dsub_le_fits) (auto simp: ledger_ok_def)
  then show ?case
    using 1 pos by (auto simp: ledger_ok_def deq_iff intro!: dadd_nonneg dsub_nonneg)
qed

subsection \<open>Runs of the ledger\<close>

text \<open>An operation of the ledger with its arguments, as the replay and any caller make it.\<close>

datatype ledger_event = Buy pyval pyval pyval pyval pyval | Sell pyval pyval pyval pyval pyval

fun ledger_step :: "ledger \<Rightarrow> ledger_event \<Rightarrow> ledger res" where
  "ledger_step l (Buy q p f s sl) = rbind (ledger_buy l q p f s sl) (\<lambda>(l', op). Inr l')"
| "ledger_step l (Sell q p f s sl) = rbind (ledger_sell l q p f s sl) (\<lambda>(l', op). Inr l')"

lemma ledger_step_ok: "ledger_ok l \<Longrightarrow> ledger_step l e = Inr l' \<Longrightarrow> ledger_ok l'"
  by (cases e) (auto simp: res_simps intro: ledger_buy_ok ledger_sell_ok)

interpretation lm: machine ledger_step ledger_ok
  by unfold_locales (rule ledger_step_ok)

subsection \<open>The abstract ledger\<close>

text \<open>
  What the class promises, over rational numbers: no rounding, entry costs capitalised into the
  basis and allocated pro rata as units are sold.
\<close>

record book =
  bk_max_inv :: rat
  bk_cash :: rat
  bk_inv :: rat
  bk_basis :: rat
  bk_realized :: rat
  bk_turnover :: rat

datatype book_event = BBuy rat rat rat | BSell rat rat rat

fun book_step :: "book \<Rightarrow> book_event \<Rightarrow> book option" where
  "book_step b (BBuy q p c) =
     (if bk_max_inv b < bk_inv b + q \<or> bk_cash b < q * p + c then None
      else Some (b\<lparr>bk_cash := bk_cash b - (q * p + c), bk_inv := bk_inv b + q,
                   bk_basis := bk_basis b + (q * p + c), bk_turnover := bk_turnover b + q * p\<rparr>))"
| "book_step b (BSell q p c) =
     (if bk_inv b < q \<or> q * p < c then None
      else let alloc = bk_basis b * q / bk_inv b
           in Some (b\<lparr>bk_cash := bk_cash b + (q * p - c), bk_inv := bk_inv b - q,
                      bk_basis := bk_basis b - alloc,
                      bk_realized := bk_realized b + (q * p - c - alloc),
                      bk_turnover := bk_turnover b + q * p\<rparr>))"

definition book_of :: "ledger \<Rightarrow> book" where
  "book_of l = \<lparr>bk_max_inv = dval (max_inventory l), bk_cash = dval (cash l),
     bk_inv = dval (inventory_qty l), bk_basis = dval (cost_basis l),
     bk_realized = dval (realized_pnl l), bk_turnover = dval (turnover l)\<rparr>"

text \<open>An operation of the machine arithmetic that does not round.\<close>

definition exact_add :: "dec \<Rightarrow> dec \<Rightarrow> bool" where "exact_add a b = deq (dadd a b) (exact_sum a b)"
definition exact_sub :: "dec \<Rightarrow> dec \<Rightarrow> bool" where "exact_sub a b = deq (dsub a b) (exact_sum a (dneg_copy b))"
definition exact_mul :: "dec \<Rightarrow> dec \<Rightarrow> bool" where "exact_mul a b = deq (dmul a b) (exact_prod a b)"
definition exact_quot :: "dec \<Rightarrow> dec \<Rightarrow> bool" where
  "exact_quot a b = (dcoef b \<noteq> 0 \<and> deq (exact_prod (dquot a b) b) a)"

lemma exact_defs:
  "exact_add a b \<longleftrightarrow> dval (dadd a b) = dval a + dval b"
  "exact_sub a b \<longleftrightarrow> dval (dsub a b) = dval a - dval b"
  "exact_mul a b \<longleftrightarrow> dval (dmul a b) = dval a * dval b"
  by (simp_all add: exact_add_def exact_sub_def exact_mul_def deq_iff)

lemma exact_quot_val: "exact_quot a b \<Longrightarrow> dval (dquot a b) = dval a / dval b"
  by (auto simp: exact_quot_def deq_iff dval_zero_iff [symmetric] field_simps)
fun event_values ::
  "ledger \<Rightarrow> ledger_event \<Rightarrow> (dec \<times> dec \<times> dec \<times> dec \<times> dec \<times> dec) res" where
  "event_values l (Buy q p f s sl) = operation_values l q p f s sl"
| "event_values l (Sell q p f s sl) = operation_values l q p f s sl"

fun is_buy :: "ledger_event \<Rightarrow> bool" where
  "is_buy (Buy q p f s sl) = True"
| "is_buy (Sell q p f s sl) = False"

definition exact_values :: "ledger \<Rightarrow> bool \<Rightarrow> dec \<Rightarrow> dec \<Rightarrow> dec \<Rightarrow> dec \<Rightarrow> dec \<Rightarrow> bool" where
  "exact_values l buy qty px fv sv lv =
     (let notional = dmul qty px; costs = dadd (dadd fv sv) lv; debit = dadd notional costs;
          net = dsub notional costs; product = dmul (cost_basis l) qty;
          alloc = (if deq qty (inventory_qty l) then cost_basis l else dquot product (inventory_qty l))
      in exact_mul qty px \<and> exact_add fv sv \<and> exact_add (dadd fv sv) lv \<and> exact_add (turnover l) notional
         \<and> (if buy then exact_add notional costs \<and> exact_sub (cash l) debit \<and> exact_add (inventory_qty l) qty
                        \<and> exact_add (cost_basis l) debit
            else exact_sub notional costs \<and> exact_add (cash l) net \<and> exact_sub (inventory_qty l) qty
                 \<and> (deq qty (inventory_qty l) \<or> exact_mul (cost_basis l) qty \<and> exact_quot product (inventory_qty l))
                 \<and> exact_sub (cost_basis l) alloc \<and> exact_sub net alloc
                 \<and> exact_add (realized_pnl l) (dsub net alloc)))"

definition exact_event :: "ledger \<Rightarrow> ledger_event \<Rightarrow> bool" where
  "exact_event l e =
     (case event_values l e of Inl _ \<Rightarrow> True
      | Inr (qty, px, notional, fv, sv, lv) \<Rightarrow> exact_values l (is_buy e) qty px fv sv lv)"

definition book_event :: "ledger \<Rightarrow> ledger_event \<Rightarrow> book_event option" where
  "book_event l e =
     (case event_values l e of Inl _ \<Rightarrow> None
      | Inr (qty, px, notional, fv, sv, lv) \<Rightarrow>
          Some ((if is_buy e then BBuy else BSell) (dval qty) (dval px) (dval fv + dval sv + dval lv)))"

definition opt_bind :: "'a option \<Rightarrow> ('a \<Rightarrow> 'b option) \<Rightarrow> 'b option" where
  "opt_bind m f = (case m of None \<Rightarrow> None | Some x \<Rightarrow> f x)"

definition ok_option :: "'a res \<Rightarrow> 'a option" where
  "ok_option m = (case m of Inl _ \<Rightarrow> None | Inr x \<Rightarrow> Some x)"

lemma ok_option_simps [simp]: "ok_option (Inl e) = None" "ok_option (Inr x) = Some x"
  by (simp_all add: ok_option_def)

lemma exact_values_buy:
  assumes "exact_values l True qty px fv sv lv"
  shows "exact_mul qty px" "exact_add fv sv" "exact_add (dadd fv sv) lv" "exact_add (turnover l) (dmul qty px)"
    "exact_add (dmul qty px) (dadd (dadd fv sv) lv)"
    "exact_sub (cash l) (dadd (dmul qty px) (dadd (dadd fv sv) lv))" "exact_add (inventory_qty l) qty"
    "exact_add (cost_basis l) (dadd (dmul qty px) (dadd (dadd fv sv) lv))"
  using assms unfolding exact_values_def Let_def by simp_all

lemma buy_refines:
  assumes v: "operation_values l q p f s sl = Inr (qty, px, n, fv, sv, lv)"
    and ex: "exact_values l True qty px fv sv lv"
  shows "map_option book_of (ok_option (ledger_step l (Buy q p f s sl)))
    = book_step (book_of l) (BBuy (dval qty) (dval px) (dval fv + dval sv + dval lv))"
proof -
  have n: "n = dmul qty px" using operation_values_Inr [OF v] by simp
  note vals = exact_values_buy [OF ex, unfolded exact_defs]
  show ?thesis
    unfolding ledger_step.simps ledger_buy_def v n
    by (simp add: Let_def dlt_iff book_of_def vals)
qed

abbreviation alloc_of :: "ledger \<Rightarrow> dec \<Rightarrow> dec" where
  "alloc_of l qty \<equiv>
     (if deq qty (inventory_qty l) then cost_basis l
      else dquot (dmul (cost_basis l) qty) (inventory_qty l))"

lemma exact_values_sell:
  assumes "exact_values l False qty px fv sv lv"
  shows "exact_mul qty px" "exact_add fv sv" "exact_add (dadd fv sv) lv" "exact_add (turnover l) (dmul qty px)"
    "exact_sub (dmul qty px) (dadd (dadd fv sv) lv)"
    "exact_add (cash l) (dsub (dmul qty px) (dadd (dadd fv sv) lv))" "exact_sub (inventory_qty l) qty"
    "exact_sub (cost_basis l) (alloc_of l qty)"
    "exact_sub (dsub (dmul qty px) (dadd (dadd fv sv) lv)) (alloc_of l qty)"
    "exact_add (realized_pnl l) (dsub (dsub (dmul qty px) (dadd (dadd fv sv) lv)) (alloc_of l qty))"
    "deq qty (inventory_qty l) \<or>
       exact_mul (cost_basis l) qty \<and> exact_quot (dmul (cost_basis l) qty) (inventory_qty l)"
  using assms unfolding exact_values_def Let_def by simp_all

lemma alloc_exact:
  assumes "exact_values l False qty px fv sv lv" "0 < dval qty"
  shows "dval (alloc_of l qty) = dval (cost_basis l) * dval qty / dval (inventory_qty l)"
  using exact_values_sell(11) [OF assms(1)] assms(2) by (auto simp: exact_defs deq_iff dest: exact_quot_val)

lemma sell_refines:
  assumes ok: "ledger_ok l" and v: "operation_values l q p f s sl = Inr (qty, px, n, fv, sv, lv)"
    and ex: "exact_values l False qty px fv sv lv"
  shows "map_option book_of (ok_option (ledger_step l (Sell q p f s sl)))
    = book_step (book_of l) (BSell (dval qty) (dval px) (dval fv + dval sv + dval lv))"
proof -
  have n: "n = dmul qty px" and q: "0 < dval qty" using operation_values_Inr [OF v] by simp_all
  note vals = exact_values_sell(1-10) [OF ex, unfolded exact_defs] alloc_exact [OF ex q]
  define alloc where "alloc = alloc_of l qty"
  have a: "(if deq qty (inventory_qty l) then Inr (cost_basis l)
            else ddiv (dmul (cost_basis l) qty) (inventory_qty l)) = Inr alloc"
    if "dval qty \<le> dval (inventory_qty l)"
    using that q by (auto simp: alloc_def ddiv_def dval_zero_iff [symmetric])
  note vals' = vals [folded alloc_def]
  have inv_pos: "dval qty \<le> dval (inventory_qty l) \<Longrightarrow> dval (inventory_qty l) \<noteq> 0" using q by simp
  have cash: "\<not> dval (cash l) + (dval qty * dval px - (dval fv + dval sv + dval lv)) < 0"
    if "dval fv + dval sv + dval lv \<le> dval qty * dval px"
    using that ok by (simp add: ledger_ok_def)
  have basis: "dval (if deq (dsub (inventory_qty l) qty) dzero then dzero else dsub (cost_basis l) alloc)
      = dval (cost_basis l) - dval (cost_basis l) * dval qty / dval (inventory_qty l)"
    if "dval qty \<le> dval (inventory_qty l)"
    using inv_pos [OF that] by (simp add: deq_iff vals')
  show ?thesis
    unfolding ledger_step.simps ledger_sell_def v n rbind.simps prod.case
    by (simp add: Let_def dlt_iff vals' a cash basis book_of_def not_less)
qed

text \<open>One step, whatever it is: a call with bad arguments is refused on both sides.\<close>

definition book_try :: "book \<Rightarrow> book_event option \<Rightarrow> book" where
  "book_try b e = (case opt_bind e (book_step b) of None \<Rightarrow> b | Some b' \<Rightarrow> b')"

lemma step_refines:
  assumes "ledger_ok l" "exact_event l e"
  shows "book_of (try_step ledger_step l e) = book_try (book_of l) (book_event l e)"
proof -
  have bad: "event_values l e = Inl x \<Longrightarrow> \<exists>y. ledger_step l e = Inl y" for x
    by (cases e) (simp_all add: ledger_buy_def ledger_sell_def)
  show ?thesis
  proof (cases "event_values l e")
    case (Inl x)
    with bad show ?thesis by (auto simp: book_event_def opt_bind_def book_try_def try_step_def)
  next
    case (Inr vs)
    obtain qty px n fv sv lv where vs: "vs = (qty, px, n, fv, sv, lv)" by (cases vs)
    have "map_option book_of (ok_option (ledger_step l e))
        = opt_bind (book_event l e) (book_step (book_of l))"
      using assms Inr vs buy_refines sell_refines
      by (cases e) (auto simp: exact_event_def book_event_def opt_bind_def)
    then show ?thesis
      by (cases "ledger_step l e") (auto simp: book_try_def try_step_def dest: sym)
  qed
qed

fun exact_run :: "ledger \<Rightarrow> ledger_event list \<Rightarrow> bool" where
  "exact_run l [] = True"
| "exact_run l (e # es) = (exact_event l e \<and> exact_run (try_step ledger_step l e) es)"

fun book_events :: "ledger \<Rightarrow> ledger_event list \<Rightarrow> book_event option list" where
  "book_events l [] = []"
| "book_events l (e # es) = book_event l e # book_events (try_step ledger_step l e) es"

lemma run_refines:
  assumes "ledger_ok l" "exact_run l es"
  shows "book_of (foldl (try_step ledger_step) l es) = foldl book_try (book_of l) (book_events l es)"
  using assms
proof (induction es arbitrary: l)
  case (Cons e es)
  then show ?case using step_refines lm.try_good by simp
qed simp

text \<open>The books always reconcile: what is realized plus what is unrealized is the change of equity.\<close>

definition reconciles :: "rat \<Rightarrow> book \<Rightarrow> bool" where
  "reconciles start b = (bk_realized b - bk_basis b = bk_cash b - start)"

lemma book_try_reconciles: "reconciles start b \<Longrightarrow> reconciles start (book_try b e)"
proof -
  have "book_step b x = Some b' \<Longrightarrow> reconciles start b \<Longrightarrow> reconciles start b'" for x b'
    by (cases x) (auto simp: reconciles_def Let_def split: if_splits)
  then show "reconciles start b \<Longrightarrow> reconciles start (book_try b e)"
    by (auto simp: book_try_def opt_bind_def split: option.splits)
qed

lemma books_reconcile: "reconciles start b \<Longrightarrow> reconciles start (foldl book_try b es)"
  by (induction es arbitrary: b) (simp_all add: book_try_reconciles)

subsection \<open>Properties\<close>

definition demo_ledger :: ledger where
  "demo_ledger = \<lparr>starting_cash = dec_of_int 1000, max_inventory = dec_of_int 10,
     max_fill_qty = dec_of_int 5, cash = dec_of_int 1000, inventory_qty = dzero, cost_basis = dzero,
     realized_pnl = dzero, total_fees = dzero, total_spread = dzero, total_slippage = dzero,
     turnover = dzero\<rparr>"

definition demo_events :: "ledger_event list" where
  "demo_events =
     [Buy (VDec (dec_of_int 4)) (VDec (dec_of_int 100)) (VDec done1) (VDec dzero) (VDec dzero),
      Buy (VDec (dec_of_int 5)) (VDec (dec_of_int 200)) (VDec done1) (VDec dzero) (VDec dzero),
      Sell (VDec (dec_of_int 1)) (VDec (Dec False 1205 (- 1))) (VDec done1) (VDec dzero) (VDec dzero),
      Sell (VDec (dec_of_int 5)) (VDec done1) (VDec dzero) (VDec dzero) (VDec dzero)]"

lemma demo_ledger_new: "new_ledger (VInt 1000) (VInt 10) (VInt 5) = Inr demo_ledger"
  by code_simp

lemmas ledger_eval = dec_eval try_step_def ledger_buy_def ledger_sell_def operation_values_def
  exact_event_def exact_values_def exact_add_def exact_sub_def exact_mul_def exact_quot_def

lemma demo_exact: "exact_run demo_ledger demo_events"
  by (simp add: ledger_eval demo_ledger_def demo_events_def cong: rbind_weak_cong)

text \<open>C1: Whatever operations a caller attempts on a new ledger, accepted or refused, the ledger
  never has negative cash, never holds a short position, never exceeds its inventory limit, and
  its cost counters never become negative.\<close>

theorem ledger_never_overdrawn:
  assumes "new_ledger cash0 max_inv max_fill = Inr l0"
  shows "let l = foldl (try_step ledger_step) l0 es
    in 0 \<le> dval (cash l) \<and> 0 \<le> dval (inventory_qty l)
       \<and> dval (inventory_qty l) \<le> dval (max_inventory l)
       \<and> 0 \<le> dval (total_fees l) \<and> 0 \<le> dval (total_spread l) \<and> 0 \<le> dval (total_slippage l)
       \<and> (dval (inventory_qty l) = 0 \<longrightarrow> dval (cost_basis l) = 0)"
  using lm.tries_good [OF new_ledger_ok [OF assms], of es] by (simp add: ledger_ok_def Let_def)

theorem ledger_never_overdrawn_witness:
  "0 \<le> dval (cash (foldl (try_step ledger_step) demo_ledger demo_events))"
  using ledger_never_overdrawn [OF demo_ledger_new, of demo_events] by (simp add: Let_def)

text \<open>C2: The decimal ledger implements the ledger of rational numbers: as long as no operation
  rounds, running the operations on the decimals and reading the numbers off gives what the
  abstract ledger gives, with the same operations refused.\<close>

theorem ledger_refines_book:
  assumes "ledger_ok l" "exact_run l es"
  shows "book_of (foldl (try_step ledger_step) l es) = foldl book_try (book_of l) (book_events l es)"
  using assms by (rule run_refines)

theorem ledger_refines_book_witness:
  "book_of (foldl (try_step ledger_step) demo_ledger demo_events)
    = foldl book_try (book_of demo_ledger) (book_events demo_ledger demo_events)"
  by (rule ledger_refines_book [OF new_ledger_ok [OF demo_ledger_new] demo_exact])

text \<open>Profit and loss reconcile as the class documents: as long as no operation rounds, realized
  plus unrealized profit is equity minus starting cash at every mark price, so fees, spread and
  slippage are never deducted twice.\<close>

theorem ledger_pnl_reconciles:
  assumes new: "new_ledger cash0 max_inv max_fill = Inr l0" and ex: "exact_run l0 es"
    and l: "l = foldl (try_step ledger_step) l0 es"
  shows "dval (realized_pnl l) + (dval (inventory_qty l) * mark - dval (cost_basis l))
    = dval (cash l) + dval (inventory_qty l) * mark - dval (starting_cash l0)"
proof -
  have "reconciles (dval (starting_cash l0)) (book_of l0)"
    using new by (auto simp: new_ledger_def res_simps reconciles_def book_of_def)
  then have "reconciles (dval (starting_cash l0)) (foldl book_try (book_of l0) (book_events l0 es))"
    by (rule books_reconcile)
  also have "foldl book_try (book_of l0) (book_events l0 es) = book_of l"
    using run_refines [OF new_ledger_ok [OF new] ex] l by simp
  finally show ?thesis by (simp add: reconciles_def book_of_def)
qed

theorem ledger_pnl_reconciles_witness:
  "let l = foldl (try_step ledger_step) demo_ledger demo_events
   in dval (realized_pnl l) + (dval (inventory_qty l) * 150 - dval (cost_basis l))
      = dval (cash l) + dval (inventory_qty l) * 150 - 1000"
  using ledger_pnl_reconciles [OF demo_ledger_new demo_exact refl, of 150]
  by (simp add: Let_def demo_ledger_def)

definition rounding_buy :: ledger_event where
  "rounding_buy = Buy (VDec (dec_of_int 3)) (VDec (Dec False 3333333333333333333333333333 (- 28)))
     (VDec dzero) (VDec dzero) (VDec dzero)"

definition rounding_sell :: ledger_event where
  "rounding_sell =
     Sell (VDec (Dec False 2999999999999999999999999999999 (- 30))) (VDec done1) (VDec dzero) (VDec dzero)
       (VDec dzero)"

text \<open>Rounding can make the cost basis negative: after buying 3 units for
  0.9999999999999999999999999999, selling all but 1E-30 of a unit allocates a basis of 1 to the
  sale, which leaves a basis of -1E-28 for the rest.\<close>

theorem negative_cost_basis:
  "rbind (new_ledger (VDec (dec_of_int 1000)) (VDec (dec_of_int 10)) (VDec (dec_of_int 5)))
     (\<lambda>l. rbind (run_steps ledger_step l [rounding_buy, rounding_sell])
       (\<lambda>l'. Inr (inventory_qty l', cost_basis l')))
   = Inr (Dec False 1 (- 30), Dec True 1 (- 28))"
  by (simp add: ledger_eval new_ledger_def rounding_buy_def rounding_sell_def cong: rbind_weak_cong)

end
