(* ===== verification/Strategies.thy ===== *)
theory Strategies
  imports Accounting
begin

section \<open>The clean-room strategies\<close>

text \<open>
  \<^verbatim>\<open>research/rea_engines/strategies.py\<close>: the grid, the dollar-cost-averaging and the
  combined strategy, each as a function of its state, the candle, the portfolio and the open
  orders. The locale \<open>strategy\<close> is the \<^verbatim>\<open>Strategy\<close> protocol of the replay with what the
  replay relies on; it is interpreted for all three.
\<close>

type_synonym 's on_candle = "'s \<Rightarrow> candle \<Rightarrow> snapshot \<Rightarrow> pending_order list \<Rightarrow> ('s \<times> returned) res"

subsection \<open>Grid\<close>

record grid_config =
  lower_price :: dec
  upper_price :: dec
  levels :: int
  quote_per_order :: dec
  g_take_profit :: dec
  g_config_id :: string

definition config_name :: "pyval \<Rightarrow> string res" where
  "config_name v =
     (case v of
        VStr s \<Rightarrow> if strip s = [] then Inl (ValueError ''config_id must be a non-empty string'') else Inr s
      | _ \<Rightarrow> Inl (ValueError ''config_id must be a non-empty string''))"

definition int_at_least :: "int \<Rightarrow> string \<Rightarrow> pyval \<Rightarrow> int res" where
  "int_at_least k msg v =
     (case v of VInt i \<Rightarrow> if i < k then Inl (ValueError msg) else Inr i | _ \<Rightarrow> Inl (ValueError msg))"

definition mk_grid_config ::
    "pyval \<Rightarrow> pyval \<Rightarrow> pyval \<Rightarrow> pyval \<Rightarrow> pyval \<Rightarrow> pyval \<Rightarrow> grid_config res" where
  "mk_grid_config low0 up0 lev quote tp cid =
     rbind (as_decimal low0 ''lower_price'' True False) (\<lambda>lo.
     rbind (as_decimal up0 ''upper_price'' True False) (\<lambda>hi.
     rbind (as_decimal quote ''quote_per_order'' True False) (\<lambda>q.
     rbind (as_decimal tp ''take_profit_pct'' True False) (\<lambda>t.
     rbind (raise_if (dle hi lo) (ValueError ''upper_price must be greater than lower_price'')) (\<lambda>_.
     rbind (int_at_least 2 ''levels must be an integer >= 2'' lev) (\<lambda>n.
     rbind (config_name cid) (\<lambda>name.
       Inr \<lparr>lower_price = lo, upper_price = hi, levels = n, quote_per_order = q,
            g_take_profit = t, g_config_id = name\<rparr>)))))))"

definition limit_order :: "string \<Rightarrow> dec \<Rightarrow> dec \<Rightarrow> string \<Rightarrow> intent res" where
  "limit_order side qty price tag =
     rbind (mk_order_intent (VStr side) (VStr ''limit'') (VDec qty) (VDec price) VNone (VStr tag))
       (\<lambda>i. Inr (Order i))"

definition grid_price :: "grid_config \<Rightarrow> dec \<Rightarrow> int \<Rightarrow> dec" where
  "grid_price cfg step index = dadd (lower_price cfg) (dmul step (dec_of_int index))"

definition grid_on_candle :: "grid_config on_candle" where
  "grid_on_candle cfg candle snap orders =
     (if orders \<noteq> [] then Inr (cfg, RItems [])
      else let quantity = s_inventory snap
      in if dlt dzero quantity
         then rbind (limit_order ''sell'' quantity (dmul (s_avg_entry snap) (dadd done1 (g_take_profit cfg)))
                       ''grid-take-profit'')
                (\<lambda>i. Inr (cfg, RItems [i]))
         else rbind (ddiv (dsub (upper_price cfg) (lower_price cfg)) (dec_of_int (levels cfg - 1))) (\<lambda>step.
           if dle (c_close candle) (lower_price cfg) then Inr (cfg, RItems [])
           else rbind (ddiv (dsub (c_close candle) (lower_price cfg)) step) (\<lambda>raw.
             let index0 = min (levels cfg - 1) (max 0 (int_of_dec raw));
                 price0 = grid_price cfg step index0;
                 below = dle (c_close candle) price0;
                 index = (if below then index0 - 1 else index0);
                 price = (if below then grid_price cfg step index else price0)
             in if index < 0 \<or> dlt price (lower_price cfg) \<or> dlt (upper_price cfg) price
                then Inr (cfg, RItems [])
                else rbind (ddiv (quote_per_order cfg) price) (\<lambda>qty.
                     rbind (limit_order ''buy'' qty price ''grid-entry'') (\<lambda>i.
                       Inr (cfg, RItems [i]))))))"

subsection \<open>Dollar-cost averaging\<close>

record dca_config =
  initial_quote :: dec
  dca_quote :: dec
  adverse_step :: dec
  d_take_profit :: dec
  max_adds :: int
  d_config_id :: string

definition mk_dca_config ::
    "pyval \<Rightarrow> pyval \<Rightarrow> pyval \<Rightarrow> pyval \<Rightarrow> pyval \<Rightarrow> pyval \<Rightarrow> dca_config res" where
  "mk_dca_config initial quote adverse tp n_adds cid =
     rbind (as_decimal initial ''initial_quote'' True False) (\<lambda>i.
     rbind (as_decimal quote ''dca_quote'' True False) (\<lambda>q.
     rbind (as_decimal adverse ''adverse_step_pct'' True False) (\<lambda>a.
     rbind (as_decimal tp ''take_profit_pct'' True False) (\<lambda>t.
     rbind (raise_if (dle done1 a) (ValueError ''adverse_step_pct must be a fraction less than 1'')) (\<lambda>_.
     rbind (int_at_least 0 ''max_adds must be a non-negative integer'' n_adds) (\<lambda>n.
     rbind (config_name cid) (\<lambda>name.
       Inr \<lparr>initial_quote = i, dca_quote = q, adverse_step = a, d_take_profit = t, max_adds = n,
            d_config_id = name\<rparr>)))))))"

record dca_state =
  dca_cfg :: dca_config
  last_inventory :: dec
  add_count :: int

definition new_dca :: "dca_config \<Rightarrow> dca_state" where
  "new_dca cfg = \<lparr>dca_cfg = cfg, last_inventory = dzero, add_count = 0\<rparr>"

definition count_adds :: "dca_state \<Rightarrow> dec \<Rightarrow> dca_state" where
  "count_adds st quantity =
     st\<lparr>add_count := (if dle (last_inventory st) dzero then 0
                      else if dlt (last_inventory st) quantity then add_count st + 1
                      else add_count st),
        last_inventory := quantity\<rparr>"

definition cancel_all :: "string \<Rightarrow> pending_order list \<Rightarrow> intent list res" where
  "cancel_all tag orders =
     rmap (\<lambda>od. rbind (mk_cancel_intent (VStr (po_id od)) (VStr tag)) (\<lambda>i. Inr (Cancel i))) orders"

definition dca_on_candle :: "dca_state on_candle" where
  "dca_on_candle st0 candle snap orders =
     (let cfg = dca_cfg st0; quantity = s_inventory snap; close = c_close candle; avg = s_avg_entry snap
      in if dle quantity dzero
         then let st = st0\<lparr>last_inventory := dzero, add_count := 0\<rparr>
              in if orders \<noteq> [] then Inr (st, RItems [])
                 else rbind (ddiv (initial_quote cfg) close) (\<lambda>qty.
                      rbind (mk_order_intent (VStr ''buy'') (VStr ''market'') (VDec qty) VNone VNone
                               (VStr ''dca-initial'')) (\<lambda>i.
                        Inr (st, RItems [Order i])))
         else
           let st = count_adds st0 quantity;
               buys = filter (\<lambda>od. po_side od = ''buy'') orders;
               sells = filter (\<lambda>od. po_side od = ''sell'') orders;
               target = dmul avg (dadd done1 (d_take_profit cfg));
               add_price = dmul avg (dsub done1 (dmul (adverse_step cfg) (dec_of_int (add_count st + 1))))
           in if dle target close
              then rbind (cancel_all ''dca-take-profit-priority'' buys) (\<lambda>cs.
                   if sells \<noteq> [] then Inr (st, RItems cs)
                   else rbind (limit_order ''sell'' quantity target ''dca-take-profit'') (\<lambda>i.
                          Inr (st, RItems (cs @ [i]))))
              else if add_count st < max_adds cfg \<and> dle close add_price
              then (if buys \<noteq> [] then Inr (st, RItems [])
                    else rbind (cancel_all ''dca-adverse-add-priority'' sells) (\<lambda>cs.
                         rbind (ddiv (dca_quote cfg) add_price) (\<lambda>qty.
                         rbind (limit_order ''buy'' qty add_price
                                  (''dca-add-'' @ show_int (add_count st + 1))) (\<lambda>i.
                           Inr (st, RItems (cs @ [i]))))))
              else if buys \<noteq> [] \<or> sells \<noteq> [] then Inr (st, RItems [])
              else rbind (limit_order ''sell'' quantity target ''dca-take-profit'') (\<lambda>i.
                     Inr (st, RItems [i])))"

subsection \<open>The combined strategy\<close>

record combo_state =
  combo_grid :: grid_config
  combo_dca :: dca_state

definition new_combo :: "grid_config \<Rightarrow> dca_config \<Rightarrow> combo_state" where
  "new_combo g d = \<lparr>combo_grid = g, combo_dca = new_dca d\<rparr>"

definition combo_on_candle :: "combo_state on_candle" where
  "combo_on_candle st candle snap orders =
     (if dle (s_inventory snap) dzero
      then rbind (grid_on_candle (combo_grid st) candle snap orders) (\<lambda>(g, r).
             Inr (st\<lparr>combo_grid := g\<rparr>, r))
      else rbind (dca_on_candle (combo_dca st) candle snap orders) (\<lambda>(d, r).
             Inr (st\<lparr>combo_dca := d\<rparr>, r)))"

subsection \<open>The protocol\<close>

text \<open>
  What the replay may rely on: the result is a sequence of intents, every order in it passed
  the checks of \<^verbatim>\<open>OrderIntent\<close>, and a cancellation names an order that is open.
\<close>

definition intents_ok :: "pending_order list \<Rightarrow> returned \<Rightarrow> bool" where
  "intents_ok orders r =
     (case r of
        RItems is \<Rightarrow> list_all (\<lambda>i. case i of
            Order oi \<Rightarrow> order_intent_ok oi
          | Cancel ci \<Rightarrow> ci_order ci \<in> po_id ` set orders
          | Foreign \<Rightarrow> False) is
      | _ \<Rightarrow> False)"

definition good_intent :: "intent \<Rightarrow> bool" where
  "good_intent i = (case i of Order oi \<Rightarrow> order_intent_ok oi | _ \<Rightarrow> True)"

text \<open>Every \<^verbatim>\<open>OrderIntent\<close> object has passed the checks of its class, whatever the strategy.\<close>

locale intent_source =
  fixes on_candle :: "'s on_candle" and good :: "'s \<Rightarrow> bool"
  assumes good_kept: "good s \<Longrightarrow> on_candle s c p os = Inr (s', r) \<Longrightarrow> good s'"
    and intents_good: "good s \<Longrightarrow> on_candle s c p os = Inr (s', RItems its) \<Longrightarrow> i \<in> set its \<Longrightarrow> good_intent i"

text \<open>The strategies of the lab keep the whole protocol.\<close>

locale strategy =
  fixes on_candle :: "'s on_candle" and good :: "'s \<Rightarrow> bool"
  assumes state_kept: "good s \<Longrightarrow> on_candle s c p os = Inr (s', r) \<Longrightarrow> good s'"
    and returns_ok: "good s \<Longrightarrow> on_candle s c p os = Inr (s', r) \<Longrightarrow> intents_ok os r"
begin

lemma returns_items:
  assumes "good s" "on_candle s c p os = Inr (s', r)"
  obtains its where "r = RItems its" "Foreign \<notin> set its" "\<And>i. Order i \<in> set its \<Longrightarrow> order_intent_ok i"
    "\<And>ci. Cancel ci \<in> set its \<Longrightarrow> ci_order ci \<in> po_id ` set os"
  using returns_ok [OF assms]
  by (cases r) (fastforce simp: intents_ok_def list_all_iff)+

end

sublocale strategy \<subseteq> intent_source on_candle good
  by unfold_locales
    (use state_kept returns_ok in \<open>fastforce simp: intents_ok_def list_all_iff good_intent_def split: intent.splits\<close>)+

lemma limit_order_ok: "limit_order s q p t = Inr i \<Longrightarrow> \<exists>oi. i = Order oi \<and> order_intent_ok oi"
  by (auto simp: limit_order_def res_simps dest: mk_order_intent_ok)

lemma grid_returns_ok: "grid_on_candle cfg c p os = Inr (cfg', r) \<Longrightarrow> cfg' = cfg \<and> intents_ok os r"
  by (auto simp: grid_on_candle_def Let_def res_simps intents_ok_def
      dest!: limit_order_ok split: if_split_asm)

lemma cancel_all_ok:
  "cancel_all t os = Inr its \<Longrightarrow> list_all (\<lambda>i. \<exists>ci. i = Cancel ci \<and> ci_order ci \<in> po_id ` set os) its"
proof (induction os arbitrary: its)
  case (Cons od os)
  then obtain ci js where "mk_cancel_intent (VStr (po_id od)) (VStr t) = Inr ci" "its = Cancel ci # js"
    "cancel_all t os = Inr js"
    by (auto simp: cancel_all_def res_simps)
  with Cons.IH [of js] show ?case
    by (auto simp: mk_cancel_intent_def list_all_iff split: if_splits)
qed (simp add: cancel_all_def)

lemma dca_returns_ok:
  assumes "dca_on_candle st c p os = Inr (st', r)"
  shows "dca_cfg st' = dca_cfg st \<and> intents_ok os r"
proof -
  have sub: "list_all (\<lambda>i. \<exists>ci. i = Cancel ci \<and> ci_order ci \<in> po_id ` set os) its"
    if "cancel_all t (filter P os) = Inr its" for t P its
    using cancel_all_ok [OF that] by (auto simp: list_all_iff)
  show ?thesis
    using assms
    by (auto simp: dca_on_candle_def Let_def res_simps intents_ok_def list_all_iff count_adds_def
        dest!: limit_order_ok mk_order_intent_ok sub split: if_split_asm intent.split)
qed

lemma combo_returns_ok:
  assumes "combo_on_candle st c p os = Inr (st', r)"
  shows "dca_cfg (combo_dca st') = dca_cfg (combo_dca st) \<and> combo_grid st' = combo_grid st
    \<and> intents_ok os r"
  using assms
  by (auto simp: combo_on_candle_def res_simps dest: grid_returns_ok dca_returns_ok split: if_splits)

subsection \<open>What the configurations guarantee\<close>

definition grid_ok :: "grid_config \<Rightarrow> bool" where
  "grid_ok g = (0 < dval (lower_price g) \<and> dval (lower_price g) < dval (upper_price g)
     \<and> 2 \<le> levels g \<and> 0 < dval (quote_per_order g) \<and> 0 < dval (g_take_profit g))"

definition dca_ok :: "dca_config \<Rightarrow> bool" where
  "dca_ok d = (0 < dval (initial_quote d) \<and> 0 < dval (dca_quote d) \<and> 0 < dval (adverse_step d)
     \<and> dval (adverse_step d) < 1 \<and> 0 < dval (d_take_profit d) \<and> 0 \<le> max_adds d)"

lemma int_at_least_Inr: "int_at_least k m v = Inr i \<Longrightarrow> k \<le> i"
  by (cases v) (auto simp: int_at_least_def split: if_splits)

lemma mk_grid_config_ok: "mk_grid_config l u n q t c = Inr g \<Longrightarrow> grid_ok g"
  by (auto simp: mk_grid_config_def res_simps grid_ok_def dle_iff
      dest!: as_decimal_Inr int_at_least_Inr split: if_split_asm)

lemma mk_dca_config_ok: "mk_dca_config i q a t n c = Inr d \<Longrightarrow> dca_ok d"
  by (auto simp: mk_dca_config_def res_simps dca_ok_def dle_iff
      dest!: as_decimal_Inr int_at_least_Inr split: if_split_asm)

interpretation grid: strategy grid_on_candle grid_ok
  by unfold_locales (auto dest: grid_returns_ok)

interpretation dca: strategy dca_on_candle "\<lambda>st. dca_ok (dca_cfg st)"
  by unfold_locales (auto dest: dca_returns_ok)

interpretation combo: strategy combo_on_candle
  "\<lambda>st. grid_ok (combo_grid st) \<and> dca_ok (dca_cfg (combo_dca st))"
  by unfold_locales (auto dest: combo_returns_ok)

subsection \<open>Take-profit orders\<close>

lemma own_words [simp]:
  "lower (strip ''buy'') = ''buy''" "lower (strip ''sell'') = ''sell''"
  "lower (strip ''market'') = ''market''" "lower (strip ''limit'') = ''limit''"
  by code_simp+

lemma limit_order_fields:
  assumes "limit_order side q p t = Inr i" "side \<in> {''buy'', ''sell''}"
  shows "\<exists>oi. i = Order oi \<and> oi_side oi = side \<and> oi_limit oi = Some p \<and> oi_qty oi = q"
  using assms
  by (auto simp: limit_order_def mk_order_intent_def check_ttl_def res_simps Let_def
      split: if_split_asm)

lemma target_ge:
  assumes "fits avg" "0 \<le> dval avg" "0 < dval tp"
  shows "dval avg \<le> dval (dmul avg (dadd done1 tp))"
proof -
  have "dval done1 \<le> dval (dadd done1 tp)"
    using assms(3) by (intro dadd_ge_fits) (simp_all add: fits_def done1_def prec_def ndigits.simps)
  then show ?thesis
    using assms by (intro dmul_ge_fits) (simp_all add: mult_le_cancel_left1)
qed

text \<open>A sell order of a result is a limit order for the whole position at or above a price.\<close>

definition sells_at_least :: "dec \<Rightarrow> dec \<Rightarrow> returned \<Rightarrow> bool" where
  "sells_at_least price qty r =
     (case r of
        RItems its \<Rightarrow> list_all (\<lambda>i. case i of
            Order oi \<Rightarrow> oi_side oi = ''sell'' \<longrightarrow>
              (oi_qty oi = qty \<and> (case oi_limit oi of None \<Rightarrow> False | Some p \<Rightarrow> dle price p))
          | _ \<Rightarrow> True) its
      | _ \<Rightarrow> True)"

lemma grid_sells:
  assumes "grid_on_candle cfg c snap os = Inr (cfg', r)" "0 < dval (g_take_profit cfg)"
    "fits (s_avg_entry snap)" "0 \<le> dval (s_avg_entry snap)"
  shows "sells_at_least (s_avg_entry snap) (s_inventory snap) r"
  using assms(1) target_ge [OF assms(3,4,2)]
  by (auto simp: grid_on_candle_def Let_def res_simps sells_at_least_def dle_iff
      dest!: limit_order_fields split: if_split_asm)

lemma dca_sells:
  assumes "dca_on_candle st c snap os = Inr (st', r)" "0 < dval (d_take_profit (dca_cfg st))"
    "fits (s_avg_entry snap)" "0 \<le> dval (s_avg_entry snap)"
  shows "sells_at_least (s_avg_entry snap) (s_inventory snap) r"
proof -
  have sub: "Order i \<notin> set its" if "cancel_all t os = Inr its" for t os its i
    using cancel_all_ok [OF that(1)] by (auto simp: list_all_iff)
  have market: "oi_side i = ''buy''"
    if "mk_order_intent (VStr ''buy'') (VStr ''market'') q l e g = Inr i" for q l e g i
    using that by (cases g) (auto simp: mk_order_intent_def Let_def res_simps split: if_split_asm)
  show ?thesis
    using assms(1) target_ge [OF assms(3,4,2)]
    by (auto simp: dca_on_candle_def Let_def res_simps sells_at_least_def dle_iff list_all_iff
        dest!: limit_order_fields market dest: sub split: if_split_asm intent.split)
qed

lemma limit_order_total:
  assumes "0 < dval q" "0 < dval p" "side \<in> {''buy'', ''sell''}"
  shows "\<exists>i. limit_order side q p t = Inr i"
  using assms by (auto simp: limit_order_def mk_order_intent_def check_ttl_def Let_def)

lemma target_pos: "0 < dval avg \<Longrightarrow> 0 < dval tp \<Longrightarrow> 0 < dval (dmul avg (dadd done1 tp))"
  by (intro dmul_pos dadd_pos) simp_all

lemma ddiv_total: "0 < dval b \<Longrightarrow> ddiv a b = Inr (dquot a b)"
  by (auto simp: ddiv_def dval_pos_iff)

lemma grid_total:
  assumes g: "grid_ok g" and avg: "0 < dval (s_inventory snap) \<Longrightarrow> 0 < dval (s_avg_entry snap)"
  shows "\<exists>r. grid_on_candle g c snap os = Inr (g, r)"
proof -
  have lev: "0 < dval (dec_of_int (levels g - 1))" using g by (simp add: grid_ok_def)
  have step: "0 < dval (dquot (dsub (upper_price g) (lower_price g)) (dec_of_int (levels g - 1)))"
    using g lev by (intro dquot_pos dsub_pos) (simp_all add: grid_ok_def)
  have tgt: "\<exists>i. limit_order ''sell'' (s_inventory snap) (dmul (s_avg_entry snap) (dadd done1 (g_take_profit g))) t = Inr i"
    if "0 < dval (s_inventory snap)" for t
    using avg [OF that] that g by (intro limit_order_total target_pos) (auto simp: grid_ok_def)
  have buy: "\<exists>i. limit_order ''buy'' (dquot (quote_per_order g) p) p t = Inr i"
    if "\<not> dval p < dval (lower_price g)" for p t
    using that g by (intro limit_order_total dquot_pos) (auto simp: grid_ok_def)
  have pos: "ddiv (quote_per_order g) p = Inr (dquot (quote_per_order g) p)"
    if "\<not> dval p < dval (lower_price g)" for p
    using that g by (intro ddiv_total) (auto simp: grid_ok_def)
  show ?thesis
  proof (cases "0 < dval (s_inventory snap)")
    case True
    with tgt [OF True, of "''grid-take-profit''"] show ?thesis
      by (auto simp: grid_on_candle_def Let_def dlt_iff)
  next
    case False
    define stp where "stp = dquot (dsub (upper_price g) (lower_price g)) (dec_of_int (levels g - 1))"
    define raw where "raw = dquot (dsub (c_close c) (lower_price g)) stp"
    have d: "ddiv (dsub (upper_price g) (lower_price g)) (dec_of_int (levels g - 1)) = Inr stp"
      "ddiv (dsub (c_close c) (lower_price g)) stp = Inr raw"
      using lev step by (simp_all add: ddiv_total stp_def raw_def)
    have "\<exists>r. rbind (ddiv (quote_per_order g) p) (\<lambda>qty. rbind (limit_order ''buy'' qty p ''grid-entry'')
        (\<lambda>i. Inr (g, RItems [i]))) = Inr (g, r)" if "\<not> dval p < dval (lower_price g)" for p
      using pos [OF that] buy [OF that, of "''grid-entry''"] by auto
    with False show ?thesis
      by (simp add: grid_on_candle_def Let_def dlt_iff d)
  qed
qed

lemma cancel_all_total:
  "\<forall>od \<in> set os. strip (po_id od) \<noteq> [] \<Longrightarrow> \<exists>its. cancel_all t os = Inr its"
  by (induction os) (auto simp: cancel_all_def mk_cancel_intent_def)

lemma dca_total:
  assumes d: "dca_ok (dca_cfg st)" and close: "0 < dval (c_close c)"
    and avg: "0 < dval (s_inventory snap) \<Longrightarrow> 0 < dval (s_avg_entry snap)"
    and ids: "\<forall>od \<in> set os. strip (po_id od) \<noteq> []"
  shows "\<exists>st' r. dca_on_candle st c snap os = Inr (st', r)"
proof -
  have market: "\<exists>i. mk_order_intent (VStr ''buy'') (VStr ''market'') (VDec (dquot (initial_quote (dca_cfg st)) (c_close c)))
      VNone VNone (VStr t) = Inr i" for t
    using d close dquot_pos [of "initial_quote (dca_cfg st)" "c_close c"]
    by (auto simp: mk_order_intent_def check_ttl_def dca_ok_def)
  have sell: "\<exists>i. limit_order ''sell'' (s_inventory snap) (dmul (s_avg_entry snap) (dadd done1 (d_take_profit (dca_cfg st)))) t = Inr i"
    if "\<not> dval (s_inventory snap) \<le> 0" for t
    using avg that d by (intro limit_order_total target_pos) (auto simp: dca_ok_def)
  have buy: "\<exists>i. limit_order ''buy'' (dquot (dca_quote (dca_cfg st)) p) p t = Inr i"
    if "dval (c_close c) \<le> dval p" for p t
    using that d close by (intro limit_order_total dquot_pos) (auto simp: dca_ok_def)
  have div: "ddiv (dca_quote (dca_cfg st)) p = Inr (dquot (dca_quote (dca_cfg st)) p)"
    if "dval (c_close c) \<le> dval p" for p
    using that close by (intro ddiv_total) simp
  have cancels: "\<exists>its. cancel_all t (filter P os) = Inr its" for t P
    using ids by (intro cancel_all_total) auto
  define p where "p = dmul (s_avg_entry snap) (dsub done1
    (dmul (adverse_step (dca_cfg st)) (dec_of_int (add_count (count_adds st (s_inventory snap)) + 1))))"
  show ?thesis
  proof (cases "dval (s_inventory snap) \<le> 0")
    case True
    with market [of "''dca-initial''"] close show ?thesis
      by (auto simp: dca_on_candle_def Let_def dle_iff ddiv_total)
  next
    case False
    obtain i where i: "limit_order ''sell'' (s_inventory snap) (dmul (s_avg_entry snap)
        (dadd done1 (d_take_profit (dca_cfg st)))) ''dca-take-profit'' = Inr i"
      using sell [OF False] by blast
    obtain xs where xs: "cancel_all ''dca-take-profit-priority'' (filter (\<lambda>od. po_side od = ''buy'') os) = Inr xs"
      using cancels by blast
    obtain ys where ys: "cancel_all ''dca-adverse-add-priority'' (filter (\<lambda>od. po_side od = ''sell'') os) = Inr ys"
      using cancels by blast
    define tag where "tag = ''dca-add-'' @ show_int (add_count (count_adds st (s_inventory snap)) + 1)"
    have add: "\<exists>r. rbind (ddiv (dca_quote (dca_cfg st)) p) (\<lambda>qty. rbind (limit_order ''buy'' qty p tag)
        (\<lambda>i. Inr (st', RItems (ys @ [i])))) = Inr (st', r)" if "dval (c_close c) \<le> dval p" for st'
      using div [OF that] buy [OF that, of tag] by auto
    show ?thesis
      unfolding dca_on_candle_def Let_def p_def [symmetric] tag_def [symmetric] xs ys i rbind.simps
      using False add [of "count_adds st (s_inventory snap)"] by (auto simp: dle_iff)
  qed
qed

subsection \<open>Properties\<close>

definition demo_grid :: grid_config where
  "demo_grid = \<lparr>lower_price = dec_of_int 80, upper_price = dec_of_int 120, levels = 5,
     quote_per_order = dec_of_int 100, g_take_profit = Dec False 1 (- 2), g_config_id = ''grid''\<rparr>"

definition demo_dca :: dca_config where
  "demo_dca = \<lparr>initial_quote = dec_of_int 100, dca_quote = dec_of_int 100, adverse_step = Dec False 1 (- 1),
     d_take_profit = Dec False 1 (- 2), max_adds = 1, d_config_id = ''dca''\<rparr>"

definition demo_candle :: "int \<Rightarrow> candle" where
  "demo_candle p = \<lparr>c_ts = ''2026-01-01T00:00:00.000000Z'', c_open = dec_of_int p, c_high = dec_of_int p,
     c_low = dec_of_int p, c_close = dec_of_int p, c_volume = dzero\<rparr>"

definition demo_snap :: "int \<Rightarrow> int \<Rightarrow> snapshot" where
  "demo_snap qty avg = \<lparr>s_cash = dec_of_int 1000, s_inventory = dec_of_int qty, s_avg_entry = dec_of_int avg,
     s_realized = dzero, s_unrealized = dzero, s_equity = dec_of_int 1000, s_fees = dzero,
     s_spread = dzero, s_slippage = dzero, s_turnover = dzero\<rparr>"

lemmas strategy_eval = dec_eval demo_grid_def demo_dca_def demo_candle_def demo_snap_def
  grid_on_candle_def dca_on_candle_def combo_on_candle_def new_combo_def new_dca_def count_adds_def
  grid_price_def limit_order_def mk_order_intent_def check_ttl_def cancel_all_def

text \<open>C8: A strategy never sells at a loss against its average entry price: every sell order the
  combined strategy emits is a limit order for the whole position, at or above the average entry
  price of the ledger it is shown, rounding included.\<close>

theorem combo_never_sells_below_entry:
  assumes cfg: "mk_grid_config gl gu gn gq gt gc = Inr g" "mk_dca_config di dq da dt dn dc = Inr d"
    and st: "combo_grid st = g" "dca_cfg (combo_dca st) = d"
    and snap: "fits (s_avg_entry snap)" "0 \<le> dval (s_avg_entry snap)"
    and call: "combo_on_candle st candle snap orders = Inr (st', r)"
  shows "sells_at_least (s_avg_entry snap) (s_inventory snap) r"
proof -
  have "0 < dval (g_take_profit (combo_grid st))" "0 < dval (d_take_profit (dca_cfg (combo_dca st)))"
    using mk_grid_config_ok [OF cfg(1)] mk_dca_config_ok [OF cfg(2)] st
    by (simp_all add: grid_ok_def dca_ok_def)
  with call show ?thesis
    using grid_sells dca_sells snap
    by (auto simp: combo_on_candle_def res_simps split: if_split_asm)
qed

lemma demo_grid_new:
  "mk_grid_config (VInt 80) (VInt 120) (VInt 5) (VInt 100) (VStr ''0.01'') (VStr ''grid'') = Inr demo_grid"
  by code_simp

lemma demo_dca_new:
  "mk_dca_config (VInt 100) (VInt 100) (VStr ''0.1'') (VStr ''0.01'') (VInt 1) (VStr ''dca'') = Inr demo_dca"
  by code_simp

lemma demo_combo_sell:
  "combo_on_candle (new_combo demo_grid demo_dca) (demo_candle 110) (demo_snap 2 100) []
   = Inr ((new_combo demo_grid demo_dca)\<lparr>combo_dca :=
         \<lparr>dca_cfg = demo_dca, last_inventory = dec_of_int 2, add_count = 0\<rparr>\<rparr>,
       RItems [Order \<lparr>oi_side = ''sell'', oi_type = ''limit'', oi_qty = dec_of_int 2,
         oi_limit = Some (Dec False 10100 (- 2)), oi_ttl = None, oi_tag = ''dca-take-profit''\<rparr>])"
  by (simp add: strategy_eval cong: rbind_weak_cong)

theorem combo_never_sells_below_entry_witness:
  "sells_at_least (dec_of_int 100) (dec_of_int 2)
     (RItems [Order \<lparr>oi_side = ''sell'', oi_type = ''limit'', oi_qty = dec_of_int 2,
         oi_limit = Some (Dec False 10100 (- 2)), oi_ttl = None, oi_tag = ''dca-take-profit''\<rparr>])"
  using combo_never_sells_below_entry [OF demo_grid_new demo_dca_new _ _ _ _ demo_combo_sell]
  by (simp add: new_combo_def new_dca_def demo_snap_def fits_def prec_def dec_of_int_def ndigits_num
      ndigits_small sign_lit)

text \<open>The averaging side cannot sell a position whose average price is not positive: its target is not positive either, so that
  the close is always above it, and the order is refused unless one is open already.\<close>

lemma dca_stuck:
  assumes d: "dca_ok (dca_cfg st)" and close: "0 < dval (c_close c)"
    and held: "0 < dval (s_inventory snap)" "dval (s_avg_entry snap) \<le> 0" and ids: "\<forall>od \<in> set os. strip (po_id od) \<noteq> []"
  shows "if \<exists>od \<in> set os. po_side od = ''sell'' then \<exists>st' r. dca_on_candle st c snap os = Inr (st', r)
    else dca_on_candle st c snap os = Inl (ContractError ''limit_price must be positive'')"
proof -
  let ?t = "dmul (s_avg_entry snap) (dadd done1 (d_take_profit (dca_cfg st)))"
  have "0 < dval (dadd done1 (d_take_profit (dca_cfg st)))" using d by (intro dadd_pos) (simp add: dca_ok_def)
  then have t: "dval ?t \<le> 0"
    using held(2) dmul_le_fits [of dzero "s_avg_entry snap" "dadd done1 (d_take_profit (dca_cfg st))"]
    by (simp add: mult_le_0_iff)
  obtain xs where xs: "cancel_all ''dca-take-profit-priority'' (filter (\<lambda>od. po_side od = ''buy'') os) = Inr xs"
    using cancel_all_total [of "filter (\<lambda>od. po_side od = ''buy'') os"] ids by auto
  have "limit_order ''sell'' (s_inventory snap) ?t ''dca-take-profit'' = Inl (ContractError ''limit_price must be positive'')"
    using held(1) t by (simp add: limit_order_def mk_order_intent_def)
  moreover have "dle ?t (c_close c)" "\<not> dle (s_inventory snap) dzero" using t close held(1) by (simp_all add: dle_iff)
  ultimately show ?thesis by (simp add: dca_on_candle_def Let_def xs filter_empty_conv)
qed

text \<open>C9: What the combined strategy answers, with configurations that passed their checks, a positive close and order ids that
  are not blank, as long as no decimal result leaves the exponent range of the context: intents that keep the protocol, whatever the portfolio and the open orders are, with one exception. While
  something is held at an average price that is not positive and no sell order is open, its own take-profit order is refused and
  the strategy raises the error, at every candle.\<close>

theorem combo_total:
  assumes "grid_ok (combo_grid st)" "dca_ok (dca_cfg (combo_dca st))" "0 < dval (c_close c)"
    and "\<forall>od \<in> set os. strip (po_id od) \<noteq> []"
  shows "if 0 < dval (s_inventory snap) \<and> dval (s_avg_entry snap) \<le> 0 \<and> \<not> (\<exists>od \<in> set os. po_side od = ''sell'')
    then combo_on_candle st c snap os = Inl (ContractError ''limit_price must be positive'')
    else \<exists>st' r. combo_on_candle st c snap os = Inr (st', r) \<and> intents_ok os r"
proof (cases "0 < dval (s_inventory snap) \<and> dval (s_avg_entry snap) \<le> 0")
  case True
  then have "\<not> dle (s_inventory snap) dzero" by (simp add: dle_iff)
  with dca_stuck [OF assms(2,3) _ _ assms(4), of snap] True dca_returns_ok
  show ?thesis by (fastforce simp: combo_on_candle_def split: if_split_asm)
next
  case False
  then have avg: "0 < dval (s_inventory snap) \<Longrightarrow> 0 < dval (s_avg_entry snap)" by simp
  have "\<exists>st' r. combo_on_candle st c snap os = Inr (st', r)"
    using grid_total [OF assms(1) avg, of c os] dca_total [OF assms(2,3) avg assms(4)]
    by (auto simp: combo_on_candle_def)
  then obtain st' r where call: "combo_on_candle st c snap os = Inr (st', r)" by blast
  then have "intents_ok os r" using combo.returns_ok assms(1,2) by blast
  with call False show ?thesis by auto
qed

theorem combo_total_witness:
  "(\<exists>st' r. combo_on_candle (new_combo demo_grid demo_dca) (demo_candle 95) (demo_snap 0 0) [] = Inr (st', r) \<and> intents_ok [] r)
   \<and> combo_on_candle (new_combo demo_grid demo_dca) (demo_candle 95) (demo_snap 2 (- 1)) [] = Inl (ContractError ''limit_price must be positive'')"
proof -
  have ok: "grid_ok (combo_grid (new_combo demo_grid demo_dca))" "dca_ok (dca_cfg (combo_dca (new_combo demo_grid demo_dca)))"
    "0 < dval (c_close (demo_candle 95))" "\<forall>od \<in> set []. strip (po_id od) \<noteq> []"
    by (simp_all add: mk_grid_config_ok [OF demo_grid_new] mk_dca_config_ok [OF demo_dca_new] new_combo_def new_dca_def demo_candle_def)
  show ?thesis
    using combo_total [OF ok, of "demo_snap 0 0"] combo_total [OF ok, of "demo_snap 2 (- 1)"] by (simp add: demo_snap_def)
qed

text \<open>The answers of a strategy to a series of candles.\<close>

fun feed :: "'s on_candle \<Rightarrow> 's \<Rightarrow> (candle \<times> snapshot \<times> pending_order list) list \<Rightarrow> returned list res" where
  "feed f s [] = Inr []"
| "feed f s ((c, p, os) # xs) =
     rbind (f s c p os) (\<lambda>(s', r). rbind (feed f s' xs) (\<lambda>rs. Inr (r # rs)))"

definition two_rounds :: "(candle \<times> snapshot \<times> pending_order list) list" where
  "two_rounds = [(demo_candle 100, demo_snap 1 100, []), (demo_candle 95, demo_snap 2 95, []),
     (demo_candle 130, demo_snap 0 0, []), (demo_candle 100, demo_snap 3 100, []),
     (demo_candle 85, demo_snap 3 100, [])]"

definition next_round_add :: intent where
  "next_round_add = Order \<lparr>oi_side = ''buy'', oi_type = ''limit'', oi_qty = Dec False 1111111111111111111111111111 (- 27),
     oi_limit = Some (Dec False 900 (- 1)), oi_ttl = None, oi_tag = ''dca-add-1''\<rparr>"

lemma show_int_one: "show_int 1 = ''1''"
  by code_simp

definition sell_all :: "int \<Rightarrow> dec \<Rightarrow> intent" where
  "sell_all qty price = Order \<lparr>oi_side = ''sell'', oi_type = ''limit'', oi_qty = dec_of_int qty,
     oi_limit = Some price, oi_ttl = None, oi_tag = ''dca-take-profit''\<rparr>"

definition last_answer :: "returned list res \<Rightarrow> returned" where
  "last_answer m = (case m of Inl e \<Rightarrow> RNone | Inr rs \<Rightarrow> last rs)"

text \<open>The combined strategy does not reset its averaging state between rounds. While nothing is
  held it consults the grid only, so the last inventory and the number of adds survive the end of
  a round: over two rounds with one add allowed, it answers the fall to 85 in the second round
  with its take-profit order, where the averaging strategy on the same series, which does reset,
  answers with the add.\<close>

theorem combo_keeps_adds_of_last_round:
  "last_answer (feed combo_on_candle (new_combo demo_grid demo_dca) two_rounds)
     = RItems [sell_all 3 (Dec False 10100 (- 2))]
   \<and> last_answer (feed dca_on_candle (new_dca demo_dca) two_rounds) = RItems [next_round_add]"
  by (simp add: two_rounds_def strategy_eval sell_all_def next_round_add_def last_answer_def
      show_int_one       cong: rbind_weak_cong)

end
