(* ===== verification/Replay.thy ===== *)
theory Replay
  imports Strategies "HOL-Library.Multiset" "HOL-Library.Sublist"
begin

section \<open>The historical replay\<close>

text \<open>
  \<^verbatim>\<open>research/rea_engines/replay.py\<close>: the loop over the candles that fills, rejects, expires and
  cancels orders, asks the strategy for intents and marks the ledger. The local variables of
  \<^verbatim>\<open>Replay.run\<close> are the fields of one record; the body of the loop is a function from that
  record to the next one or to the exception that leaves the loop. SHA-256 and the strategy are
  parameters. A \<^verbatim>\<open>Sequence\<close> that is not made of candles, or a configuration of another class, is
  excluded by the types.
\<close>

subsection \<open>Configuration\<close>

record replay_config =
  rc_cash :: dec
  rc_max_inventory :: dec
  rc_max_fill :: dec
  rc_costs :: cost_profile
  rc_ttl :: "int option"
  rc_id :: string

definition mk_replay_config ::
    "pyval \<Rightarrow> pyval \<Rightarrow> pyval \<Rightarrow> cost_profile option \<Rightarrow> pyval \<Rightarrow> pyval \<Rightarrow> replay_config res" where
  "mk_replay_config cash0 max_inv max_fill costs ttl cid =
     rbind (as_decimal cash0 ''starting_cash'' True False) (\<lambda>c.
     rbind (as_decimal max_inv ''max_inventory'' True False) (\<lambda>mi.
     rbind (as_decimal max_fill ''max_fill_qty'' True False) (\<lambda>mf.
       case costs of
         None \<Rightarrow> Inl (ReplayError ''costs must be a CostProfile'')
       | Some p \<Rightarrow>
           rbind (check_ttl ReplayError ''default_order_ttl'' ttl) (\<lambda>t.
             case cid of
               VStr name \<Rightarrow>
                 if strip name = [] then Inl (ReplayError ''config_id must be a non-empty string'')
                 else Inr \<lparr>rc_cash = c, rc_max_inventory = mi, rc_max_fill = mf, rc_costs = p,
                           rc_ttl = t, rc_id = name\<rparr>
             | _ \<Rightarrow> Inl (ReplayError ''config_id must be a non-empty string'')))))"

fun opt_int :: "int option \<Rightarrow> pyval" where
  "opt_int None = VNone"
| "opt_int (Some i) = VInt i"

definition config_to_dict :: "replay_config \<Rightarrow> pyval" where
  "config_to_dict c =
     VDict [(''config_id'', VStr (rc_id c)), (''starting_cash'', VStr (dec_str (rc_cash c))),
            (''max_inventory'', VStr (dec_str (rc_max_inventory c))),
            (''max_fill_qty'', VStr (dec_str (rc_max_fill c))),
            (''default_order_ttl'', opt_int (rc_ttl c)),
            (''costs'', VDict [(''profile_id'', VStr (profile_id (rc_costs c))),
                               (''fee_bps'', VStr (dec_str (fee_bps (rc_costs c)))),
                               (''spread_bps'', VStr (dec_str (spread_bps (rc_costs c)))),
                               (''slippage_bps'', VStr (dec_str (slippage_bps (rc_costs c))))])]"

subsection \<open>Canonical JSON\<close>




definition candle_payload :: "candle \<Rightarrow> pyval" where
  "candle_payload c =
     VDict [(''timestamp'', VStr (c_ts c)), (''open'', VStr (dec_str (c_open c))),
            (''high'', VStr (dec_str (c_high c))), (''low'', VStr (dec_str (c_low c))),
            (''close'', VStr (dec_str (c_close c))), (''volume'', VStr (dec_str (c_volume c)))]"

subsection \<open>The state of the loop\<close>

type_synonym row = "(string \<times> string) list"

record 's run_state =
  ledger_of :: ledger
  pending :: "pending_order list"
  fills :: "fill list"
  rejections :: "rejection list"
  expired :: "row list"
  cancelled :: "row list"
  curve :: "row list"
  order_seq :: nat
  peak :: dec
  max_drawdown :: dec
  in_market :: nat
  strat :: 's

definition bps_denominator :: dec where "bps_denominator = dec_of_int 10000"
definition dhundred :: dec where "dhundred = dec_of_int 100"

text \<open>The price at which an open order would trade on a candle, if it would.\<close>

definition fill_price :: "pending_order \<Rightarrow> candle \<Rightarrow> dec option res" where
  "fill_price od c =
     (if po_type od = ''market'' then Inr (Some (c_open c))
      else if po_side od = ''buy'' then
        (case po_limit od of
           None \<Rightarrow> Inl (TypeError ''unsupported comparison of Decimal and NoneType'')
         | Some lp \<Rightarrow>
             if dle (c_low c) lp then Inr (Some (if dlt (c_open c) lp then c_open c else lp))
             else Inr None)
      else if po_side od = ''sell'' then
        (case po_limit od of
           None \<Rightarrow> Inl (TypeError ''unsupported comparison of Decimal and NoneType'')
         | Some lp \<Rightarrow>
             if dle lp (c_high c) then Inr (Some (if dlt lp (c_open c) then c_open c else lp))
             else Inr None)
      else Inr None)"

definition execute_fill ::
    "pending_order \<Rightarrow> candle \<Rightarrow> dec \<Rightarrow> ledger \<Rightarrow> cost_profile \<Rightarrow> (ledger \<times> fill) res" where
  "execute_fill od c price l costs =
     (let quantity = po_qty od;
          notional = dmul quantity price;
          fee = dquot (dmul notional (fee_bps costs)) bps_denominator;
          market = (po_type od = ''market'');
          spread = (if market then dquot (dquot (dmul notional (spread_bps costs)) bps_denominator) (dec_of_int 2)
                    else dzero);
          slip = (if market then dquot (dmul notional (slippage_bps costs)) bps_denominator else dzero);
          trade = (if po_side od = ''buy'' then ledger_buy else ledger_sell)
      in rbind (trade l (VDec quantity) (VDec price) (VDec fee) (VDec spread) (VDec slip)) (\<lambda>(l', op).
           Inr (l', \<lparr>f_order = po_id od, f_ts = c_ts c, f_side = po_side od, f_type = po_type od,
                     f_qty = op_qty op, f_price = op_price op, f_notional = op_notional op,
                     f_fee = op_fee op, f_spread = op_spread op, f_slippage = op_slippage op,
                     f_realized = op_realized op, f_tag = po_tag od\<rparr>)))"

definition expired_row :: "pending_order \<Rightarrow> candle \<Rightarrow> int \<Rightarrow> row" where
  "expired_row od c waited =
     [(''order_id'', po_id od), (''timestamp'', c_ts c), (''reason'', ''ttl_elapsed_without_fill''),
      (''bars_waited'', show_int waited), (''tag'', po_tag od)]"

text \<open>One open order on one candle: the body of the inner loop.\<close>

definition process_order ::
    "cost_profile \<Rightarrow> nat \<Rightarrow> candle \<Rightarrow> 's run_state \<Rightarrow> pending_order \<Rightarrow> 's run_state res" where
  "process_order costs idx c st od =
     (if idx \<le> po_index od then Inr (st\<lparr>pending := pending st @ [od]\<rparr>)
      else rbind (fill_price od c) (\<lambda>fp.
        case fp of
          Some price \<Rightarrow>
            (case execute_fill od c price (ledger_of st) costs of
               Inr (l', f) \<Rightarrow> Inr (st\<lparr>ledger_of := l', fills := fills st @ [f]\<rparr>)
             | Inl e \<Rightarrow>
                 if is_value_error e
                 then Inr (st\<lparr>rejections := rejections st @
                        [\<lparr>r_order = po_id od, r_ts = c_ts c, r_reason = exc_msg e,
                          r_side = po_side od, r_qty = po_qty od, r_tag = po_tag od\<rparr>]\<rparr>)
                 else Inl e)
        | None \<Rightarrow>
            (let waited = int idx - int (po_index od); updated = od\<lparr>po_waited := waited\<rparr>
             in case po_ttl od of
                  Some t \<Rightarrow>
                    if t \<le> waited then Inr (st\<lparr>expired := expired st @ [expired_row od c waited]\<rparr>)
                    else Inr (st\<lparr>pending := pending st @ [updated]\<rparr>)
                | None \<Rightarrow> Inr (st\<lparr>pending := pending st @ [updated]\<rparr>))))"

definition process_pending ::
    "cost_profile \<Rightarrow> nat \<Rightarrow> candle \<Rightarrow> 's run_state \<Rightarrow> 's run_state res" where
  "process_pending costs idx c st =
     run_steps (process_order costs idx c) (st\<lparr>pending := []\<rparr>) (pending st)"

text \<open>Marking the ledger at the close.\<close>

definition mark :: "candle \<Rightarrow> snapshot \<Rightarrow> 's run_state \<Rightarrow> 's run_state res" where
  "mark c snap st =
     (let pk = dmax (peak st) (s_equity snap)
      in rbind (if dlt dzero pk
                then rbind (ddiv (dsub pk (s_equity snap)) pk) (\<lambda>x. Inr (dmul x dhundred))
                else Inr dzero) (\<lambda>dd.
           Inr (st\<lparr>peak := pk, max_drawdown := dmax (max_drawdown st) dd,
                   in_market := (if dlt dzero (s_inventory snap) then Suc (in_market st) else in_market st),
                   curve := curve st @
                     [[(''timestamp'', c_ts c), (''close'', dec_str (c_close c)),
                       (''cash'', dec_str (s_cash snap)), (''inventory_qty'', dec_str (s_inventory snap)),
                       (''equity'', dec_str (s_equity snap)), (''drawdown_pct'', dec_str dd)]]\<rparr>)))"

definition order_id :: "string \<Rightarrow> nat \<Rightarrow> string" where
  "order_id sid n = sid @ ''-'' @ pad 6 (int n)"

definition process_intent ::
    "string \<Rightarrow> int option \<Rightarrow> nat \<Rightarrow> candle \<Rightarrow> 's run_state \<Rightarrow> intent \<Rightarrow> 's run_state res" where
  "process_intent sid ttl idx c st i =
     (case i of
        Cancel ci \<Rightarrow>
          (case find (\<lambda>od. po_id od = ci_order ci) (pending st) of
             None \<Rightarrow> Inr (st\<lparr>rejections := rejections st @
                 [\<lparr>r_order = ci_order ci, r_ts = c_ts c, r_reason = ''cancel_target_not_open'',
                   r_side = ''cancel'', r_qty = dzero, r_tag = ci_tag ci\<rparr>]\<rparr>)
           | Some m \<Rightarrow> Inr (st\<lparr>pending := filter (\<lambda>od. po_id od \<noteq> ci_order ci) (pending st),
                 cancelled := cancelled st @
                   [[(''order_id'', ci_order ci), (''timestamp'', c_ts c),
                     (''reason'', ''strategy_cancelled''),
                     (''tag'', if ci_tag ci = [] then po_tag m else ci_tag ci)]]\<rparr>))
      | Order oi \<Rightarrow>
          Inr (st\<lparr>order_seq := Suc (order_seq st),
                  pending := pending st @
                    [\<lparr>po_id = order_id sid (Suc (order_seq st)), po_side = oi_side oi,
                      po_type = oi_type oi, po_qty = oi_qty oi, po_limit = oi_limit oi, po_index = idx,
                      po_ts = c_ts c, po_ttl = (case oi_ttl oi of None \<Rightarrow> ttl | Some t \<Rightarrow> Some t),
                      po_tag = oi_tag oi, po_waited = 0\<rparr>]\<rparr>)
      | Foreign \<Rightarrow>
          Inl (ReplayError ''strategy returned a value other than OrderIntent or CancelIntent''))"

definition ask_strategy :: "'s on_candle \<Rightarrow> candle \<Rightarrow> snapshot \<Rightarrow> 's run_state \<Rightarrow> ('s \<times> intent list) res" where
  "ask_strategy f c snap st =
     (case f (strat st) c snap (pending st) of
        Inl e \<Rightarrow> Inl (ReplayError (''strategy failed at '' @ c_ts c @ '': '' @ exc_name e @ '': '' @ exc_msg e))
      | Inr (s', RNone) \<Rightarrow> Inr (s', [])
      | Inr (s', RScalar) \<Rightarrow> Inl (ReplayError ''strategy must return a sequence of OrderIntent objects'')
      | Inr (s', RItems its) \<Rightarrow> Inr (s', its))"

definition bar_step ::
    "'s on_candle \<Rightarrow> string \<Rightarrow> replay_config \<Rightarrow> 's run_state \<Rightarrow> nat \<times> candle \<Rightarrow> 's run_state res" where
  "bar_step f sid cfg st bar =
     (let idx = fst bar; c = snd bar
      in rbind (process_pending (rc_costs cfg) idx c st) (\<lambda>st1.
         rbind (ledger_snapshot (ledger_of st1) (VDec (c_close c))) (\<lambda>snap.
         rbind (mark c snap st1) (\<lambda>st2.
         rbind (ask_strategy f c snap st2) (\<lambda>(s', its).
           run_steps (process_intent sid (rc_ttl cfg) idx c) (st2\<lparr>strat := s'\<rparr>) its)))))"

definition start_state :: "replay_config \<Rightarrow> ledger \<Rightarrow> 's \<Rightarrow> 's run_state" where
  "start_state cfg l s =
     \<lparr>ledger_of = l, pending = [], fills = [], rejections = [], expired = [], cancelled = [],
      curve = [], order_seq = 0, peak = rc_cash cfg, max_drawdown = dzero, in_market = 0, strat = s\<rparr>"

definition run_bars ::
    "'s on_candle \<Rightarrow> string \<Rightarrow> replay_config \<Rightarrow> 's run_state \<Rightarrow> candle list \<Rightarrow> 's run_state res" where
  "run_bars f sid cfg st bars = run_steps (bar_step f sid cfg) st (enumerate 0 bars)"

subsection \<open>The report\<close>




definition row_value :: "row \<Rightarrow> pyval" where
  "row_value r = VDict (map (\<lambda>(k, v). (k, VStr v)) r)"

definition dec_value :: "dec \<Rightarrow> pyval" where
  "dec_value d = VStr (dec_str d)"

definition fill_value :: "fill \<Rightarrow> pyval" where
  "fill_value f =
     VDict [(''order_id'', VStr (f_order f)), (''timestamp'', VStr (f_ts f)), (''side'', VStr (f_side f)),
            (''order_type'', VStr (f_type f)), (''quantity'', dec_value (f_qty f)),
            (''price'', dec_value (f_price f)), (''notional'', dec_value (f_notional f)),
            (''fee'', dec_value (f_fee f)), (''spread_cost'', dec_value (f_spread f)),
            (''slippage_cost'', dec_value (f_slippage f)), (''realized_pnl'', dec_value (f_realized f)),
            (''tag'', VStr (f_tag f))]"

definition rejection_value :: "rejection \<Rightarrow> pyval" where
  "rejection_value r =
     VDict [(''order_id'', VStr (r_order r)), (''timestamp'', VStr (r_ts r)), (''reason'', VStr (r_reason r)),
            (''side'', VStr (r_side r)), (''quantity'', dec_value (r_qty r)), (''tag'', VStr (r_tag r))]"

definition pending_value :: "pending_order \<Rightarrow> pyval" where
  "pending_value od =
     VDict [(''order_id'', VStr (po_id od)), (''side'', VStr (po_side od)),
            (''order_type'', VStr (po_type od)), (''quantity'', dec_value (po_qty od)),
            (''limit_price'', case po_limit od of None \<Rightarrow> VNone | Some d \<Rightarrow> dec_value d),
            (''submitted_index'', VInt (int (po_index od))),
            (''submitted_timestamp'', VStr (po_ts od)), (''expires_after_bars'', opt_int (po_ttl od)),
            (''tag'', VStr (po_tag od)), (''bars_waited'', VInt (po_waited od))]"







subsection \<open>Open orders\<close>

definition order_ok :: "pending_order \<Rightarrow> bool" where
  "order_ok od =
     (po_side od \<in> {''buy'', ''sell''} \<and> 0 < dval (po_qty od)
      \<and> (po_type od = ''market'' \<and> po_limit od = None
         \<or> po_type od = ''limit'' \<and> (\<exists>p. po_limit od = Some p \<and> 0 < dval p)))"

text \<open>After \<open>n\<close> candles: the order was submitted on one of them and its time has not run out.\<close>

definition pending_ok :: "nat \<Rightarrow> pending_order \<Rightarrow> bool" where
  "pending_ok n od =
     (order_ok od \<and> po_index od < n \<and> (\<forall>t. po_ttl od = Some t \<longrightarrow> int n - 1 - int (po_index od) < t))"

text \<open>A fill that an open order may produce on a candle: within the range of the candle, at the open
  for a market order, at the limit or better for a limit order.\<close>

definition fill_of :: "pending_order \<Rightarrow> candle \<Rightarrow> fill \<Rightarrow> bool" where
  "fill_of od c f =
     (f_order f = po_id od \<and> f_ts f = c_ts c \<and> f_side f = po_side od \<and> f_qty f = po_qty od
      \<and> dval (c_low c) \<le> dval (f_price f) \<and> dval (f_price f) \<le> dval (c_high c)
      \<and> (case po_limit od of
           None \<Rightarrow> f_price f = c_open c
         | Some lp \<Rightarrow> (if po_side od = ''buy'' then dval (f_price f) \<le> dval lp
                       else dval lp \<le> dval (f_price f))))"

lemma fill_price_bounds:
  assumes "order_ok od" "candle_ok c"
  shows "\<exists>fp. fill_price od c = Inr fp"
    and "fill_price od c = Inr (Some p) \<Longrightarrow> 0 < dval p \<and> dval (c_low c) \<le> dval p \<and> dval p \<le> dval (c_high c)"
    and "fill_price od c = Inr (Some p) \<Longrightarrow>
      (case po_limit od of
         None \<Rightarrow> p = c_open c
       | Some lp \<Rightarrow> (if po_side od = ''buy'' then dval p \<le> dval lp else dval lp \<le> dval p))"
  using assms
  by (auto simp: order_ok_def candle_ok_def fill_price_def dle_iff dlt_iff split: if_splits)

lemma operation_values_VDec:
  "operation_values l (VDec q) (VDec p) f s sl = Inr (qty, px, n, fv, sv, lv) \<Longrightarrow> qty = q \<and> px = p"
  by (auto simp: operation_values_def res_simps split: if_split_asm)

lemma ledger_buy_fields:
  "ledger_buy l (VDec q) (VDec p) f s sl = Inr (l', op) \<Longrightarrow> op_qty op = q \<and> op_price op = p"
  by (elim ledger_buy_Inr) (auto dest: operation_values_VDec)

lemma ledger_sell_fields:
  "ledger_sell l (VDec q) (VDec p) f s sl = Inr (l', op) \<Longrightarrow> op_qty op = q \<and> op_price op = p"
  by (elim ledger_sell_Inr) (auto dest: operation_values_VDec)

lemma execute_fill_cases:
  assumes "execute_fill od c p l costs = Inr (l', f)"
  obtains fee sp sl op where
    "(if po_side od = ''buy'' then ledger_buy else ledger_sell) l (VDec (po_qty od)) (VDec p) fee sp sl
       = Inr (l', op)"
    "f = \<lparr>f_order = po_id od, f_ts = c_ts c, f_side = po_side od, f_type = po_type od, f_qty = op_qty op,
          f_price = op_price op, f_notional = op_notional op, f_fee = op_fee op, f_spread = op_spread op,
          f_slippage = op_slippage op, f_realized = op_realized op, f_tag = po_tag od\<rparr>"
  using assms unfolding execute_fill_def Let_def rbind_Inr_iff
  by (auto simp del: if_split split: prod.splits)

lemma execute_fill_Inr:
  assumes "execute_fill od c p l costs = Inr (l', f)"
  shows "f_order f = po_id od" "f_ts f = c_ts c" "f_side f = po_side od" "f_qty f = po_qty od"
    "f_price f = p" "ledger_ok l \<Longrightarrow> ledger_ok l'"
proof -
  obtain fee sp sl op where t: "(if po_side od = ''buy'' then ledger_buy else ledger_sell) l
      (VDec (po_qty od)) (VDec p) fee sp sl = Inr (l', op)"
    and f: "f = \<lparr>f_order = po_id od, f_ts = c_ts c, f_side = po_side od, f_type = po_type od,
      f_qty = op_qty op, f_price = op_price op, f_notional = op_notional op, f_fee = op_fee op,
      f_spread = op_spread op, f_slippage = op_slippage op, f_realized = op_realized op, f_tag = po_tag od\<rparr>"
    using assms by (rule execute_fill_cases)
  have "op_qty op = po_qty od \<and> op_price op = p"
    using t by (auto dest: ledger_buy_fields ledger_sell_fields split: if_split_asm)
  with f show "f_order f = po_id od" "f_ts f = c_ts c" "f_side f = po_side od" "f_qty f = po_qty od"
    "f_price f = p" by simp_all
  show "ledger_ok l \<Longrightarrow> ledger_ok l'"
    using t by (auto intro: ledger_buy_ok ledger_sell_ok split: if_split_asm)
qed

text \<open>The ledger raises nothing but \<^verbatim>\<open>ValueError\<close> and its subclasses.\<close>

lemma operation_values_error: "operation_values l q p f s sl = Inl e \<Longrightarrow> is_value_error e"
  by (auto simp: operation_values_def res_simps dest: as_decimal_value_error split: if_split_asm)

lemma ledger_buy_error: "ledger_buy l q p f s sl = Inl e \<Longrightarrow> is_value_error e"
  by (auto simp: ledger_buy_def res_simps Let_def dest: operation_values_error split: if_split_asm)

lemma ledger_sell_error:
  assumes "ledger_sell l q p f s sl = Inl e"
  shows "is_value_error e"
proof (cases "operation_values l q p f s sl")
  case (Inl x)
  with assms show ?thesis by (auto simp: ledger_sell_def dest: operation_values_error)
next
  case (Inr vs)
  obtain qty px n fv sv lv where vs: "vs = (qty, px, n, fv, sv, lv)" by (cases vs)
  have "dcoef (inventory_qty l) \<noteq> 0" if "\<not> dval (inventory_qty l) < dval qty"
    using operation_values_Inr(1) [OF Inr [unfolded vs]] that by (metis dval_zero_iff)
  with assms Inr vs show ?thesis
    by (auto simp: ledger_sell_def Let_def res_simps dlt_iff ddiv_def split: if_split_asm)
qed

lemma execute_fill_error: "execute_fill od c p l costs = Inl e \<Longrightarrow> is_value_error e"
  unfolding execute_fill_def Let_def rbind_Inl_iff
  by (cases "po_side od = ''buy''") (auto dest: ledger_buy_error ledger_sell_error)

subsection \<open>Every order id is accounted for\<close>

definition row_id :: "row \<Rightarrow> string" where
  "row_id r = (case map_of r ''order_id'' of None \<Rightarrow> [] | Some v \<Rightarrow> v)"

definition submitted_rejections :: "'s run_state \<Rightarrow> rejection list" where
  "submitted_rejections st = filter (\<lambda>r. r_side r \<noteq> ''cancel'') (rejections st)"

definition all_ids :: "'s run_state \<Rightarrow> string multiset" where
  "all_ids st =
     mset (map f_order (fills st)) + mset (map r_order (submitted_rejections st))
     + mset (map row_id (expired st)) + mset (map row_id (cancelled st)) + mset (map po_id (pending st))"

lemma pad_inject: "pad k (int m) = pad k (int n) \<Longrightarrow> m = n"
  by (auto simp: pad_def Let_def dest!: arg_cong [of _ _ read_nat] simp: read_nat_zeros read_show_nat)

lemma order_id_inject [simp]: "order_id sid m = order_id sid n \<longleftrightarrow> m = n"
  by (auto simp: order_id_def dest: pad_inject)

subsection \<open>What a candle does to an open order\<close>

text \<open>The four outcomes, as a relation that says nothing about how they are computed.\<close>

inductive outcome :: "nat \<Rightarrow> candle \<Rightarrow> 's run_state \<Rightarrow> pending_order \<Rightarrow> 's run_state \<Rightarrow> bool"
  for idx c where
  filled: "fill_of od c f \<Longrightarrow> (ledger_ok (ledger_of st) \<longrightarrow> ledger_ok l) \<Longrightarrow>
    outcome idx c st od (st\<lparr>ledger_of := l, fills := fills st @ [f]\<rparr>)"
| rejected: "r_order r = po_id od \<Longrightarrow> r_side r = po_side od \<Longrightarrow> r_ts r = c_ts c \<Longrightarrow>
    outcome idx c st od (st\<lparr>rejections := rejections st @ [r]\<rparr>)"
| expired: "po_ttl od = Some t \<Longrightarrow> t \<le> int idx - int (po_index od) \<Longrightarrow> row_id w = po_id od \<Longrightarrow>
    outcome idx c st od (st\<lparr>expired := expired st @ [w]\<rparr>)"
| kept: "(\<forall>t. po_ttl od = Some t \<longrightarrow> int idx - int (po_index od) < t) \<Longrightarrow>
    outcome idx c st od (st\<lparr>pending := pending st @ [od\<lparr>po_waited := w\<rparr>]\<rparr>)"

lemma row_id_rows [simp]:
  "row_id (expired_row od c w) = po_id od" "row_id ((''order_id'', v) # r) = v"
  by (simp_all add: row_id_def expired_row_def)

lemma process_order_outcome:
  assumes "order_ok od" "candle_ok c" "po_index od < idx"
  shows "\<exists>st'. process_order costs idx c st od = Inr st' \<and> outcome idx c st od st'"
proof -
  obtain fp where fp: "fill_price od c = Inr fp" using fill_price_bounds(1) assms by blast
  show ?thesis
  proof (cases fp)
    case None
    with fp assms show ?thesis
      by (cases "po_ttl od") (auto simp: process_order_def Let_def intro!: outcome.kept outcome.expired)
  next
    case (Some p)
    note bounds = fill_price_bounds(2,3) [OF assms(1,2) fp [unfolded Some]]
    show ?thesis
    proof (cases "execute_fill od c p (ledger_of st) costs")
      case (Inl e)
      with fp Some assms(3) execute_fill_error [OF Inl] show ?thesis
        by (auto simp: process_order_def intro!: outcome.rejected)
    next
      case (Inr x)
      obtain l' f where x: "x = (l', f)" by (cases x)
      note ex = execute_fill_Inr [OF Inr [unfolded x]]
      have "fill_of od c f" using bounds ex by (cases "po_limit od") (auto simp: fill_of_def)
      with fp Some assms(3) Inr x ex(6) show ?thesis
        by (auto simp: process_order_def intro!: outcome.filled)
    qed
  qed
qed

inductive outcomes :: "nat \<Rightarrow> candle \<Rightarrow> 's run_state \<Rightarrow> pending_order list \<Rightarrow> 's run_state \<Rightarrow> bool"
  for idx c where
  none: "outcomes idx c st [] st"
| more: "outcome idx c st od m \<Longrightarrow> outcomes idx c m ods st' \<Longrightarrow> outcomes idx c st (od # ods) st'"

inductive_cases outcomes_ConsE: "outcomes idx c st (od # ods) st'"

lemma process_pending_outcomes:
  assumes "\<forall>od \<in> set ods. order_ok od \<and> po_index od < idx" "candle_ok c"
  shows "\<exists>st'. run_steps (process_order costs idx c) st ods = Inr st' \<and> outcomes idx c st ods st'"
  using assms(1)
proof (induction ods arbitrary: st)
  case (Cons od ods)
  then obtain m where m: "process_order costs idx c st od = Inr m" "outcome idx c st od m"
    using process_order_outcome assms(2) by (metis list.set_intros(1))
  with Cons obtain st' where "run_steps (process_order costs idx c) m ods = Inr st'" "outcomes idx c m ods st'"
    by auto
  with m show ?case by (auto intro: outcomes.more)
qed (auto intro: outcomes.none)

text \<open>What the outcomes of one candle have in common.\<close>

lemma outcome_same:
  assumes "outcome idx c st od st'"
  shows "order_seq st' = order_seq st \<and> strat st' = strat st \<and> peak st' = peak st
    \<and> max_drawdown st' = max_drawdown st \<and> in_market st' = in_market st \<and> curve st' = curve st
    \<and> cancelled st' = cancelled st"
  using assms by cases simp_all

lemma outcome_ids:
  assumes "outcome idx c st od st'" "order_ok od"
  shows "all_ids st' = all_ids st + {#po_id od#}"
  using assms by cases (auto simp: all_ids_def submitted_rejections_def order_ok_def fill_of_def)

lemma outcome_ledger:
  assumes "outcome idx c st od st'"
  shows "ledger_ok (ledger_of st) \<Longrightarrow> ledger_ok (ledger_of st')"
  using assms by cases simp_all

lemma outcome_pending:
  assumes "outcome idx c st od st'" "order_ok od" "po_index od < idx"
  shows "\<forall>x \<in> set (pending st). pending_ok (Suc idx) x \<Longrightarrow> \<forall>x \<in> set (pending st'). pending_ok (Suc idx) x"
  using assms by cases (auto simp: pending_ok_def order_ok_def)

lemma outcome_fills:
  assumes "outcome idx c st od st'"
  obtains fs where "fills st' = fills st @ fs" "\<forall>f \<in> set fs. fill_of od c f"
  using assms by cases simp_all

lemma outcomes_same:
  "outcomes idx c st ods st' \<Longrightarrow> order_seq st' = order_seq st \<and> strat st' = strat st \<and> peak st' = peak st
    \<and> max_drawdown st' = max_drawdown st \<and> in_market st' = in_market st \<and> curve st' = curve st
    \<and> cancelled st' = cancelled st"
  by (induction rule: outcomes.induct) (auto dest: outcome_same)

lemma outcomes_ids:
  "outcomes idx c st ods st' \<Longrightarrow> \<forall>od \<in> set ods. order_ok od \<Longrightarrow>
    all_ids st' = all_ids st + mset (map po_id ods)"
  by (induction rule: outcomes.induct) (auto simp: outcome_ids)

lemma outcomes_ledger:
  "outcomes idx c st ods st' \<Longrightarrow> ledger_ok (ledger_of st) \<Longrightarrow> ledger_ok (ledger_of st')"
  by (induction rule: outcomes.induct) (auto dest: outcome_ledger)

lemma outcomes_pending:
  "outcomes idx c st ods st' \<Longrightarrow> \<forall>od \<in> set ods. order_ok od \<and> po_index od < idx \<Longrightarrow>
    \<forall>x \<in> set (pending st). pending_ok (Suc idx) x \<Longrightarrow> \<forall>x \<in> set (pending st'). pending_ok (Suc idx) x"
proof (induction rule: outcomes.induct)
  case (more st od m ods st')
  then have "\<forall>x \<in> set (pending m). pending_ok (Suc idx) x"
    using outcome_pending [OF more.hyps(1)] by simp
  with more show ?case by simp
qed simp

lemma outcomes_fills:
  "outcomes idx c st ods st' \<Longrightarrow>
    \<exists>fs. fills st' = fills st @ fs \<and> (\<forall>f \<in> set fs. \<exists>od \<in> set ods. fill_of od c f)"
proof (induction rule: outcomes.induct)
  case (more st od m ods st')
  then obtain fs where "fills m = fills st @ fs" "\<forall>f \<in> set fs. fill_of od c f"
    using outcome_fills [OF more.hyps(1)] by blast
  with more.IH show ?case by fastforce
qed simp

subsection \<open>The rest of a candle\<close>

lemma ledger_snapshot_total:
  assumes "ledger_ok l" "0 < dval m"
  shows "\<exists>s. ledger_snapshot l (VDec m) = Inr s \<and> s_inventory s = inventory_qty l
    \<and> s_equity s = dadd (cash l) (dmul (inventory_qty l) m) \<and> s_cash s = cash l"
  using assms
  by (auto simp: ledger_snapshot_def average_entry_price_def unrealized_pnl_def equity_def ledger_ok_def
      ddiv_def deq_iff dval_zero_iff [symmetric])

lemma equity_nonneg:
  assumes "ledger_ok l" "0 < dval m"
  shows "0 \<le> dval (dadd (cash l) (dmul (inventory_qty l) m))"
  using assms by (intro dadd_nonneg add_nonneg_nonneg dmul_nonneg) (auto simp: ledger_ok_def)

definition drawdown_ok :: "'s run_state \<Rightarrow> bool" where
  "drawdown_ok st = (fits (peak st) \<and> 0 < dval (peak st)
     \<and> 0 \<le> dval (max_drawdown st) \<and> dval (max_drawdown st) \<le> 100)"

lemma fits_hundred: "fits dhundred" and fits_one: "fits done1"
  by (simp_all add: fits_def prec_def dhundred_def done1_def dec_of_int_def ndigits_num ndigits_small)

lemma percentage:
  assumes "0 < dval p" "fits p" "0 \<le> dval e" "dval e \<le> dval p"
  shows "0 \<le> dval (dmul (dquot (dsub p e) p) dhundred)"
    and "dval (dmul (dquot (dsub p e) p) dhundred) \<le> 100"
proof -
  have s: "0 \<le> dval (dsub p e)" "dval (dsub p e) \<le> dval p"
    using assms by (auto intro!: dsub_nonneg dsub_le_fits)
  then have q: "0 \<le> dval (dquot (dsub p e) p)" "dval (dquot (dsub p e) p) \<le> 1"
    using assms dquot_le_fits [of "dsub p e" p done1] fits_one by (auto intro: dquot_nonneg)
  have h: "dval dhundred = 100" by (simp add: dhundred_def)
  show "0 \<le> dval (dmul (dquot (dsub p e) p) dhundred)" using q h by (intro dmul_nonneg) simp_all
  show "dval (dmul (dquot (dsub p e) p) dhundred) \<le> 100"
    using dmul_le_fits [OF fits_hundred, of "dquot (dsub p e) p" dhundred] q h by simp
qed

lemma mark_total:
  assumes "0 < dval (peak st)"
  shows "\<exists>st'. mark c s st = Inr st'"
proof -
  have "dcoef (dmax (peak st) (s_equity s)) \<noteq> 0"
    using assms by (simp add: dval_zero_iff [symmetric] dmax_val max_def)
  then show ?thesis by (simp add: mark_def Let_def ddiv_def)
qed

lemma mark_fields:
  assumes "mark c s st = Inr st'"
  shows "ledger_of st' = ledger_of st \<and> pending st' = pending st \<and> fills st' = fills st
    \<and> all_ids st' = all_ids st \<and> order_seq st' = order_seq st \<and> strat st' = strat st
    \<and> rejections st' = rejections st \<and> expired st' = expired st \<and> cancelled st' = cancelled st"
  using assms by (auto simp: mark_def Let_def res_simps all_ids_def submitted_rejections_def)

lemma mark_drawdown:
  assumes "mark c s st = Inr st'" "drawdown_ok st" "fits (s_equity s)" "0 \<le> dval (s_equity s)"
  shows "drawdown_ok st'"
proof -
  define p where "p = dmax (peak st) (s_equity s)"
  have p: "fits p" "0 < dval p" "dval (s_equity s) \<le> dval p" "dcoef p \<noteq> 0"
    using assms by (auto simp: p_def dmax_def drawdown_ok_def dlt_iff dval_zero_iff [symmetric])
  note b = percentage [OF p(2,1) assms(4) p(3)]
  from assms(1) p have "st' = st\<lparr>peak := p,
      max_drawdown := dmax (max_drawdown st) (dmul (dquot (dsub p (s_equity s)) p) dhundred),
      in_market := in_market st', curve := curve st'\<rparr>"
    by (auto simp: mark_def Let_def ddiv_def dlt_iff p_def [symmetric])
  then have "peak st' = p" "max_drawdown st' = dmax (max_drawdown st) (dmul (dquot (dsub p (s_equity s)) p) dhundred)"
    by (metis run_state.simps run_state.surjective)+
  with assms(2) p b show ?thesis by (simp add: drawdown_ok_def dmax_val max_def)
qed

subsection \<open>The invariant of the loop\<close>

definition ids_ok :: "string \<Rightarrow> 's run_state \<Rightarrow> bool" where
  "ids_ok sid st = (all_ids st = mset (map (order_id sid) [1..<Suc (order_seq st)]))"

definition run_ok :: "string \<Rightarrow> nat \<Rightarrow> 's run_state \<Rightarrow> bool" where
  "run_ok sid n st = (ledger_ok (ledger_of st) \<and> 0 < dval (peak st) \<and> ids_ok sid st \<and> (\<forall>od \<in> set (pending st). pending_ok n od))"

lemma distinct_order_ids: "distinct (map (order_id sid) [m..<n])"
  by (simp add: distinct_map inj_on_def)

lemma ids_ok_same: "ids_ok sid st \<Longrightarrow> all_ids st' = all_ids st \<Longrightarrow> order_seq st' = order_seq st \<Longrightarrow> ids_ok sid st'"
  by (simp add: ids_ok_def)

lemma ids_ok_next:
  assumes "ids_ok sid st" "all_ids st' = add_mset (order_id sid (Suc (order_seq st))) (all_ids st)"
    "order_seq st' = Suc (order_seq st)"
  shows "ids_ok sid st'"
proof -
  have "[1..<Suc (Suc (order_seq st))] = [1..<Suc (order_seq st)] @ [Suc (order_seq st)]" by simp
  with assms show ?thesis by (simp add: ids_ok_def del: mset_upt upt_Suc)
qed

lemma ids_distinct:
  assumes "ids_ok sid st"
  shows "distinct (map po_id (pending st))"
proof -
  obtain xs where "all_ids st = mset xs + mset (map po_id (pending st))"
    by (metis all_ids_def mset_append)
  then have "mset (xs @ map po_id (pending st)) = mset (map (order_id sid) [1..<Suc (order_seq st)])"
    using assms by (simp add: ids_ok_def)
  then have "distinct (xs @ map po_id (pending st))"
    using distinct_order_ids by (metis mset_eq_imp_distinct_iff)
  then show ?thesis by simp
qed

lemma remove_by_id:
  assumes "distinct (map po_id ods)" "od \<in> set ods"
  shows "mset (map po_id ods) = add_mset (po_id od) (mset (map po_id (filter (\<lambda>x. po_id x \<noteq> po_id od) ods)))"
  using assms
proof (induction ods)
  case (Cons a ods)
  then have "a = od \<or> po_id a \<noteq> po_id od \<and> od \<in> set ods" by auto
  moreover have "filter (\<lambda>x. po_id x \<noteq> po_id a) ods = ods"
    using Cons.prems(1) by (intro filter_True) (force simp: image_iff)
  ultimately show ?case using Cons by (auto simp del: mset_map mset_filter)
qed simp

definition ttl_ok :: "int option \<Rightarrow> bool" where
  "ttl_ok t = (\<forall>n. t = Some n \<longrightarrow> 0 < n)"

lemma process_intent_step:
  assumes ok: "run_ok sid (Suc idx) st" and ttl: "ttl_ok ttl" and i: "good_intent i"
    and st': "process_intent sid ttl idx c st i = Inr st'"
  shows "run_ok sid (Suc idx) st' \<and> ledger_of st' = ledger_of st \<and> fills st' = fills st
    \<and> peak st' = peak st \<and> max_drawdown st' = max_drawdown st \<and> strat st' = strat st"
proof (cases i)
  case (Order oi)
  define od where "od = \<lparr>po_id = order_id sid (Suc (order_seq st)), po_side = oi_side oi,
    po_type = oi_type oi, po_qty = oi_qty oi, po_limit = oi_limit oi, po_index = idx, po_ts = c_ts c,
    po_ttl = (case oi_ttl oi of None \<Rightarrow> ttl | Some t \<Rightarrow> Some t), po_tag = oi_tag oi, po_waited = 0\<rparr>"
  have st: "st' = st\<lparr>order_seq := Suc (order_seq st), pending := pending st @ [od]\<rparr>"
    using st' by (simp add: Order process_intent_def od_def)
  have od: "po_index od = idx" "po_id od = order_id sid (Suc (order_seq st))"
    by (simp_all add: od_def)
  have od_ttl: "0 < t" if "po_ttl od = Some t" for t
    using that i ttl
    by (cases "oi_ttl oi") (auto simp: od_def Order good_intent_def order_intent_ok_def ttl_ok_def)
  have od_ok: "order_ok od"
    using i by (simp add: od_def Order good_intent_def order_intent_ok_def order_ok_def)
  have "all_ids st' = add_mset (po_id od) (all_ids st)"
    by (simp add: st all_ids_def submitted_rejections_def)
  then have "ids_ok sid st'"
    using ok od(2) ids_ok_next [of sid st st'] by (simp add: run_ok_def st)
  moreover have "pending_ok (Suc idx) od" using od od_ok od_ttl by (simp add: pending_ok_def)
  moreover have "\<forall>x \<in> set (pending st). pending_ok (Suc idx) x" "ledger_ok (ledger_of st)"
    "0 < dval (peak st)"
    using ok by (simp_all add: run_ok_def)
  ultimately show ?thesis unfolding run_ok_def by (simp add: st)
next
  case (Cancel ci)
  show ?thesis
  proof (cases "find (\<lambda>od. po_id od = ci_order ci) (pending st)")
    case None
    with st' ok show ?thesis
      unfolding Cancel
      by (auto simp: process_intent_def run_ok_def all_ids_def submitted_rejections_def
          elim!: ids_ok_same)
  next
    case (Some m)
    then have m: "m \<in> set (pending st)" "po_id m = ci_order ci" by (auto dest: find_Some_set)
    have "distinct (map po_id (pending st))" using ok ids_distinct by (auto simp: run_ok_def)
    note rem = remove_by_id [OF this m(1), unfolded m(2)]
    from st' Some ok rem show ?thesis
      unfolding Cancel
      by (auto simp: process_intent_def run_ok_def all_ids_def submitted_rejections_def
          elim!: ids_ok_same)
  qed
next
  case Foreign
  with st' show ?thesis by (simp add: process_intent_def)
qed

lemma process_intents:
  assumes "run_ok sid (Suc idx) st" "ttl_ok ttl" "\<forall>i \<in> set its. good_intent i"
    "run_steps (process_intent sid ttl idx c) st its = Inr st'"
  shows "run_ok sid (Suc idx) st' \<and> ledger_of st' = ledger_of st \<and> fills st' = fills st
    \<and> peak st' = peak st \<and> max_drawdown st' = max_drawdown st \<and> strat st' = strat st"
  using assms
proof (induction its arbitrary: st)
  case (Cons i its)
  then obtain m where m: "process_intent sid ttl idx c st i = Inr m"
    "run_steps (process_intent sid ttl idx c) m its = Inr st'" by (auto simp: res_simps)
  with Cons.prems have "run_ok sid (Suc idx) m \<and> ledger_of m = ledger_of st \<and> fills m = fills st
    \<and> peak m = peak st \<and> max_drawdown m = max_drawdown st \<and> strat m = strat st"
    using process_intent_step by (metis list.set_intros(1))
  with Cons.IH [OF _ Cons.prems(2) _ m(2)] Cons.prems(3) show ?case by simp
qed simp

lemma process_intent_error: "process_intent sid ttl idx c st i = Inl e \<Longrightarrow> \<exists>m. e = ReplayError m"
  by (cases i) (auto simp: process_intent_def split: option.splits)

lemma process_intents_error:
  "run_steps (process_intent sid ttl idx c) st its = Inl e \<Longrightarrow> \<exists>m. e = ReplayError m"
  by (induction its arbitrary: st) (auto simp: res_simps dest: process_intent_error)

subsection \<open>A whole candle\<close>

lemma ask_strategy_Inr:
  assumes "ask_strategy f c snap st = Inr (s', its)"
  shows "f (strat st) c snap (pending st) = Inr (s', RItems its) \<or> its = [] \<and> f (strat st) c snap (pending st) = Inr (s', RNone)"
  using assms by (auto simp: ask_strategy_def split: sum.splits returned.splits)

lemma ask_strategy_error: "ask_strategy f c snap st = Inl e \<Longrightarrow> \<exists>m. e = ReplayError m"
  by (auto simp: ask_strategy_def split: sum.splits returned.splits)

text \<open>The new fills of a candle come from orders that were open before it.\<close>

definition bar_fills :: "nat \<Rightarrow> candle \<Rightarrow> 's run_state \<Rightarrow> 's run_state \<Rightarrow> bool" where
  "bar_fills idx c st st' =
     (\<exists>fs. fills st' = fills st @ fs
        \<and> (\<forall>f \<in> set fs. \<exists>od \<in> set (pending st). po_index od < idx \<and> fill_of od c f))"

lemma pending_phase:
  assumes ok: "run_ok sid idx st" and c: "candle_ok c"
  obtains st1 where "process_pending costs idx c st = Inr st1" "run_ok sid (Suc idx) st1"
    "bar_fills idx c st st1" "strat st1 = strat st" "peak st1 = peak st" "max_drawdown st1 = max_drawdown st"
proof -
  have ods: "\<forall>od \<in> set (pending st). order_ok od \<and> po_index od < idx"
    using ok by (auto simp: run_ok_def pending_ok_def)
  obtain st1 where st1: "process_pending costs idx c st = Inr st1"
    and o: "outcomes idx c (st\<lparr>pending := []\<rparr>) (pending st) st1"
    using process_pending_outcomes [OF ods c] unfolding process_pending_def by blast
  note same = outcomes_same [OF o]
  have "all_ids st1 = all_ids st"
    using outcomes_ids [OF o] ods by (simp add: all_ids_def submitted_rejections_def)
  then have "ids_ok sid st1" using ok same ids_ok_same [of sid st st1] by (simp add: run_ok_def)
  moreover have "ledger_ok (ledger_of st1)" using outcomes_ledger [OF o] ok by (simp add: run_ok_def)
  moreover have "\<forall>x \<in> set (pending st1). pending_ok (Suc idx) x" using outcomes_pending [OF o ods] by simp
  ultimately have "run_ok sid (Suc idx) st1" using ok same by (simp add: run_ok_def)
  moreover have "bar_fills idx c st st1"
    using outcomes_fills [OF o] ods unfolding bar_fills_def by fastforce
  ultimately show thesis using same by (intro that [OF st1]) simp_all
qed

lemma mark_run_ok:
  assumes "mark c s st = Inr st'" "run_ok sid n st"
  shows "run_ok sid n st'"
proof -
  have "0 < dval (peak st')"
    using assms by (auto simp: mark_def Let_def res_simps run_ok_def dmax_val)
  moreover have "ids_ok sid st'"
    using mark_fields [OF assms(1)] assms(2) ids_ok_same [of sid st st'] by (simp add: run_ok_def)
  ultimately show ?thesis using mark_fields [OF assms(1)] assms(2) by (simp add: run_ok_def)
qed

context intent_source
begin

lemma bar_cases:
  assumes ok: "run_ok sid idx st" and c: "candle_ok c" and ttl: "ttl_ok (rc_ttl cfg)" and g: "good (strat st)"
  obtains (raises) m where "bar_step on_candle sid cfg st (idx, c) = Inl (ReplayError m)"
  | (returns) st' where "bar_step on_candle sid cfg st (idx, c) = Inr st'" "run_ok sid (Suc idx) st'"
      "good (strat st')" "bar_fills idx c st st'" "drawdown_ok st \<longrightarrow> drawdown_ok st'"
proof -
  obtain st1 where st1: "process_pending (rc_costs cfg) idx c st = Inr st1" "run_ok sid (Suc idx) st1"
    "bar_fills idx c st st1" "strat st1 = strat st" "peak st1 = peak st" "max_drawdown st1 = max_drawdown st"
    using ok c by (rule pending_phase)
  have close: "0 < dval (c_close c)" using c by (simp add: candle_ok_def)
  have l1: "ledger_ok (ledger_of st1)" "0 < dval (peak st1)" using st1 by (simp_all add: run_ok_def)
  obtain snap where snap: "ledger_snapshot (ledger_of st1) (VDec (c_close c)) = Inr snap"
    "s_equity snap = dadd (cash (ledger_of st1)) (dmul (inventory_qty (ledger_of st1)) (c_close c))"
    using ledger_snapshot_total [OF l1(1) close] by blast
  obtain st2 where st2: "mark c snap st1 = Inr st2" using mark_total [OF l1(2)] by blast
  note f2 = mark_fields [OF st2]
  have ok2: "run_ok sid (Suc idx) st2" using mark_run_ok [OF st2 st1(2)] .
  have dd: "drawdown_ok st \<longrightarrow> drawdown_ok st2"
    using mark_drawdown [OF st2] st1 snap(2) equity_nonneg [OF l1(1) close] by (simp add: drawdown_ok_def)
  have eq: "bar_step on_candle sid cfg st (idx, c) = rbind (ask_strategy on_candle c snap st2) (\<lambda>(s', its).
      run_steps (process_intent sid (rc_ttl cfg) idx c) (st2\<lparr>strat := s'\<rparr>) its)"
    by (simp add: bar_step_def st1 snap st2)
  show thesis
  proof (cases "ask_strategy on_candle c snap st2")
    case (Inl e)
    with ask_strategy_error [OF Inl] eq show thesis by (auto intro: raises)
  next
    case (Inr x)
    obtain s' its where x: "x = (s', its)" by (cases x)
    have g2: "good (strat st2)" using g f2 st1 by simp
    have g': "good s'" "\<forall>i \<in> set its. good_intent i"
      using ask_strategy_Inr [OF Inr [unfolded x]] good_kept [OF g2] intents_good [OF g2] by auto
    have ok3: "run_ok sid (Suc idx) (st2\<lparr>strat := s'\<rparr>)"
      using ok2 by (simp add: run_ok_def ids_ok_def all_ids_def submitted_rejections_def)
    have eq': "bar_step on_candle sid cfg st (idx, c)
        = run_steps (process_intent sid (rc_ttl cfg) idx c) (st2\<lparr>strat := s'\<rparr>) its"
      using eq Inr x by simp
    show thesis
    proof (cases "run_steps (process_intent sid (rc_ttl cfg) idx c) (st2\<lparr>strat := s'\<rparr>) its")
      case (Inl e)
      with process_intents_error [OF Inl] eq' show thesis by (auto intro: raises)
    next
      case (Inr st')
      note fin = process_intents [OF ok3 ttl g'(2) Inr]
      show thesis
        by (rule returns [of st']) (use fin eq' Inr g' dd f2 st1 in \<open>simp_all add: bar_fills_def drawdown_ok_def\<close>)
    qed
  qed
qed

end

subsection \<open>Whole runs\<close>

definition config_ok :: "replay_config \<Rightarrow> bool" where
  "config_ok cfg = (0 < dval (rc_cash cfg) \<and> 0 < dval (rc_max_inventory cfg) \<and> 0 < dval (rc_max_fill cfg)
     \<and> ttl_ok (rc_ttl cfg))"

lemma mk_replay_config_ok: "mk_replay_config a b c p t n = Inr cfg \<Longrightarrow> config_ok cfg"
  by (cases n) (auto simp: mk_replay_config_def res_simps config_ok_def ttl_ok_def
      dest!: as_decimal_Inr dest: check_ttl_pos split: option.splits if_split_asm)

definition config_ledger :: "replay_config \<Rightarrow> ledger" where
  "config_ledger cfg = \<lparr>starting_cash = rc_cash cfg, max_inventory = rc_max_inventory cfg,
     max_fill_qty = rc_max_fill cfg, cash = rc_cash cfg, inventory_qty = dzero, cost_basis = dzero,
     realized_pnl = dzero, total_fees = dzero, total_spread = dzero, total_slippage = dzero,
     turnover = dzero\<rparr>"

abbreviation first_state :: "replay_config \<Rightarrow> 's \<Rightarrow> 's run_state" where
  "first_state cfg s \<equiv> start_state cfg (config_ledger cfg) s"

lemma config_ledger_new:
  "config_ok cfg \<Longrightarrow>
    new_ledger (VDec (rc_cash cfg)) (VDec (rc_max_inventory cfg)) (VDec (rc_max_fill cfg)) = Inr (config_ledger cfg)"
  by (simp add: config_ok_def new_ledger_def config_ledger_def)

lemma first_state_ok:
  assumes "config_ok cfg"
  shows "run_ok sid 0 (first_state cfg s)"
  using assms new_ledger_ok [OF config_ledger_new [OF assms]]
  by (simp add: run_ok_def start_state_def ids_ok_def all_ids_def submitted_rejections_def config_ok_def)

lemma first_state_drawdown: "config_ok cfg \<Longrightarrow> fits (rc_cash cfg) \<Longrightarrow> drawdown_ok (first_state cfg s)"
  by (simp add: drawdown_ok_def start_state_def config_ok_def)

lemma first_state_simps [simp]: "strat (start_state cfg l s) = s" "fills (start_state cfg l s) = []"
  by (simp_all add: start_state_def)

lemma run_bars_snoc:
  "run_bars f sid cfg st (bars @ [c]) = rbind (run_bars f sid cfg st bars) (\<lambda>m. bar_step f sid cfg m (length bars, c))"
  by (simp add: run_bars_def enumerate_append_eq run_steps_append)

context intent_source
begin

lemma run_bars_cases:
  assumes "run_ok sid 0 st" "\<forall>c \<in> set bars. candle_ok c" "ttl_ok (rc_ttl cfg)" "good (strat st)"
  shows "(\<exists>m. run_bars on_candle sid cfg st bars = Inl (ReplayError m))
    \<or> (\<exists>st'. run_bars on_candle sid cfg st bars = Inr st' \<and> run_ok sid (length bars) st' \<and> good (strat st')
        \<and> (drawdown_ok st \<longrightarrow> drawdown_ok st'))"
  using assms(2)
proof (induction bars rule: rev_induct)
  case Nil
  with assms show ?case by (simp add: run_bars_def)
next
  case (snoc c bars)
  then consider m where "run_bars on_candle sid cfg st bars = Inl (ReplayError m)"
    | m where "run_bars on_candle sid cfg st bars = Inr m" "run_ok sid (length bars) m" "good (strat m)"
        "drawdown_ok st \<longrightarrow> drawdown_ok m" by auto
  then show ?case
  proof cases
    case 2
    have "candle_ok c" using snoc.prems by simp
    from 2(2) this assms(3) 2(3) show ?thesis
      by (cases rule: bar_cases) (use 2 in \<open>auto simp: run_bars_snoc\<close>)
  qed (simp add: run_bars_snoc)
qed

text \<open>Every fill of a run happened on some candle, from an order that was open before it.\<close>

lemma run_bars_fills:
  assumes "run_ok sid 0 st" "\<forall>c \<in> set bars. candle_ok c" "ttl_ok (rc_ttl cfg)" "good (strat st)" "fills st = []"
    and "run_bars on_candle sid cfg st bars = Inr st'" "f \<in> set (fills st')"
  shows "\<exists>j m od. j < length bars \<and> run_bars on_candle sid cfg st (take j bars) = Inr m
    \<and> od \<in> set (pending m) \<and> po_index od < j \<and> fill_of od (bars ! j) f"
  using assms(2,6,7)
proof (induction bars arbitrary: st' rule: rev_induct)
  case Nil
  with assms(5) show ?case by (simp add: run_bars_def)
next
  case (snoc c bars)
  then obtain m where m: "run_bars on_candle sid cfg st bars = Inr m"
    "bar_step on_candle sid cfg m (length bars, c) = Inr st'" by (auto simp: run_bars_snoc res_simps)
  have ok: "run_ok sid (length bars) m" "good (strat m)"
    using run_bars_cases [OF assms(1) _ assms(3,4), of bars] snoc.prems(1) m(1) by auto
  have "candle_ok c" using snoc.prems by simp
  from ok(1) this assms(3) ok(2) have "bar_fills (length bars) c m st'"
    by (cases rule: bar_cases) (use m in auto)
  then obtain fs where fs: "fills st' = fills m @ fs"
    "\<forall>f \<in> set fs. \<exists>od \<in> set (pending m). po_index od < length bars \<and> fill_of od c f"
    by (auto simp: bar_fills_def)
  show ?case
  proof (cases "f \<in> set (fills m)")
    case True
    with snoc.IH [OF _ m(1)] snoc.prems(1) obtain j m' od where "j < length bars"
      "run_bars on_candle sid cfg st (take j bars) = Inr m'" "od \<in> set (pending m')" "po_index od < j"
      "fill_of od (bars ! j) f" by auto
    then show ?thesis
      by (intro exI [of _ j] exI [of _ m'] exI [of _ od]) (simp add: nth_append)
  next
    case False
    with fs snoc.prems(3) obtain od where "od \<in> set (pending m)" "po_index od < length bars" "fill_of od c f"
      by auto
    with m(1) show ?thesis by (intro exI [of _ "length bars"] exI [of _ m] exI [of _ od]) simp
  qed
qed

end

subsection \<open>Logs only grow\<close>

definition logs_grow :: "'s run_state \<Rightarrow> 's run_state \<Rightarrow> bool" where
  "logs_grow a b =
     (prefix (fills a) (fills b) \<and> prefix (rejections a) (rejections b) \<and> prefix (expired a) (expired b)
      \<and> prefix (cancelled a) (cancelled b) \<and> prefix (curve a) (curve b))"

lemma logs_grow_refl: "logs_grow a a"
  and logs_grow_trans: "logs_grow a b \<Longrightarrow> logs_grow b c \<Longrightarrow> logs_grow a c"
  by (auto simp: logs_grow_def intro: prefix_order.trans)

lemma steps_grow:
  assumes "\<And>s e s'. f s e = Inr s' \<Longrightarrow> logs_grow s s'"
  shows "run_steps f s es = Inr s' \<Longrightarrow> logs_grow s s'"
  by (induction es arbitrary: s) (auto simp: res_simps intro: logs_grow_refl logs_grow_trans assms)

lemma process_order_grow:
  assumes "process_order costs idx c st od = Inr st'"
  shows "logs_grow st st'"
proof (cases "idx \<le> po_index od \<or> fill_price od c = Inr None")
  case True
  with assms show ?thesis
    by (cases "po_ttl od") (auto simp: process_order_def Let_def logs_grow_def split: if_split_asm)
next
  case False
  with assms obtain p where "fill_price od c = Inr (Some p)" "\<not> idx \<le> po_index od"
    by (auto simp: process_order_def res_simps)
  with assms show ?thesis
    by (cases "execute_fill od c p (ledger_of st) costs")
      (auto simp: process_order_def logs_grow_def split: if_split_asm)
qed

lemma process_intent_grow: "process_intent sid ttl idx c st i = Inr st' \<Longrightarrow> logs_grow st st'"
  by (auto simp: process_intent_def logs_grow_def split: intent.splits option.splits)

lemma bar_step_grow:
  assumes "bar_step f sid cfg st bar = Inr st'"
  shows "logs_grow st st'"
proof -
  obtain st1 snap st2 s' its where
    1: "run_steps (process_order (rc_costs cfg) (fst bar) (snd bar)) (st\<lparr>pending := []\<rparr>) (pending st) = Inr st1"
    and 2: "mark (snd bar) snap st1 = Inr st2"
    and 3: "run_steps (process_intent sid (rc_ttl cfg) (fst bar) (snd bar)) (st2\<lparr>strat := s'\<rparr>) its = Inr st'"
    using assms by (auto simp: bar_step_def process_pending_def Let_def res_simps)
  have "logs_grow (st\<lparr>pending := []\<rparr>) st1" by (rule steps_grow [OF process_order_grow 1])
  moreover have "logs_grow st1 st2" using 2 by (auto simp: mark_def Let_def res_simps logs_grow_def)
  moreover have "logs_grow (st2\<lparr>strat := s'\<rparr>) st'" by (rule steps_grow [OF process_intent_grow 3])
  ultimately show ?thesis by (auto simp: logs_grow_def intro: prefix_order.trans)
qed

subsection \<open>Serialisation never fails\<close>

fun plain :: "pyval \<Rightarrow> bool" where
  "plain (VFloat x) = False"
| "plain (VDec d) = False"
| "plain (VList xs) = list_all plain xs"
| "plain (VDict d) = list_all (\<lambda>(k, v). plain v) d"
| "plain v = True"





lemma plain_rows [simp]: "plain (row_value r)" "plain (candle_payload c)" "plain (config_to_dict cfg)"
  "plain (fill_value f)" "plain (rejection_value rj)" "plain (pending_value od)"
  by (auto simp: row_value_def candle_payload_def config_to_dict_def fill_value_def rejection_value_def
      pending_value_def dec_value_def list_all_iff split: option.split)
    (cases "rc_ttl cfg"; simp; fail | cases "po_ttl od"; simp)+


subsection \<open>Properties\<close>

definition demo_config :: replay_config where
  "demo_config = \<lparr>rc_cash = dec_of_int 1000, rc_max_inventory = dec_of_int 10, rc_max_fill = dec_of_int 5,
     rc_costs = default_costs, rc_ttl = None, rc_id = ''demo''\<rparr>"

definition demo_combo :: combo_state where
  "demo_combo = new_combo (demo_grid\<lparr>quote_per_order := dec_of_int 90\<rparr>) demo_dca"

definition demo_bars :: "candle list" where
  "demo_bars = [demo_candle 95, demo_candle 90]"

lemma demo_ok:
  "config_ok demo_config" "fits (rc_cash demo_config)" "\<forall>c \<in> set demo_bars. candle_ok c"
  "grid_ok (combo_grid demo_combo) \<and> dca_ok (dca_cfg (combo_dca demo_combo))"
  using mk_grid_config_ok [OF demo_grid_new] mk_dca_config_ok [OF demo_dca_new]
  by (simp_all add: config_ok_def demo_config_def ttl_ok_def demo_bars_def demo_candle_def candle_ok_def
      demo_combo_def new_combo_def new_dca_def grid_ok_def fits_def prec_def dec_of_int_def ndigits_num
      ndigits_small sign_lit)

lemmas run_eval = strategy_eval run_bars_def bar_step_def process_pending_def process_order_def fill_price_def
  execute_fill_def bps_denominator_def dhundred_def process_intent_def ask_strategy_def mark_def
  ledger_snapshot_def average_entry_price_def unrealized_pnl_def equity_def ledger_buy_def ledger_sell_def
  operation_values_def start_state_def config_ledger_def demo_config_def default_costs_def

lemma demo_run:
  "\<exists>st. run_bars combo_on_candle ''combo'' demo_config (first_state demo_config demo_combo) demo_bars = Inr st
     \<and> map f_price (fills st) = [Dec False 90 0]"
  by (simp add: run_eval demo_combo_def demo_bars_def cong: rbind_weak_cong)

lemmas combo_source = combo.intent_source_axioms

text \<open>C3: Every order is accounted for exactly once. Whatever strategy is replayed, after any run the
  ids of the filled, the rejected, the expired, the cancelled and the still open orders are
  together the ids given out, 1 to the number of orders submitted, each exactly once.\<close>

theorem replay_accounts_for_every_order:
  assumes src: "intent_source f good" and g: "good s" and cfg: "config_ok cfg"
    and bars: "\<forall>c \<in> set bars. candle_ok c"
    and run: "run_bars f sid cfg (first_state cfg s) bars = Inr st"
  shows "mset (map f_order (fills st)) + mset (map r_order (submitted_rejections st))
      + mset (map row_id (expired st)) + mset (map row_id (cancelled st)) + mset (map po_id (pending st))
    = mset (map (order_id sid) [1..<Suc (order_seq st)])"
proof -
  have "run_ok sid (length bars) st"
    using intent_source.run_bars_cases [OF src first_state_ok [OF cfg, of sid s] bars, of cfg] cfg g run
    by (auto simp: config_ok_def)
  then show ?thesis by (simp add: run_ok_def ids_ok_def all_ids_def)
qed

theorem replay_accounts_for_every_order_witness:
  "\<exists>st. run_bars combo_on_candle ''combo'' demo_config (first_state demo_config demo_combo) demo_bars = Inr st
     \<and> mset (map f_order (fills st)) + mset (map r_order (submitted_rejections st))
        + mset (map row_id (expired st)) + mset (map row_id (cancelled st)) + mset (map po_id (pending st))
      = mset (map (order_id ''combo'') [1..<Suc (order_seq st)])"
  using demo_run replay_accounts_for_every_order [OF combo_source demo_ok(4,1,3)] by blast

text \<open>C4: Fills are causal and fair. Every fill of a run happened on some candle \<open>j\<close> from an order
  that was open after the candles before \<open>j\<close> and had been submitted on one of them; its price lies
  between the low and the high of candle \<open>j\<close>; a market order gets the open, a limit order its limit
  or better.\<close>

theorem replay_fills_causal:
  assumes src: "intent_source f good" and g: "good s" and cfg: "config_ok cfg"
    and bars: "\<forall>c \<in> set bars. candle_ok c"
    and run: "run_bars f sid cfg (first_state cfg s) bars = Inr st" and x: "x \<in> set (fills st)"
  shows "\<exists>j m od. j < length bars \<and> run_bars f sid cfg (first_state cfg s) (take j bars) = Inr m
    \<and> od \<in> set (pending m) \<and> po_index od < j \<and> f_order x = po_id od \<and> f_ts x = c_ts (bars ! j)
    \<and> dval (c_low (bars ! j)) \<le> dval (f_price x) \<and> dval (f_price x) \<le> dval (c_high (bars ! j))
    \<and> (case po_limit od of
         None \<Rightarrow> f_price x = c_open (bars ! j)
       | Some lp \<Rightarrow> (if po_side od = ''buy'' then dval (f_price x) \<le> dval lp else dval lp \<le> dval (f_price x)))"
proof -
  have "ttl_ok (rc_ttl cfg)" using cfg by (simp add: config_ok_def)
  from intent_source.run_bars_fills [OF src first_state_ok [OF cfg, of sid s] bars this _ _ run x] g
  obtain j m od where "j < length bars" "run_bars f sid cfg (first_state cfg s) (take j bars) = Inr m"
    "od \<in> set (pending m)" "po_index od < j" "fill_of od (bars ! j) x" by auto
  then show ?thesis
    by (intro exI [of _ j] exI [of _ m] exI [of _ od]) (simp add: fill_of_def)
qed

theorem replay_fills_causal_witness:
  "\<exists>st x. run_bars combo_on_candle ''combo'' demo_config (first_state demo_config demo_combo) demo_bars = Inr st
     \<and> x \<in> set (fills st)
     \<and> (\<exists>j. j < 2 \<and> dval (c_low (demo_bars ! j)) \<le> dval (f_price x))"
proof -
  obtain st where st0: "run_bars combo_on_candle ''combo'' demo_config (first_state demo_config demo_combo)
    demo_bars = Inr st \<and> map f_price (fills st) = [Dec False 90 0]"
    using demo_run by (rule exE)
  note st = conjunct1 [OF st0] conjunct2 [OF st0]
  have "fills st \<noteq> []" using st(2) by auto
  then obtain x where x: "x \<in> set (fills st)" by (meson list.set_sel(1))
  have "length demo_bars = 2" by (simp add: demo_bars_def)
  with replay_fills_causal [OF combo_source demo_ok(4,1,3) st(1) x]
  obtain j where "j < 2" "dval (c_low (demo_bars ! j)) \<le> dval (f_price x)" by (elim exE conjE) simp
  with st(1) x show ?thesis by blast
qed

text \<open>C5: No run overdraws the ledger, and the reported drawdown is a percentage: after any run of any
  strategy cash and inventory are not negative, the inventory is within its limit, and the largest
  drawdown lies between 0 and 100, rounding included, when the starting cash has at most 28 digits.\<close>

theorem replay_ledger_and_drawdown:
  assumes src: "intent_source f good" and g: "good s" and cfg: "config_ok cfg" and cash: "fits (rc_cash cfg)"
    and bars: "\<forall>c \<in> set bars. candle_ok c"
    and run: "run_bars f sid cfg (first_state cfg s) bars = Inr st"
  shows "0 \<le> dval (cash (ledger_of st)) \<and> 0 \<le> dval (inventory_qty (ledger_of st))
    \<and> dval (inventory_qty (ledger_of st)) \<le> dval (max_inventory (ledger_of st))
    \<and> 0 \<le> dval (max_drawdown st) \<and> dval (max_drawdown st) \<le> 100"
proof -
  have "run_ok sid (length bars) st \<and> drawdown_ok st"
    using intent_source.run_bars_cases [OF src first_state_ok [OF cfg, of sid s] bars, of cfg] cfg g run
      first_state_drawdown [OF cfg cash, of s]
    by (auto simp: config_ok_def)
  then show ?thesis by (simp add: run_ok_def ledger_ok_def drawdown_ok_def)
qed

theorem replay_ledger_and_drawdown_witness:
  "\<exists>st. run_bars combo_on_candle ''combo'' demo_config (first_state demo_config demo_combo) demo_bars = Inr st
     \<and> 0 \<le> dval (cash (ledger_of st)) \<and> dval (max_drawdown st) \<le> 100"
  using demo_run replay_ledger_and_drawdown [OF combo_source demo_ok(4,1,2,3)] by blast

text \<open>C6: No look-ahead. If a replay of candles followed by more candles succeeds, then the replay of the
  first candles alone succeeds, and its fills, rejections, expiries, cancellations and equity curve
  are the beginning of those of the longer run: nothing that happened depends on later candles.\<close>

theorem replay_no_lookahead:
  assumes "run_bars f sid cfg st0 (xs @ ys) = Inr st"
  shows "\<exists>m. run_bars f sid cfg st0 xs = Inr m \<and> prefix (fills m) (fills st)
    \<and> prefix (rejections m) (rejections st) \<and> prefix (expired m) (expired st)
    \<and> prefix (cancelled m) (cancelled st) \<and> prefix (curve m) (curve st)"
proof -
  obtain m where m: "run_bars f sid cfg st0 xs = Inr m"
    "run_steps (bar_step f sid cfg) m (enumerate (length xs) ys) = Inr st"
    using assms by (auto simp: run_bars_def enumerate_append_eq run_steps_append res_simps)
  have "logs_grow m st" by (rule steps_grow [OF bar_step_grow m(2)])
  with m(1) show ?thesis by (simp add: logs_grow_def)
qed

theorem replay_no_lookahead_witness:
  "\<exists>m. run_bars combo_on_candle ''combo'' demo_config (first_state demo_config demo_combo) [demo_candle 95] = Inr m"
proof -
  obtain st where "run_bars combo_on_candle ''combo'' demo_config (first_state demo_config demo_combo)
    ([demo_candle 95] @ [demo_candle 90]) = Inr st" using demo_run by (auto simp: demo_bars_def)
  from replay_no_lookahead [OF this] show ?thesis by blast
qed

text \<open>An order with a time to live never outlives it: after \<open>n\<close> candles every open order was
  submitted on one of them, and if it expires after \<open>t\<close> candles, fewer than \<open>t\<close> have passed since.\<close>

theorem replay_orders_expire:
  assumes src: "intent_source f good" and g: "good s" and cfg: "config_ok cfg"
    and bars: "\<forall>c \<in> set bars. candle_ok c"
    and run: "run_bars f sid cfg (first_state cfg s) bars = Inr st"
    and od: "od \<in> set (pending st)"
  shows "po_index od < length bars
    \<and> (\<forall>t. po_ttl od = Some t \<longrightarrow> int (length bars) - 1 - int (po_index od) < t)"
proof -
  have "run_ok sid (length bars) st"
    using intent_source.run_bars_cases [OF src first_state_ok [OF cfg, of sid s] bars, of cfg] cfg g run
    by (auto simp: config_ok_def)
  with od show ?thesis by (auto simp: run_ok_def pending_ok_def)
qed

lemma demo_run_open:
  "\<exists>st od. run_bars combo_on_candle ''combo'' (demo_config\<lparr>rc_ttl := Some 3\<rparr>)
       (first_state (demo_config\<lparr>rc_ttl := Some 3\<rparr>) demo_combo) [demo_candle 95, demo_candle 95] = Inr st
     \<and> pending st = [od] \<and> po_ttl od = Some 3"
  by (simp add: run_eval demo_combo_def cong: rbind_weak_cong)

theorem replay_orders_expire_witness:
  "\<exists>st od. run_bars combo_on_candle ''combo'' (demo_config\<lparr>rc_ttl := Some 3\<rparr>)
       (first_state (demo_config\<lparr>rc_ttl := Some 3\<rparr>) demo_combo) [demo_candle 95, demo_candle 95] = Inr st
     \<and> pending st = [od] \<and> po_index od < 2 \<and> 1 - int (po_index od) < 3"
proof -
  obtain st od where st: "run_bars combo_on_candle ''combo'' (demo_config\<lparr>rc_ttl := Some 3\<rparr>)
      (first_state (demo_config\<lparr>rc_ttl := Some 3\<rparr>) demo_combo) [demo_candle 95, demo_candle 95] = Inr st"
    "pending st = [od]" "po_ttl od = Some 3" using demo_run_open by blast
  have ok: "config_ok (demo_config\<lparr>rc_ttl := Some 3\<rparr>)" "\<forall>c \<in> set [demo_candle 95, demo_candle 95]. candle_ok c"
    using demo_ok(1,3) by (simp_all add: config_ok_def ttl_ok_def demo_bars_def)
  from replay_orders_expire [OF combo_source demo_ok(4) ok st(1), of od] st show ?thesis by auto
qed









end
