(* ===== verification/PyFloat.thy ===== *)
theory PyFloat
  imports PyDatetime
begin

section \<open>More of Python's floats\<close>

text \<open>
  Division, \<^verbatim>\<open>float(value)\<close> and \<^verbatim>\<open>int(value)\<close> on the values of a document, fixed-point
  formatting, the built-ins that the code applies to floats, and what it does to values of a document. A float literal is \<open>flit\<close> of
  its decimal digits.
\<close>

definition flit :: "nat \<Rightarrow> nat \<Rightarrow> pyfloat" where
  "flit c k = fl_of_dec (Dec False c (- int k))"

definition fzero :: pyfloat where "fzero = Flt False 0 0"

text \<open>\<^verbatim>\<open>x / y\<close>.\<close>

fun fdiv :: "pyfloat \<Rightarrow> pyfloat \<Rightarrow> pyfloat res" where
  "fdiv (Flt s m e) (Flt t n f) =
     (if n = 0 then Inl (DivisionByZero ''float division by zero'')
      else Inr (fl_round (s \<noteq> t) (m * 2 ^ nat (e - f)) (n * 2 ^ nat (f - e))))"
| "fdiv FNaN (Flt t n f) = (if n = 0 then Inl (DivisionByZero ''float division by zero'') else Inr FNaN)"
| "fdiv (FInf s) (Flt t n f) =
     (if n = 0 then Inl (DivisionByZero ''float division by zero'') else Inr (FInf (s \<noteq> t)))"
| "fdiv (Flt s m e) (FInf t) = Inr (Flt (s \<noteq> t) 0 0)"
| "fdiv x y = Inr FNaN"

text \<open>\<^verbatim>\<open>max(a, b)\<close> and \<^verbatim>\<open>min(a, b)\<close>: the first of two that do not compare.\<close>

definition fmax :: "pyfloat \<Rightarrow> pyfloat \<Rightarrow> pyfloat" where "fmax a b = (if flt a b then b else a)"
definition fmin :: "pyfloat \<Rightarrow> pyfloat \<Rightarrow> pyfloat" where "fmin a b = (if flt b a then b else a)"

text \<open>\<^verbatim>\<open>float(value)\<close>; an integer beyond the range of floats overflows.\<close>

definition float_of_int :: "int \<Rightarrow> pyfloat res" where
  "float_of_int i =
     (let x = fl_of_int i
      in if is_finite x then Inr x else Inl (OverflowError ''int too large to convert to float''))"

fun float_of :: "pyval \<Rightarrow> pyfloat res" where
  "float_of (VFloat x) = Inr x"
| "float_of (VInt i) = float_of_int i"
| "float_of (VBool b) = Inr (fl_of_int (if b then 1 else 0))"
| "float_of (VDec d) = Inr (fl_of_dec d)"
| "float_of (VStr s) =
     (case float_of_text s of
        Some x \<Rightarrow> Inr x
      | None \<Rightarrow> Inl (ValueError (''could not convert string to float: '' @ str_repr s)))"
| "float_of v = Inl (TypeError ''float() argument must be a string or a real number'')"

text \<open>Truncation towards zero, and \<^verbatim>\<open>int(value)\<close>.\<close>

fun fl_trunc :: "pyfloat \<Rightarrow> int res" where
  "fl_trunc (Flt s m e) = Inr (fl_int s (m * 2 ^ nat e div 2 ^ nat (- e)))"
| "fl_trunc (FInf s) = Inl (OverflowError ''cannot convert float infinity to integer'')"
| "fl_trunc FNaN = Inl (ValueError ''cannot convert float NaN to integer'')"

text \<open>\<^verbatim>\<open>int(text)\<close>: a sign, digits, single underscores between digits, spaces around.\<close>

definition int_of_text :: "string \<Rightarrow> int option" where
  "int_of_text text =
     (let s = strip text; (neg, body) = take_sign s; ds = filter (\<lambda>c. c \<noteq> CHR ''_'') body
      in if body = [] \<or> ds = [] \<or> hd body = CHR ''_'' \<or> last body = CHR ''_'' \<or> \<not> underscores_ok body
            \<or> \<not> list_all is_digit ds
         then None
         else Some (if neg then - int (read_nat ds) else int (read_nat ds)))"

fun int_of :: "pyval \<Rightarrow> int res" where
  "int_of (VInt i) = Inr i"
| "int_of (VBool b) = Inr (if b then 1 else 0)"
| "int_of (VFloat x) = fl_trunc x"
| "int_of (VDec d) = Inr (int_of_dec d)"
| "int_of (VStr s) =
     (case int_of_text s of
        Some i \<Rightarrow> Inr i
      | None \<Rightarrow> Inl (ValueError (''invalid literal for int() with base 10: '' @ str_repr s)))"
| "int_of v = Inl (TypeError ''int() argument must be a string, a bytes-like object or a real number'')"

text \<open>\<^verbatim>\<open>f"{x:.kf}"\<close>: the exact value rounded half to even at the last digit shown.\<close>

fun fmt_fixed :: "nat \<Rightarrow> pyfloat \<Rightarrow> string" where
  "fmt_fixed k FNaN = ''nan''"
| "fmt_fixed k (FInf s) = (if s then ''-inf'' else ''inf'')"
| "fmt_fixed k (Flt s m e) =
     (let q = half_even (m * 2 ^ nat e * 10 ^ k) (2 ^ nat (- e)); ds = show_nat q;
          all = replicate (Suc k - length ds) CHR ''0'' @ ds; n = length all - k
      in (if s then ''-'' else []) @ take n all @ (if k = 0 then [] else ''.'' @ drop n all))"

text \<open>\<^verbatim>\<open>round(x, k)\<close> for a finite float: the decimal rounding of the exact value, as a float.\<close>

fun py_round :: "nat \<Rightarrow> pyfloat \<Rightarrow> pyfloat" where
  "py_round k (Flt s m e) = fl_round s (half_even (m * 2 ^ nat e * 10 ^ k) (2 ^ nat (- e))) (10 ^ k)"
| "py_round k x = x"

subsection \<open>Values of a document\<close>

text \<open>\<^verbatim>\<open>value[n]\<close>.\<close>

fun item_at :: "pyval \<Rightarrow> nat \<Rightarrow> pyval res" where
  "item_at (VList xs) n = (if n < length xs then Inr (xs ! n) else Inl (IndexError ''list index out of range''))"
| "item_at (VStr s) n = (if n < length s then Inr (VStr [s ! n]) else Inl (IndexError ''string index out of range''))"
| "item_at (VDict d) n = Inl (KeyError (show_nat n))"
| "item_at v n = Inl (TypeError ''object is not subscriptable'')"

text \<open>\<^verbatim>\<open>except (TypeError, ValueError, IndexError)\<close>; \<^verbatim>\<open>except (TypeError, ValueError)\<close>.\<close>

fun is_type_error :: "exc \<Rightarrow> bool" where
  "is_type_error (TypeError m) = True"
| "is_type_error e = False"

fun is_index_error :: "exc \<Rightarrow> bool" where
  "is_index_error (IndexError m) = True"
| "is_index_error e = False"

definition caught :: "exc \<Rightarrow> bool" where
  "caught e = (is_value_error e \<or> is_type_error e)"

fun filter_res :: "('a \<Rightarrow> bool res) \<Rightarrow> 'a list \<Rightarrow> 'a list res" where
  "filter_res p [] = Inr []"
| "filter_res p (x # xs) = rbind (p x) (\<lambda>b. rbind (filter_res p xs) (\<lambda>ys. Inr (if b then x # ys else ys)))"

text \<open>\<^verbatim>\<open>value in {"a", ...}\<close>, a set of strings: a list or a dictionary is not hashable.\<close>

fun in_text_set :: "pyval \<Rightarrow> string list \<Rightarrow> bool res" where
  "in_text_set (VStr s) xs = Inr (s \<in> set xs)"
| "in_text_set (VList ys) xs = Inl (TypeError ''unhashable type: list'')"
| "in_text_set (VDict d) xs = Inl (TypeError ''unhashable type: dict'')"
| "in_text_set v xs = Inr False"

text \<open>\<^verbatim>\<open>a / b\<close> of two non-negative integers.\<close>

definition nat_ratio :: "nat \<Rightarrow> nat \<Rightarrow> pyfloat" where
  "nat_ratio a b = fl_round False a b"

lemma filter_res_mem: "filter_res p xs = Inr ys \<Longrightarrow> y \<in> set ys \<Longrightarrow> y \<in> set xs \<and> p y = Inr True"
  by (induction xs arbitrary: ys) (auto simp: rbind_Inr_iff split: if_split_asm)

lemma filter_res_total: "\<forall>x \<in> set xs. \<exists>b. p x = Inr b \<Longrightarrow> filter_res p xs = Inr (filter (\<lambda>x. p x = Inr True) xs)"
  by (induction xs) auto

lemma py_eq_text [simp]: "py_eq (VStr s) v = (v = VStr s)" "py_eq v (VStr s) = (v = VStr s)"
proof -
  show "py_eq (VStr s) v = (v = VStr s)" by (subst py_eq.simps) simp
  show "py_eq v (VStr s) = (v = VStr s)" by (cases v; subst py_eq.simps) auto
qed

text \<open>A key looked up in a report written out.\<close>

lemma dget_find: "dget ((k', v) # d) k = (if k' = k then v else dget d k)" "dget [] k = VNone"
  by (simp_all add: dget_def)

lemma dget_append: "k \<notin> fst ` set d \<Longrightarrow> dget (d @ e) k = dget e k"
  by (induction d) (auto simp: dget_find)

lemma dset_get: "dget (dset d k v) k' = (if k' = k then v else dget d k')"
  by (induction d k v rule: dset.induct) (auto simp: dget_def)

lemma dupdate_get:
  assumes "k \<notin> fst ` set e"
  shows "dget (dupdate d e) k = dget d k"
  using assms by (induction e arbitrary: d) (auto simp: dupdate_def dset_get)

subsection \<open>Instants as texts\<close>

text \<open>\<^verbatim>\<open>isoformat()\<close> in UTC: the microseconds are left out when there are none.\<close>

definition isoformat_utc :: "int \<Rightarrow> string" where
  "isoformat_utc u = take (if u mod 1000000 = 0 then 19 else 26) (iso_z u) @ ''+00:00''"

text \<open>\<^verbatim>\<open>strftime("%Y-%m-%d")\<close> for years of four digits.\<close>

definition date_text :: "int \<Rightarrow> string" where
  "date_text u = take 10 (iso_z u)"

text \<open>\<^verbatim>\<open>total_seconds()\<close> of a difference in microseconds.\<close>

definition total_seconds :: "int \<Rightarrow> pyfloat" where
  "total_seconds us = fl_round (us < 0) (nat \<bar>us\<bar>) 1000000"

text \<open>What \<^verbatim>\<open>isoformat()\<close> prints reads back as the same instant.\<close>

lemma iso_z_at: "iso_z u = iso_at u (''.'' @ pad 6 (u mod us_per_day mod 1000000)) ''Z''"
  unfolding iso_z_text iso_text_def ..

lemma iso_lengths:
  assumes "0 \<le> u" "u < max_instant"
  shows "length (iso_at u f zone) = 19 + length f + length zone"
    and "take 19 (iso_at u f zone) = iso_at u [] []"
proof -
  obtain y m d where ymd: "ord2ymd (u div us_per_day + 1) = (y, m, d)" by (cases "ord2ymd (u div us_per_day + 1)")
  define us where "us = u mod us_per_day"
  have us: "0 \<le> us" "us < us_per_day" by (simp_all add: us_def us_per_day_def)
  have "u div us_per_day < 3652059"
    using assms div_less_pos [of us_per_day u 3652059] by (simp add: max_instant_def us_per_day_def)
  then have "1 \<le> u div us_per_day + 1" "u div us_per_day + 1 \<le> 3652059"
    using assms by (auto simp: us_per_day_def pos_imp_zdiv_nonneg_iff)
  then have "valid_date y m d" using ord2ymd_spec [of "u div us_per_day + 1"] ymd by auto
  then have l: "length (pad 4 y) = 4" "length (pad 2 m) = 2" "length (pad 2 d) = 2"
    using dim_le [of y m] digit_run_pad(1) [of y 4] digit_run_pad(1) [of m 2] digit_run_pad(1) [of d 2]
    by (auto simp: valid_date_def)
  have t: "length (pad 2 (us div 3600000000)) = 2" "length (pad 2 (us div 60000000 mod 60)) = 2"
    "length (pad 2 (us div 1000000 mod 60)) = 2"
    using hms_parts(2,3) [OF us] by (auto intro!: digit_run_pad(1))
  show "length (iso_at u f zone) = 19 + length f + length zone"
    by (simp add: iso_at_def Let_def ymd us_def [symmetric] l t)
  show "take 19 (iso_at u f zone) = iso_at u [] []"
    by (simp add: iso_at_def Let_def ymd us_def [symmetric] l t)
qed

lemma isoformat_utc_at:
  assumes "0 \<le> u" "u < max_instant"
  obtains f where "isoformat_utc u = iso_at u f ''+00:00''" "frac_text f (u mod us_per_day mod 1000000)"
proof -
  have dv: "u mod us_per_day mod 1000000 = u mod 1000000" by (simp add: us_per_day_def mod_mod_cancel)
  have z: "iso_at u f (zone) = iso_at u f [] @ zone" for f zone by (simp add: iso_at_def Let_def split: prod.split)
  show thesis
  proof (cases "u mod 1000000 = 0")
    case True
    then have "isoformat_utc u = iso_at u [] ''+00:00''"
      unfolding isoformat_utc_def iso_z_at z [of "[]" "''+00:00''"] by (simp add: iso_lengths(2) [OF assms])
    then show thesis by (rule that) (simp add: frac_text_def dv True)
  next
    case False
    let ?f = "''.'' @ pad 6 (u mod us_per_day mod 1000000)"
    have "length ?f = 7" using digit_run_pad(1) [of "u mod us_per_day mod 1000000" 6] by simp
    then have "length (iso_at u ?f []) = 26" using iso_lengths(1) [OF assms] by simp
    then have "isoformat_utc u = iso_at u ?f ''+00:00''"
      unfolding isoformat_utc_def iso_z_at z [of ?f "''+00:00''"] z [of ?f "''Z''"] using False by simp
    then show thesis by (rule that) (simp add: frac_text_def)
  qed
qed

lemma fromisoformat_isoformat:
  assumes "0 \<le> u" "u < max_instant"
  shows "fromisoformat (isoformat_utc u) = Some \<lparr>dt_local = u, dt_offset = Some 0\<rparr>"
proof -
  obtain f where "isoformat_utc u = iso_at u f ''+00:00''" "frac_text f (u mod us_per_day mod 1000000)"
    using isoformat_utc_at [OF assms] .
  with fromisoformat_at [OF assms] show ?thesis by simp
qed

lemma isoformat_no_z:
  assumes "0 \<le> u" "u < max_instant"
  shows "CHR ''Z'' \<notin> set (isoformat_utc u)"
proof -
  obtain f where f: "isoformat_utc u = iso_at u f ''+00:00''" "frac_text f (u mod us_per_day mod 1000000)"
    using isoformat_utc_at [OF assms] .
  obtain y m d where ymd: "ord2ymd (u div us_per_day + 1) = (y, m, d)" by (cases "ord2ymd (u div us_per_day + 1)")
  have "CHR ''Z'' \<notin> set (pad k i)" for k i
    using show_nat_digits [of "nat i"] by (auto simp: pad_def Let_def is_digit_def)
  with f show ?thesis by (auto simp: iso_at_def Let_def ymd frac_text_def)
qed

subsection \<open>The order of floats\<close>

lemma flt_irrefl: "\<not> flt x x"
  by (cases x) (simp_all add: Let_def)

lemma flt_nan [simp]: "\<not> flt FNaN x" "\<not> flt x FNaN" "\<not> feq FNaN x" "\<not> feq x FNaN"
  by (cases x; simp)+

text \<open>Comparison of finite floats is comparison of their values.\<close>

lemma powi_nat: "(b::rat) powi int k = b ^ k"
  by (simp add: power_int_def)

lemma powi_scale: "g \<le> x \<Longrightarrow> of_int (i * 2 ^ nat (x - g)) * (2::rat) powi g = of_int i * 2 powi x"
proof -
  assume "g \<le> x"
  then obtain k where "x = g + int k" using zle_iff_zadd by blast
  then show ?thesis by (simp add: power_int_add powi_nat)
qed

lemma feq_value: "feq (Flt s m e) (Flt t n f) \<longleftrightarrow> of_int (fl_int s m) * (2::rat) powi e = of_int (fl_int t n) * 2 powi f"
proof -
  define g where "g = min e f"
  have "feq (Flt s m e) (Flt t n f) \<longleftrightarrow> of_int (fl_int s m * 2 ^ nat (e - g)) = (of_int (fl_int t n * 2 ^ nat (f - g)) :: rat)"
    by (simp only: feq.simps Let_def g_def of_int_eq_iff)
  also have "\<dots> \<longleftrightarrow> of_int (fl_int s m * 2 ^ nat (e - g)) * (2::rat) powi g = of_int (fl_int t n * 2 ^ nat (f - g)) * 2 powi g"
    by simp
  also have "\<dots> \<longleftrightarrow> of_int (fl_int s m) * (2::rat) powi e = of_int (fl_int t n) * 2 powi f"
    by (simp only: g_def powi_scale min.cobounded1 min.cobounded2)
  finally show ?thesis .
qed

lemma flt_value_iff: "flt (Flt s m e) (Flt t n f) \<longleftrightarrow> of_int (fl_int s m) * (2::rat) powi e < of_int (fl_int t n) * 2 powi f"
proof -
  define g where "g = min e f"
  have "flt (Flt s m e) (Flt t n f) \<longleftrightarrow> of_int (fl_int s m * 2 ^ nat (e - g)) < (of_int (fl_int t n * 2 ^ nat (f - g)) :: rat)"
    by (simp only: flt.simps Let_def g_def of_int_less_iff)
  also have "\<dots> \<longleftrightarrow> of_int (fl_int s m * 2 ^ nat (e - g)) * (2::rat) powi g < of_int (fl_int t n * 2 ^ nat (f - g)) * 2 powi g"
    by (rule mult_less_cancel_right_pos [symmetric]) simp
  also have "\<dots> \<longleftrightarrow> of_int (fl_int s m) * (2::rat) powi e < of_int (fl_int t n) * 2 powi f"
    by (simp only: g_def powi_scale min.cobounded1 min.cobounded2)
  finally show ?thesis .
qed

lemma flt_trans: "flt x y \<Longrightarrow> flt y z \<Longrightarrow> flt x z"
  by (cases x; cases y; cases z) (auto simp: flt_value_iff simp del: flt.simps(1))

lemma fle_flt_trans: "flt x y \<Longrightarrow> fle y z \<Longrightarrow> flt x z"
  by (cases x; cases y; cases z) (auto simp: fle_def flt_value_iff feq_value simp del: flt.simps(1) feq.simps(1))

text \<open>Evaluation of float operations on literals by simplification.\<close>

lemma int_nbits:
  "int (nbits (numeral (Num.Bit0 n))) = int (nbits (numeral n)) + 1"
  "int (nbits (numeral (Num.Bit1 n))) = int (nbits (numeral n)) + 1"
  "int (nbits 1) = 1" "int (nbits (Suc 0)) = 1" "int (nbits 0) = 0"
proof -
  have "nbits (numeral (Num.Bit0 n)) = Suc (nbits (numeral n))" by (subst nbits.simps) simp
  moreover have "nbits (numeral (Num.Bit1 n)) = Suc (nbits (numeral n))" by (subst nbits.simps) simp
  moreover have "nbits 1 = 1" by (subst nbits.simps, simp, subst nbits.simps, simp)
  moreover have "nbits 0 = 0" by (subst nbits.simps) simp
  ultimately show "int (nbits (numeral (Num.Bit0 n))) = int (nbits (numeral n)) + 1"
    "int (nbits (numeral (Num.Bit1 n))) = int (nbits (numeral n)) + 1"
    "int (nbits 1) = 1" "int (nbits (Suc 0)) = 1" "int (nbits 0) = 0"
    by simp_all
qed

lemmas float_eval = fl_of_dec_def fl_round_def fl_exp_def fl_scale_def half_even_def
  int_nbits fl_of_scaled_def fl_int_def fsub_def fle_def fzero_def fl_of_int_def

end
