(* ===== verification/FloatText.thy ===== *)
theory FloatText
  imports PyFloat
begin

section \<open>The text of a float reads back\<close>

text \<open>
  Rounding to binary64 in terms of rational numbers: the exponent that \<open>fl_exp\<close> finds is the only one
  in range, a quotient near a float is rounded to it, equal quotients are rounded alike. From this,
  that seventeen digits tell a float from its neighbours, and that the shortest digits which
  \<^verbatim>\<open>repr\<close> prints, in any of its notations, read back as the float.
\<close>

subsection \<open>Rounding\<close>

lemma nbits_bounds: "0 < n \<Longrightarrow> 2 ^ (nbits n - 1) \<le> n \<and> n < 2 ^ nbits n \<and> 0 < nbits n"
proof (induction n rule: nbits.induct)
  case (1 n)
  have b: "nbits n = Suc (nbits (n div 2))" using 1(2) by (subst nbits.simps) simp
  show ?case
  proof (cases "n div 2 = 0")
    case True
    then have "n = 1" using 1(2) by (simp add: div_eq_0_iff)
    then show ?thesis by (simp add: b nbits.simps)
  next
    case False
    then have i: "2 ^ (nbits (n div 2) - 1) \<le> n div 2" "n div 2 < 2 ^ nbits (n div 2)" "0 < nbits (n div 2)" using 1 by simp_all
    then have "2 ^ nbits (n div 2) = 2 * (2::nat) ^ (nbits (n div 2) - 1)" by (metis power_minus_mult mult.commute)
    moreover obtain q where "q = (2::nat) ^ (nbits (n div 2) - 1)" by simp
    ultimately have "q \<le> n div 2" "n div 2 < 2 * q" "2 ^ nbits (n div 2) = 2 * q" using i by simp_all
    then have "2 * q \<le> n" "n < 4 * q" "2 ^ nbits (n div 2) = 2 * q" by linarith+
    then show ?thesis unfolding b by simp
  qed
qed

abbreviation ratio :: "nat \<Rightarrow> nat \<Rightarrow> rat" where "ratio num den \<equiv> of_nat num / of_nat den"

lemma two_power_nat: "(2::rat) ^ k \<le> of_nat n \<longleftrightarrow> 2 ^ k \<le> n" "of_nat n < (2::rat) ^ k \<longleftrightarrow> n < 2 ^ k"
  by (metis of_nat_le_iff of_nat_numeral of_nat_power, metis of_nat_less_iff of_nat_numeral of_nat_power)

lemma ten_power_nat: "(10::rat) ^ k \<le> of_nat n \<longleftrightarrow> 10 ^ k \<le> n" "of_nat n < (10::rat) ^ k \<longleftrightarrow> n < 10 ^ k"
  by (metis of_nat_le_iff of_nat_numeral of_nat_power, metis of_nat_less_iff of_nat_numeral of_nat_power)

lemma two_powi_split: "(2::rat) powi e = of_nat (2 ^ nat e) / of_nat (2 ^ nat (- e))"
  by (cases "0 \<le> e") (auto simp: power_int_def field_simps power_inverse)

lemma ten_powi_split: "(10::rat) powi e = of_nat (10 ^ nat e) / of_nat (10 ^ nat (- e))"
  by (cases "0 \<le> e") (auto simp: power_int_def field_simps power_inverse)

lemma fl_scale_ratio:
  assumes "fl_scale num den e = (n, d)" "0 < den"
  shows "0 < d" "ratio n d * 2 powi e = ratio num den"
  using assms by (auto simp: fl_scale_def two_powi_split field_simps)

lemma powi_le: "a \<le> b \<Longrightarrow> (2::rat) powi a \<le> 2 powi b"
  by (simp add: power_int_increasing)

lemma fl_exp_bounds:
  assumes "0 < num" "0 < den"
  shows "ratio num den < 2 ^ 53 * 2 powi fl_exp num den" "- 1074 \<le> fl_exp num den"
    "fl_exp num den \<noteq> - 1074 \<Longrightarrow> 2 ^ 52 * 2 powi fl_exp num den \<le> ratio num den"
proof -
  define e0 where "e0 = int (nbits num) - int (nbits den) - 53"
  obtain n d where s: "fl_scale num den e0 = (n, d)" by fastforce
  note r = fl_scale_ratio [OF s assms(2)]
  define E where "E = (if 2 ^ 53 * d \<le> n then e0 + 1 else e0)"
  have e: "fl_exp num den = max (- 1074) E" by (simp add: fl_exp_def Let_def e0_def [symmetric] s E_def)
  let ?v = "ratio num den"
  obtain a where a: "nbits num = Suc a" using nbits_bounds [OF assms(1)] by (cases "nbits num") auto
  obtain b where b: "nbits den = Suc b" using nbits_bounds [OF assms(2)] by (cases "nbits den") auto
  have n: "(2::rat) ^ a \<le> of_nat num" "of_nat num < (2::rat) ^ Suc a"
    using nbits_bounds [OF assms(1)] unfolding a by (simp_all add: two_power_nat del: power_Suc)
  have d: "(2::rat) ^ b \<le> of_nat den" "of_nat den < (2::rat) ^ Suc b"
    using nbits_bounds [OF assms(2)] unfolding b by (simp_all add: two_power_nat del: power_Suc)
  have lo: "2 powi (e0 + 52) \<le> ?v"
  proof -
    have "(2::rat) powi (e0 + 52) = 2 ^ a / 2 ^ Suc b" by (simp add: e0_def a b power_int_diff power_int_add powi_nat)
    also have "\<dots> \<le> ?v" using n d assms by (intro frac_le) auto
    finally show ?thesis .
  qed
  have hi: "?v < 2 powi (e0 + 54)"
  proof -
    have "?v < 2 ^ Suc a / 2 ^ b" using n d assms by (intro frac_less) auto
    also have "\<dots> = (2::rat) powi (e0 + 54)" by (simp add: e0_def a b power_int_diff power_int_add powi_nat)
    finally show ?thesis .
  qed
  have c: "2 ^ 53 * d \<le> n \<longleftrightarrow> 2 ^ 53 * 2 powi e0 \<le> ?v"
  proof -
    have "2 ^ 53 * d \<le> n \<longleftrightarrow> (2::rat) ^ 53 * of_nat d \<le> of_nat n"
      unfolding of_nat_le_iff [where 'a = rat, symmetric] by (simp only: of_nat_mult of_nat_power of_nat_numeral)
    also have "\<dots> \<longleftrightarrow> 2 ^ 53 \<le> ratio n d" using r(1) by (simp add: pos_le_divide_eq)
    also have "\<dots> \<longleftrightarrow> 2 ^ 53 * (2::rat) powi e0 \<le> ratio n d * 2 powi e0" by (rule mult_le_cancel_right_pos [symmetric]) simp
    finally show ?thesis unfolding r(2) .
  qed
  have E: "?v < 2 ^ 53 * 2 powi E" "2 ^ 52 * 2 powi E \<le> ?v"
    using lo hi c by (auto simp: E_def power_int_add split: if_splits)
  have "2 ^ 53 * (2::rat) powi E \<le> 2 ^ 53 * 2 powi fl_exp num den" unfolding e by (intro mult_left_mono powi_le) auto
  with E(1) show "?v < 2 ^ 53 * 2 powi fl_exp num den" by linarith
  show "- 1074 \<le> fl_exp num den" by (simp add: e)
  show "2 ^ 52 * 2 powi fl_exp num den \<le> ?v" if "fl_exp num den \<noteq> - 1074"
    using E(2) that unfolding e by (simp add: max_def split: if_splits)
qed

text \<open>The exponent is the only one within these bounds.\<close>

lemma fl_exp_unique:
  assumes "0 < num" "0 < den" "ratio num den < 2 ^ 53 * 2 powi e" "- 1074 \<le> e"
    "e \<noteq> - 1074 \<Longrightarrow> 2 ^ 52 * 2 powi e \<le> ratio num den"
  shows "fl_exp num den = e"
proof -
  let ?f = "fl_exp num den" and ?v = "ratio num den"
  note f = fl_exp_bounds [OF assms(1,2)]
  have False if a: "?v < 2 ^ 53 * 2 powi x" "2 ^ 52 * 2 powi y \<le> ?v" "x < y" for x y
  proof -
    have "2 ^ 53 * (2::rat) powi x = 2 ^ 52 * 2 powi (x + 1)" by (simp add: power_int_add)
    also have "\<dots> \<le> 2 ^ 52 * 2 powi y" using a(3) by (intro mult_left_mono powi_le) auto
    finally show False using a(1,2) by linarith
  qed
  with f assms(3-5) show ?thesis by (metis linorder_less_linear order_less_le)
qed


lemma two_abs_less: "2 * \<bar>a\<bar> < b \<longleftrightarrow> 2 * a < b \<and> - (2 * a) < (b::rat)"
  by (auto simp: abs_if)

lemma abs_scale: "0 < u \<Longrightarrow> \<bar>a * u - b * u\<bar> = \<bar>a - b\<bar> * (u::rat)"
  by (metis abs_mult abs_of_pos left_diff_distrib)

lemma near_scale: "0 < u \<Longrightarrow> 2 * \<bar>a * u - b * u\<bar> < u \<longleftrightarrow> 2 * \<bar>a - b\<bar> < (1::rat)"
proof -
  assume u: "0 < u"
  show ?thesis using abs_scale [OF u] mult_less_cancel_right_pos [OF u, of "2 * \<bar>a - b\<bar>" 1] by (simp add: mult.assoc)
qed

lemma half_even_near:
  assumes "0 < d" "2 * \<bar>ratio n d - of_nat m\<bar> < 1"
  shows "half_even n d = m"
proof -
  have "of_nat n = of_nat (n div d) * of_nat d + (of_nat (n mod d) :: rat)" by (metis div_mult_mod_eq of_nat_add of_nat_mult)
  then have r: "ratio n d = of_nat (n div d) + of_nat (n mod d) / of_nat d" using assms(1) by (simp add: field_simps)
  define x where "x = (of_nat (n mod d) / of_nat d :: rat)"
  have x: "0 \<le> x" "x < 1" using assms(1) by (simp_all add: x_def)
  have h: "d < 2 * (n mod d) \<longleftrightarrow> 1 < 2 * x" "2 * (n mod d) = d \<longleftrightarrow> 2 * x = 1"
  proof -
    have "d < 2 * (n mod d) \<longleftrightarrow> (of_nat d :: rat) < 2 * of_nat (n mod d)" by (metis of_nat_less_iff of_nat_mult of_nat_numeral)
    then show "d < 2 * (n mod d) \<longleftrightarrow> 1 < 2 * x" using assms(1) by (simp add: x_def field_simps)
    have "2 * (n mod d) = d \<longleftrightarrow> 2 * (of_nat (n mod d) :: rat) = of_nat d" by (metis of_nat_eq_iff of_nat_mult of_nat_numeral)
    then show "2 * (n mod d) = d \<longleftrightarrow> 2 * x = 1" using assms(1) by (auto simp: x_def field_simps)
  qed
  define k where "k = int (n div d) - int m"
  have k: "of_nat (n div d) = of_int k + (of_nat m :: rat)" by (simp add: k_def)
  have m: "2 * of_int k + 2 * x < 1" "- (2 * of_int k) - 2 * x < 1"
    using assms(2) unfolding r x_def [symmetric] k two_abs_less by (simp_all add: distrib_left)
  show ?thesis
  proof (cases "1 < 2 * x")
    case True
    then have "of_int k < (0 :: rat)" "- 2 < (of_int k :: rat)" using m x by linarith+
    then have "k = - 1" by linarith
    then have "Suc (n div d) = m" by (simp add: k_def)
    with True h show ?thesis by (simp add: half_even_def Let_def)
  next
    case False
    then have "of_int k < (1 :: rat)" "- 1 < (of_int k :: rat)" "2 * x \<noteq> 1" using m x by auto
    then have "n div d = m" "2 * x \<noteq> 1" by (auto simp: k_def)
    with False h show ?thesis by (simp add: half_even_def Let_def)
  qed
qed

text \<open>The floats that rounding gives: a mantissa of 53 bits, or the least exponent.\<close>

fun fl_proper :: "pyfloat \<Rightarrow> bool" where
  "fl_proper (Flt s m e) =
     (if m = 0 then e = 0 else m < 2 ^ 53 \<and> - 1074 \<le> e \<and> e \<le> 971 \<and> (2 ^ 52 \<le> m \<or> e = - 1074))"
| "fl_proper x = False"

text \<open>A quotient closer to a float than half the distance to its neighbours is rounded to it.\<close>

lemma fl_round_near:
  assumes p: "fl_proper (Flt s m e)" "m \<noteq> 0" and den: "0 < den"
    and near: "2 * \<bar>ratio num den - of_nat m * 2 powi e\<bar> < 2 powi e"
    and low: "m = 2 ^ 52 \<Longrightarrow> e \<noteq> - 1074 \<Longrightarrow> 4 * (of_nat m * 2 powi e - ratio num den) < 2 powi e"
  shows "fl_round s num den = Flt s m e"
proof -
  let ?v = "ratio num den" and ?u = "(2::rat) powi e"
  have m: "m < 2 ^ 53" "- 1074 \<le> e" "e \<le> 971" "2 ^ 52 \<le> m \<or> e = - 1074" using p by simp_all
  have u: "0 < ?u" by simp
  have near': "2 * ?v - 2 * (of_nat m * ?u) < ?u" "2 * (of_nat m * ?u) - 2 * ?v < ?u"
    using near unfolding two_abs_less by (simp_all add: right_diff_distrib)
  have m1: "of_nat m * ?u \<ge> 1 * ?u" using p(2) u by (intro mult_right_mono) auto
  then have v: "0 < ?v" using near' u by linarith
  then have num: "0 < num" using den by (simp add: zero_less_divide_iff)
  have "of_nat m + 1 \<le> (2::rat) ^ 53" using m(1) by (metis Suc_leI add.commute of_nat_Suc of_nat_le_iff of_nat_numeral of_nat_power)
  then have "(of_nat m + 1) * ?u \<le> 2 ^ 53 * ?u" by (intro mult_right_mono) auto
  then have hi: "?v < 2 ^ 53 * ?u" using near' u unfolding distrib_right by linarith
  show ?thesis
  proof (cases "e \<noteq> - 1074 \<and> ?v < 2 ^ 52 * ?u")
    case False
    then have e: "fl_exp num den = e" using fl_exp_unique [OF num den hi m(2)] by fastforce
    obtain n d where s: "fl_scale num den e = (n, d)" by fastforce
    note r = fl_scale_ratio [OF s den]
    have "half_even n d = m"
      using near half_even_near [OF r(1)] unfolding r(2) [symmetric] near_scale [OF u] by simp
    then show ?thesis using num m p(2) by (simp add: fl_round_def Let_def e s)
  next
    case True
    then have "2 ^ 52 \<le> m" using m(4) by simp
    have "\<not> 2 ^ 52 < m"
    proof
      assume "2 ^ 52 < m"
      then have "(2::rat) ^ 52 + 1 \<le> of_nat m" by (metis Suc_leI add.commute of_nat_Suc of_nat_le_iff of_nat_numeral of_nat_power)
      then have "((2::rat) ^ 52 + 1) * ?u \<le> of_nat m * ?u" by (intro mult_right_mono) auto
      then show False using True near' u unfolding distrib_right by linarith
    qed
    with \<open>2 ^ 52 \<le> m\<close> have mm: "m = 2 ^ 52" by simp
    let ?w = "(2::rat) powi (e - 1)"
    have w: "?u = 2 * ?w" "0 < ?w" by (simp_all add: power_int_diff)
    have b: "?v < 2 ^ 53 * ?w" "4 * (2 ^ 52 * ?u - ?v) < ?u" using True low mm by (simp_all add: w(1))
    then have e: "fl_exp num den = e - 1" using True m(2) w by (intro fl_exp_unique [OF num den]) auto
    obtain n d where s: "fl_scale num den (e - 1) = (n, d)" by fastforce
    note r = fl_scale_ratio [OF s den]
    have "2 * \<bar>?v - 2 ^ 53 * ?w\<bar> < ?w" using b w by (simp add: abs_if)
    then have "half_even n d = 2 ^ 53"
      using half_even_near [OF r(1), of n "2 ^ 53"] unfolding r(2) [symmetric] near_scale [OF w(2)] by simp
    then show ?thesis using num m by (simp add: fl_round_def Let_def e s mm)
  qed
qed


lemma half_even_error: "0 < d \<Longrightarrow> 2 * \<bar>ratio n d - of_nat (half_even n d)\<bar> \<le> 1"
proof -
  assume d: "0 < d"
  have "of_nat n = of_nat (n div d) * of_nat d + (of_nat (n mod d) :: rat)" by (metis div_mult_mod_eq of_nat_add of_nat_mult)
  then have r: "ratio n d = of_nat (n div d) + of_nat (n mod d) / of_nat d" using d by (simp add: field_simps)
  define x where "x = (of_nat (n mod d) / of_nat d :: rat)"
  have x: "0 \<le> x" "x < 1" using d by (simp_all add: x_def)
  have c: "of_nat a < (of_nat b :: rat) \<longleftrightarrow> a < b" for a b :: nat by simp
  have up: "d < 2 * (n mod d) \<Longrightarrow> 1 < 2 * x" "\<not> d < 2 * (n mod d) \<Longrightarrow> 2 * x \<le> 1" "2 * (n mod d) = d \<Longrightarrow> 2 * x = 1"
  proof -
    have "d < 2 * (n mod d) \<longleftrightarrow> (of_nat d :: rat) < 2 * of_nat (n mod d)" by (metis of_nat_less_iff of_nat_mult of_nat_numeral)
    then show "d < 2 * (n mod d) \<Longrightarrow> 1 < 2 * x" "\<not> d < 2 * (n mod d) \<Longrightarrow> 2 * x \<le> 1" using d by (simp_all add: x_def field_simps)
    have "2 * (n mod d) = d \<longleftrightarrow> 2 * (of_nat (n mod d) :: rat) = of_nat d" by (metis of_nat_eq_iff of_nat_mult of_nat_numeral)
    then show "2 * (n mod d) = d \<Longrightarrow> 2 * x = 1" using d by (auto simp: x_def field_simps)
  qed
  show ?thesis unfolding r x_def [symmetric] using up x by (auto simp: half_even_def Let_def abs_if)
qed

lemma fl_round_proper:
  assumes "fl_round s num den = y" "0 < den" "is_finite y"
  shows "\<exists>m e. y = Flt s m e \<and> fl_proper y"
proof (cases "num = 0")
  case True
  then show ?thesis using assms(1) by (auto simp: fl_round_def)
next
  case False
  define e where "e = fl_exp num den"
  obtain n d where s: "fl_scale num den e = (n, d)" by fastforce
  note r = fl_scale_ratio [OF s assms(2)]
  note b = fl_exp_bounds [of num den, folded e_def]
  define q where "q = half_even n d"
  have "ratio n d * 2 powi e < 2 ^ 53 * 2 powi e" using b(1) False assms(2) unfolding r(2) by simp
  then have "ratio n d < 2 ^ 53" by (simp only: mult_less_cancel_right_pos zero_less_power_int zero_less_numeral)
  then have "of_nat n \<le> (2::rat) ^ 53 * of_nat d" using r(1) by (simp add: field_simps)
  then have "n \<le> 2 ^ 53 * d" by (metis of_nat_le_iff of_nat_mult of_nat_numeral of_nat_power)
  then have hi: "q \<le> 2 ^ 53" using half_even_mono [OF r(1), of n "2 ^ 53 * d"] half_even_mult [OF r(1)] by (simp add: q_def)
  have lo: "2 ^ 52 \<le> q" if "e \<noteq> - 1074"
  proof -
    have "2 ^ 52 * 2 powi e \<le> ratio n d * 2 powi e" using b(3) False assms(2) that unfolding r(2) by simp
    then have "2 ^ 52 \<le> ratio n d" by (simp only: mult_le_cancel_right_pos zero_less_power_int zero_less_numeral)
    then have "(2::rat) ^ 52 * of_nat d \<le> of_nat n" using r(1) by (simp add: field_simps)
    then have "2 ^ 52 * d \<le> n" by (metis of_nat_le_iff of_nat_mult of_nat_numeral of_nat_power)
    then show ?thesis using half_even_mono [OF r(1), of "2 ^ 52 * d" n] half_even_mult [OF r(1)] by (simp add: q_def)
  qed
  have y: "y = (let (q', e') = if q = 2 ^ 53 then (2 ^ 52, e + 1) else (q, e)
      in if q' = 0 then Flt s 0 0 else if 971 < e' then FInf s else Flt s q' e')"
    using False unfolding assms(1) [symmetric] by (simp only: fl_round_def Let_def e_def [symmetric] s prod.case q_def [symmetric] if_False)
  show ?thesis using assms(3) hi lo b(2) False assms(2) unfolding y by (auto split: if_splits)
qed

lemma flt_value:
  assumes "fl_proper (Flt s m e)" "m \<noteq> 0"
  shows "fl_round t (m * 2 ^ nat e) (2 ^ nat (- e)) = Flt t m e"
proof -
  have "ratio (m * 2 ^ nat e) (2 ^ nat (- e)) = of_nat m * 2 powi e" by (simp add: two_powi_split)
  then show ?thesis using assms by (intro fl_round_near) auto
qed

lemma fl_round_cong:
  assumes "ratio a b = ratio c d" "0 < b" "0 < d"
  shows "fl_round s a b = fl_round s c d"
proof (cases "a = 0 \<or> c = 0")
  case True
  then have "a = 0" "c = 0" using assms by auto
  then show ?thesis by (simp add: fl_round_def)
next
  case False
  then have nz: "0 < a" "0 < c" by simp_all
  define e where "e = fl_exp c d"
  have e: "fl_exp a b = e" unfolding e_def
    using fl_exp_bounds [OF nz(2) assms(3)] assms(1) by (intro fl_exp_unique [OF nz(1) assms(2)]) simp_all
  obtain n d' n' d'' where s: "fl_scale a b e = (n, d')" "fl_scale c d e = (n', d'')" by fastforce
  note r = fl_scale_ratio [OF s(1) assms(2)] and r' = fl_scale_ratio [OF s(2) assms(3)]
  have "ratio n d' * 2 powi e = ratio n' d'' * 2 powi e" using r(2) r'(2) assms(1) by simp
  then have "ratio n d' = ratio n' d''" by (metis mult_right_cancel power_int_not_zero zero_neq_numeral)
  then have "of_nat n * of_nat d'' = (of_nat n' * of_nat d' :: rat)" using r(1) r'(1) by (simp add: field_simps)
  then have "n * d'' = n' * d'" by (metis of_nat_eq_iff of_nat_mult)
  then have "half_even (n * d'') (d' * d'') = half_even (n' * d') (d'' * d')" by (simp add: mult.commute)
  then have "half_even n d' = half_even n' d''" by (simp add: half_even_scale r(1) r'(1))
  then show ?thesis using nz by (simp add: fl_round_def Let_def e e_def [symmetric] s)
qed

lemma feq_proper:
  assumes "feq (fl_round False num den) (Flt False m e)" "fl_proper (Flt False m e)" "m \<noteq> 0" "0 < den"
  shows "fl_round False num den = Flt False m e"
proof -
  have "is_finite (fl_round False num den)" using assms(1) by (cases "fl_round False num den") auto
  then obtain n f where y: "fl_round False num den = Flt False n f" "fl_proper (Flt False n f)"
    using fl_round_proper [OF refl assms(4)] by metis
  have v: "of_nat n * (2::rat) powi f = of_nat m * 2 powi e" using assms(1) unfolding y(1) feq_value by (simp add: fl_int_def)
  have nz: "n \<noteq> 0"
  proof
    assume "n = 0"
    with v assms(3) show False by simp
  qed
  have "ratio (m * 2 ^ nat e) (2 ^ nat (- e)) = ratio (n * 2 ^ nat f) (2 ^ nat (- f))"
    using v by (simp add: two_powi_split)
  then have "Flt False m e = Flt False n f"
    using fl_round_cong flt_value [OF assms(2,3)] flt_value [OF y(2) nz] by (metis zero_less_power zero_less_numeral)
  with y(1) show ?thesis by simp
qed


lemma dec_exp10_bounds:
  assumes "0 < num" "0 < den"
  shows "10 powi (dec_exp10 num den - 1) \<le> ratio num den" "ratio num den < 10 powi dec_exp10 num den"
proof -
  define k where "k = int (ndigits num) - int (ndigits den)"
  let ?v = "ratio num den"
  obtain a where a: "ndigits num = Suc a" by (cases "ndigits num") (metis ndigits_pos less_numeral_extra(3), blast)
  obtain b where b: "ndigits den = Suc b" by (cases "ndigits den") (metis ndigits_pos less_numeral_extra(3), blast)
  have n: "(10::rat) ^ a \<le> of_nat num" "of_nat num < (10::rat) ^ Suc a"
    using ndigits_le [OF assms(1)] ndigits_less [of num] unfolding a by (simp_all add: ten_power_nat del: power_Suc)
  have d: "(10::rat) ^ b \<le> of_nat den" "of_nat den < (10::rat) ^ Suc b"
    using ndigits_le [OF assms(2)] ndigits_less [of den] unfolding b by (simp_all add: ten_power_nat del: power_Suc)
  have "(10::rat) powi (k - 1) = 10 ^ a / 10 ^ Suc b" by (simp add: k_def a b power_int_diff power_int_add powi_nat)
  also have "\<dots> \<le> ?v" using n d assms by (intro frac_le) auto
  finally have lo: "10 powi (k - 1) \<le> ?v" .
  have "?v < 10 ^ Suc a / 10 ^ b" using n d assms by (intro frac_less) auto
  also have "\<dots> = (10::rat) powi (k + 1)" by (simp add: k_def a b power_int_diff power_int_add powi_nat)
  finally have hi: "?v < 10 powi (k + 1)" .
  have "den * 10 ^ nat k \<le> num * 10 ^ nat (- k) \<longleftrightarrow> of_nat den * (10::rat) ^ nat k \<le> of_nat num * 10 ^ nat (- k)"
    unfolding of_nat_le_iff [where 'a = rat, symmetric] by (simp only: of_nat_mult of_nat_power of_nat_numeral)
  also have "\<dots> \<longleftrightarrow> 10 powi k \<le> ?v" using assms by (simp add: ten_powi_split field_simps)
  finally show "10 powi (dec_exp10 num den - 1) \<le> ?v" "?v < 10 powi dec_exp10 num den"
    using lo hi by (auto simp: dec_exp10_def Let_def k_def [symmetric])
qed

text \<open>Seventeen digits tell a float from its neighbours.\<close>

lemma seventeen_digits:
  assumes x: "fl_proper (Flt False m e)" "m \<noteq> 0"
    and k: "10 powi (k - 1) \<le> of_nat m * (2::rat) powi e"
    and c: "2 * \<bar>of_nat c * 10 powi (k - 17) - of_nat m * 2 powi e\<bar> \<le> (10::rat) powi (k - 17)"
  shows "fl_of_dec (Dec False c (k - 17)) = Flt False m e"
proof -
  let ?t = "(10::rat) powi (k - 17)" and ?u = "(2::rat) powi e"
  define v where "v = of_nat m * ?u"
  define w where "w = of_nat c * ?t"
  have t: "?t * 10 ^ 16 \<le> v" using k unfolding v_def by (simp add: power_int_diff)
  have u: "0 < ?u" by simp
  have "of_nat m + 1 \<le> (2::rat) ^ 53"
    using x by (metis Suc_leI add.commute fl_proper.simps(1) of_nat_Suc of_nat_le_iff of_nat_numeral of_nat_power)
  then have v: "v \<le> 2 ^ 53 * ?u - ?u" unfolding v_def using mult_right_mono [of "of_nat m + 1" "2 ^ 53" ?u] by (simp add: distrib_right)
  have t: "10000000000000000 * ?t \<le> v" and v: "v \<le> 9007199254740991 * ?u" using t v by simp_all
  have small: "?t < ?u" using t v u by linarith
  have near: "2 * w - 2 * v \<le> ?t" "2 * v - 2 * w \<le> ?t" using c unfolding v_def [symmetric] w_def [symmetric] by (auto simp: abs_if split: if_splits)
  have r: "ratio (c * 10 ^ nat (k - 17)) (10 ^ nat (- (k - 17))) = w" by (simp add: w_def ten_powi_split)
  have "fl_round False (c * 10 ^ nat (k - 17)) (10 ^ nat (- (k - 17))) = Flt False m e"
  proof (rule fl_round_near [OF x])
    show "2 * \<bar>ratio (c * 10 ^ nat (k - 17)) (10 ^ nat (- (k - 17))) - of_nat m * ?u\<bar> < ?u"
      unfolding r v_def [symmetric] two_abs_less right_diff_distrib using near small by linarith
    show "4 * (of_nat m * ?u - ratio (c * 10 ^ nat (k - 17)) (10 ^ nat (- (k - 17)))) < ?u" if "m = 2 ^ 52"
    proof -
      have "v = 4503599627370496 * ?u" by (simp add: v_def that)
      then show ?thesis unfolding r v_def [symmetric] right_diff_distrib using near t u by linarith
    qed
  qed simp
  then show ?thesis by (simp add: fl_of_dec_def)
qed

lemma short_digits_reads:
  assumes x: "fl_proper (Flt False m e)" "m \<noteq> 0"
    and den: "0 < den" "ratio num den = of_nat m * 2 powi e" and k: "10 powi (k - 1) \<le> ratio num den"
  shows "short_digits fuel n num den k (Flt False m e) = (c, p) \<Longrightarrow> fl_of_dec (Dec False c p) = Flt False m e"
proof (induction fuel arbitrary: n)
  case 0
  let ?n = "num * 10 ^ nat (17 - k)" and ?d = "den * 10 ^ nat (k - 17)"
  have p: "p = k - 17" "c = half_even ?n ?d" using 0 by auto
  have d: "0 < ?d" using den(1) by simp
  have t: "0 < (10::rat) powi (k - 17)" by simp
  have v: "of_nat m * 2 powi e = ratio ?n ?d * 10 powi (k - 17)"
    unfolding den(2) [symmetric] using den(1) by (simp add: ten_powi_split)
  have "2 * \<bar>of_nat c * 10 powi (k - 17) - of_nat m * 2 powi e\<bar> = 2 * \<bar>ratio ?n ?d - of_nat c\<bar> * (10::rat) powi (k - 17)"
    unfolding v abs_scale [OF t] by (simp add: abs_minus_commute)
  also have "\<dots> \<le> 1 * 10 powi (k - 17)" using half_even_error [OF d, of ?n] t unfolding p(2) by (intro mult_right_mono) auto
  finally show ?case unfolding p(1) using seventeen_digits [OF x k [unfolded den(2)]] by simp
next
  case (Suc fuel)
  have b: "fl_of_dec (Dec False a q) = Flt False m e" if "feq (fl_of_dec (Dec False a q)) (Flt False m e)" for a q
    using that feq_proper [OF _ x] unfolding fl_of_dec_def by simp
  show ?case using Suc.prems Suc.IH b by (auto simp: Let_def split: if_splits)
qed


subsection \<open>The text of a float\<close>

lemma fl_of_dec_cong:
  assumes "of_nat c * (10::rat) powi p = of_nat c' * 10 powi p'"
  shows "fl_of_dec (Dec s c p) = fl_of_dec (Dec s c' p')"
proof -
  have "ratio (a * 10 ^ nat q) (10 ^ nat (- q)) = of_nat a * 10 powi q" for a q by (simp add: ten_powi_split)
  then show ?thesis unfolding fl_of_dec_def using assms by (simp add: fl_round_cong)
qed

definition frac_part :: "string \<Rightarrow> string" where
  "frac_part fp = (if fp = [] then [] else CHR ''.'' # fp)"

definition exp_part :: "string \<Rightarrow> bool" where
  "exp_part xp = (xp = [] \<or> (\<exists>sg es. xp = CHR ''e'' # sg # es \<and> sg \<in> {CHR ''+'', CHR ''-''} \<and> es \<noteq> [] \<and> (\<forall>c \<in> set es. is_digit c)))"

definition num_parts :: "string \<Rightarrow> string \<Rightarrow> string \<Rightarrow> bool" where
  "num_parts ip fp xp = (ip \<noteq> [] \<and> (\<forall>c \<in> set ip. is_digit c) \<and> (\<forall>c \<in> set fp. is_digit c) \<and> exp_part xp)"

lemma num_parts_chars:
  assumes "num_parts ip fp xp" "c \<in> set ((if s then ''-'' else []) @ ip @ frac_part fp @ xp)"
  shows "\<not> is_space c" "c \<noteq> CHR ''_''"
proof -
  define Q where "Q = (\<lambda>c. \<not> is_space c \<and> c \<noteq> CHR ''_'')"
  have d: "\<And>c. is_digit c \<Longrightarrow> Q c" unfolding Q_def using is_digit_not_special by auto
  have special: "Q CHR ''-''" "Q CHR ''.''" "Q CHR ''e''" "Q CHR ''+''" unfolding Q_def by code_simp+
  have "Q c" using assms d special by (auto simp: num_parts_def exp_part_def frac_part_def split: if_splits)
  then show "\<not> is_space c" "c \<noteq> CHR ''_''" by (simp_all add: Q_def)
qed

lemma exp_part_read: "exp_part xp \<Longrightarrow> \<exists>n. parse_exp xp = Some n"
  by (auto simp: exp_part_def parse_exp_def take_sign_def list_all_iff)

lemma exp_part_head: "exp_part xp \<Longrightarrow> xp = [] \<or> \<not> is_digit (hd xp)" "exp_part xp \<Longrightarrow> xp = [] \<or> hd xp \<noteq> CHR ''.''"
proof -
  have "\<not> is_digit CHR ''e''" by code_simp
  then show "exp_part xp \<Longrightarrow> xp = [] \<or> \<not> is_digit (hd xp)" "exp_part xp \<Longrightarrow> xp = [] \<or> hd xp \<noteq> CHR ''.''"
    by (auto simp: exp_part_def)
qed

lemma dec_parse_parts:
  assumes parts: "num_parts ip fp xp" and n: "parse_exp xp = Some n"
  shows "dec_parse ((if s then ''-'' else []) @ ip @ frac_part fp @ xp) = PFinite (Dec s (read_nat (ip @ fp)) (n - int (length fp)))"
proof -
  let ?t = "(if s then ''-'' else []) @ ip @ frac_part fp @ xp" and ?body = "ip @ frac_part fp @ xp"
  note c = num_parts_chars [OF parts, of _ s]
  have d: "ip \<noteq> []" "\<forall>c \<in> set ip. is_digit c" "\<forall>c \<in> set fp. is_digit c" "exp_part xp" using parts by (simp_all add: num_parts_def)
  have "strip ?t = ?t" using c(1) by (intro strip_no_space) blast
  then have clean: "filter (\<lambda>c. c \<noteq> CHR ''_'') (strip ?t) = ?t" using c(2) by (simp add: filter_id_conv)
  obtain a ip' where a: "ip = a # ip'" using d(1) by (cases ip) auto
  then have "a \<noteq> CHR ''-''" "a \<noteq> CHR ''+''" using d(2) is_digit_not_special [of a] by auto
  then have sgn: "take_sign ?t = (s, ?body)" by (simp add: take_sign_def a)
  note e = exp_part_head [OF d(4)]
  have w: "takeWhile is_digit ?body = ip" "dropWhile is_digit ?body = frac_part fp @ xp"
    using e by (auto intro!: split_digits [OF d(2)] simp: frac_part_def)
  have "split_frac (frac_part fp @ xp) = (fp, xp)"
    using e split_digits [OF d(3) e(1)] by (cases xp) (auto simp: split_frac_def frac_part_def)
  then show ?thesis by (simp add: dec_parse_def clean sgn w n d(1))
qed

lemma underscores_none: "CHR ''_'' \<notin> set t \<Longrightarrow> underscores_ok t"
  by (induction t rule: underscores_ok.induct) auto

lemma lower_head: "is_digit c \<Longrightarrow> lower (c # t) = c # lower t"
  by (auto simp: lower_def lower_char_def is_digit_def Let_def)

lemma float_of_parts:
  assumes parts: "num_parts ip fp xp" and n: "parse_exp xp = Some n"
  shows "float_of_text ((if s then ''-'' else []) @ ip @ frac_part fp @ xp) = Some (fl_of_dec (Dec s (read_nat (ip @ fp)) (n - int (length fp))))"
proof -
  let ?t = "(if s then ''-'' else []) @ ip @ frac_part fp @ xp" and ?body = "ip @ frac_part fp @ xp"
  note c = num_parts_chars [OF parts, of _ s]
  obtain a ip' where a: "ip = a # ip'" "is_digit a" using parts by (cases ip) (auto simp: num_parts_def)
  then have m: "a \<noteq> CHR ''-''" "a \<noteq> CHR ''+''" "a \<noteq> CHR ''n''" using is_digit_not_special [OF a(2)] by auto
  have i: "a \<noteq> CHR ''i''" using a(2) by (auto simp: is_digit_def)
  have st: "strip ?t = ?t" using c(1) by (intro strip_no_space) blast
  have sgn: "take_sign ?t = (s, ?body)" using m by (simp add: take_sign_def a)
  have ne: "?t \<noteq> []" by (simp add: a)
  have lo: "lower ?body = a # lower (ip' @ frac_part fp @ xp)" using lower_head [OF a(2)] by (simp add: a)
  have u: "underscores_ok ?t" "hd ?t \<noteq> CHR ''_''" "last ?t \<noteq> CHR ''_''"
    using c(2) [OF hd_in_set [OF ne]] c(2) [OF last_in_set [OF ne]] c(2) [of "CHR ''_''"] underscores_none [of ?t] by blast+
  show ?thesis unfolding float_of_text_def Let_def st sgn prod.case lo dec_parse_parts [OF parts n]
    using u m i ne by simp
qed


lemma fl_round_sign: "fl_round False a b = Flt False m e \<Longrightarrow> fl_round s a b = Flt s m e"
  by (auto simp: fl_round_def Let_def split: if_splits prod.splits)

lemma show_nat_head: "show_nat n = c # ds \<Longrightarrow> c = CHR ''0'' \<Longrightarrow> ds = []"
proof (induction n arbitrary: ds rule: show_nat.induct)
  case (1 n)
  show ?case
  proof (cases "n < 10")
    case True
    with 1 show ?thesis by (subst (asm) (2) show_nat.simps) simp
  next
    case False
    obtain c' ds' where d: "show_nat (n div 10) = c' # ds'" by (cases "show_nat (n div 10)") auto
    with 1(2) False have "c' = c" by (subst (asm) show_nat.simps) simp
    with 1 False d have "ds' = []" by simp
    with d 1(3) \<open>c' = c\<close> have "show_nat (n div 10) = show_nat 0"
      by (subst show_nat.simps [of 0]) (simp add: digit_char_def)
    with False have False by simp
    then show ?thesis ..
  qed
qed

lemma show_nat_leading: "0 < c \<Longrightarrow> hd (show_nat c) \<noteq> CHR ''0''"
proof
  assume c: "0 < c" "hd (show_nat c) = CHR ''0''"
  then have "show_nat c = ''0''" using show_nat_head [of c] by (cases "show_nat c") auto
  moreover have "show_nat 0 = ''0''" by (subst show_nat.simps) (simp add: digit_char_def)
  ultimately show False using c(1) by (metis less_irrefl show_nat_inject)
qed

lemma zero_digit: "digit_val CHR ''0'' = 0"
  by code_simp

lemma read_nat_tail_zeros: "read_nat (s @ replicate k CHR ''0'') = read_nat s * 10 ^ k"
proof (induction k)
  case (Suc k)
  show ?case using zero_digit Suc read_nat_append_digit [of "s @ replicate k CHR ''0''" "CHR ''0''"]
    by (simp flip: replicate_append_same)
qed simp

text \<open>The digits of \<open>c\<close> in one of the notations of \<^verbatim>\<open>repr\<close>, standing for \<open>c * 10 ^ p\<close>.\<close>

definition written :: "string \<Rightarrow> nat \<Rightarrow> int \<Rightarrow> bool" where
  "written t c p = (\<exists>ip fp xp n. t = ip @ frac_part fp @ xp \<and> num_parts ip fp xp \<and> parse_exp xp = Some n
     \<and> (fp \<noteq> [] \<or> xp \<noteq> []) \<and> (ip = ''0'' \<or> hd ip \<noteq> CHR ''0'')
     \<and> of_nat (read_nat (ip @ fp)) * (10::rat) powi (n - int (length fp)) = of_nat c * 10 powi p)"

lemma writtenI:
  assumes "t = ip @ frac_part fp @ xp" "num_parts ip fp xp" "parse_exp xp = Some n" "fp \<noteq> [] \<or> xp \<noteq> []"
    "ip = ''0'' \<or> hd ip \<noteq> CHR ''0''"
    "of_nat (read_nat (ip @ fp)) * (10::rat) powi (n - int (length fp)) = of_nat c * 10 powi p"
  shows "written t c p"
  using assms unfolding written_def by blast

lemma point_notation:
  assumes "0 < c" "pt = p + int (length (show_nat c))"
  shows "pt \<le> 0 \<Longrightarrow> written (''0.'' @ replicate (nat (- pt)) CHR ''0'' @ show_nat c) c p"
    "0 < pt \<Longrightarrow> int (length (show_nat c)) \<le> pt
      \<Longrightarrow> written (show_nat c @ replicate (nat pt - length (show_nat c)) CHR ''0'' @ ''.0'') c p"
    "0 < pt \<Longrightarrow> pt < int (length (show_nat c)) \<Longrightarrow> written (take (nat pt) (show_nat c) @ ''.'' @ drop (nat pt) (show_nat c)) c p"
proof -
  let ?ds = "show_nat c"
  have ds: "\<forall>a \<in> set ?ds. is_digit a" "read_nat ?ds = c" "?ds \<noteq> []" using show_nat_digits by auto
  note hd = show_nat_leading [OF assms(1)]
  show "written (''0.'' @ replicate (nat (- pt)) CHR ''0'' @ ?ds) c p" if "pt \<le> 0"
    by (rule writtenI [of _ "''0''" "replicate (nat (- pt)) CHR ''0'' @ ?ds" "[]" 0])
      (use ds that assms in \<open>auto simp: num_parts_def exp_part_def frac_part_def read_nat_zero_first read_nat_zeros\<close>)
  show "written (?ds @ replicate (nat pt - length ?ds) CHR ''0'' @ ''.0'') c p" if "0 < pt" and le: "int (length ?ds) \<le> pt"
  proof (rule writtenI [of _ "?ds @ replicate (nat pt - length ?ds) CHR ''0''" "''0''" "[]" 0])
    obtain k where "pt = int (length ?ds) + int k" using le zle_iff_zadd by blast
    then have k: "nat pt - length ?ds = k" "p = int k" using assms(2) by (simp_all add: nat_add_distrib)
    show "of_nat (read_nat ((?ds @ replicate (nat pt - length ?ds) CHR ''0'') @ ''0'')) * (10::rat) powi (0 - int (length ''0'')) = of_nat c * 10 powi p"
      using read_nat_tail_zeros [of ?ds "Suc k"] ds(2) by (simp add: k powi_nat replicate_append_same power_int_minus flip: replicate_Suc)
  qed (use ds hd in \<open>auto simp: num_parts_def exp_part_def frac_part_def\<close>)
  show "written (take (nat pt) ?ds @ ''.'' @ drop (nat pt) ?ds) c p" if "0 < pt" "pt < int (length ?ds)"
    by (rule writtenI [of _ "take (nat pt) ?ds" "drop (nat pt) ?ds" "[]" 0])
      (use ds hd that assms in \<open>auto simp: num_parts_def exp_part_def frac_part_def dest: in_set_takeD in_set_dropD\<close>)
qed


lemma exponent_notation:
  assumes "0 < c" "x = p + int (length (show_nat c)) - 1"
  shows "written (take 1 (show_nat c) @ (if length (show_nat c) = 1 then [] else ''.'' @ drop 1 (show_nat c))
    @ (if x < 0 then ''e-'' else ''e+'') @ (if \<bar>x\<bar> < 10 then ''0'' else []) @ show_nat (nat \<bar>x\<bar>)) c p"
proof -
  let ?ds = "show_nat c" and ?es = "(if \<bar>x\<bar> < 10 then ''0'' else []) @ show_nat (nat \<bar>x\<bar>)"
  let ?xp = "(if x < 0 then ''e-'' else ''e+'') @ ?es"
  have ds: "\<forall>a \<in> set ?ds. is_digit a" "read_nat ?ds = c" "?ds \<noteq> []" using show_nat_digits by auto
  have es: "\<forall>a \<in> set ?es. is_digit a" "read_nat ?es = nat \<bar>x\<bar>" "?es \<noteq> []"
    using show_nat_digits [of "nat \<bar>x\<bar>"] by (auto simp: read_nat_zero_first)
  have n: "parse_exp ?xp = Some x"
    using es by (auto simp: parse_exp_def take_sign_def list_all_iff read_nat_zero_first)
  have "exp_part ?xp" using es unfolding exp_part_def by auto
  moreover obtain a ds' where a: "?ds = a # ds'" using ds(3) by (cases ?ds) auto
  ultimately show ?thesis
    using ds n show_nat_leading [OF assms(1)] assms(2)
    by (intro writtenI [of _ "take 1 ?ds" "drop 1 ?ds" ?xp x]) (auto simp: num_parts_def frac_part_def a)
qed

lemma float_repr_written:
  assumes x: "fl_proper (Flt s m e)" "m \<noteq> 0"
  shows "\<exists>t c p. float_repr (Flt s m e) = (if s then ''-'' else []) @ t \<and> written t c p \<and> fl_of_dec (Dec s c p) = Flt s m e"
proof -
  let ?num = "m * 2 ^ nat e" and ?den = "2 ^ nat (- e) :: nat"
  define k where "k = dec_exp10 ?num ?den"
  obtain c0 p0 where s0: "short_digits 16 1 ?num ?den k (Flt False m e) = (c0, p0)" by fastforce
  obtain c p where z: "drop_zeros c0 p0 (p0 + 400) = (c, p)" by fastforce
  have x': "fl_proper (Flt False m e)" using x by simp
  have v: "ratio ?num ?den = of_nat m * 2 powi e" by (simp add: two_powi_split)
  have "fl_of_dec (Dec False c0 p0) = Flt False m e"
    using short_digits_reads [OF x' x(2) _ v _ s0] dec_exp10_bounds(1) [of ?num ?den] x(2) unfolding k_def by simp
  then have F: "fl_of_dec (Dec False c p) = Flt False m e" using fl_of_dec_cong [OF drop_zeros_val [OF z], of False] by simp
  have d: "fl_of_dec (Dec s c p) = Flt s m e" using F unfolding fl_of_dec_def dec.sel by (rule fl_round_sign)
  have c: "0 < c"
  proof (rule ccontr)
    assume "\<not> 0 < c"
    then have "fl_of_dec (Dec False c p) = Flt False 0 0" by (simp add: fl_of_dec_def fl_round_def)
    with F x(2) show False by simp
  qed
  let ?ds = "show_nat c" and ?pt = "p + int (length (show_nat c))"
  note r = float_repr.simps(3) [of s m e, unfolded Let_def k_def [symmetric] s0 prod.case z]
  consider (small) "- 4 < ?pt" "?pt \<le> 0" | (whole) "0 < ?pt" "?pt \<le> 16" "int (length ?ds) \<le> ?pt"
    | (mid) "0 < ?pt" "?pt \<le> 16" "?pt < int (length ?ds)" | (far) "\<not> (- 4 < ?pt \<and> ?pt \<le> 16)" by linarith
  then show ?thesis
  proof cases
    case small
    then show ?thesis using point_notation(1) [OF c refl] x(2) d unfolding r by (intro exI conjI) auto
  next
    case whole
    then show ?thesis using point_notation(2) [OF c refl] x(2) d unfolding r by (intro exI conjI) auto
  next
    case mid
    then show ?thesis using point_notation(3) [OF c refl] x(2) d unfolding r by (intro exI conjI) auto
  next
    case far
    then show ?thesis unfolding r if_not_P [OF x(2)] if_not_P [OF far]
      by (intro exI conjI) (rule refl, rule exponent_notation [OF c refl], rule d)
  qed
qed


text \<open>\<^verbatim>\<open>float(repr(x)) == x\<close>, to the sign of a zero.\<close>

lemma float_repr_text:
  assumes "fl_proper (Flt s m e)"
  shows "\<exists>t c p. float_repr (Flt s m e) = (if s then ''-'' else []) @ t \<and> written t c p \<and> fl_of_dec (Dec s c p) = Flt s m e"
proof (cases "m = 0")
  case True
  have "written ''0.0'' 0 (- 1)"
    by (rule writtenI [of _ "''0''" "''0''" "[]" 0]) (auto simp: num_parts_def exp_part_def frac_part_def read_nat_def zero_digit)
  moreover have "fl_of_dec (Dec s 0 (- 1)) = Flt s m e" using True assms by (simp add: fl_of_dec_def fl_round_def)
  ultimately show ?thesis using True by (intro exI conjI) auto
qed (use float_repr_written [OF assms] in blast)

lemma written_reads:
  assumes "written t c p"
  shows "float_of_text ((if s then ''-'' else []) @ t) = Some (fl_of_dec (Dec s c p))"
proof -
  obtain ip fp xp n where w: "t = ip @ frac_part fp @ xp" "num_parts ip fp xp" "parse_exp xp = Some n"
    "of_nat (read_nat (ip @ fp)) * (10::rat) powi (n - int (length fp)) = of_nat c * 10 powi p"
    using assms unfolding written_def by blast
  show ?thesis unfolding w(1) float_of_parts [OF w(2,3)] by (simp add: fl_of_dec_cong [OF w(4)])
qed

lemma float_reads_back: "fl_proper x \<Longrightarrow> float_of_text (float_repr x) = Some x"
proof -
  assume p: "fl_proper x"
  then obtain s m e where x: "x = Flt s m e" by (cases x) auto
  show ?thesis using float_repr_text [OF p [unfolded x]] written_reads unfolding x by metis
qed

text \<open>Every finite float of the model that comes from an operation is proper.\<close>

lemma fl_round_finite: "0 < den \<Longrightarrow> is_finite (fl_round s num den) \<Longrightarrow> fl_proper (fl_round s num den)"
  using fl_round_proper [OF refl] by blast

lemma fl_of_scaled_proper: "is_finite (fl_of_scaled z x e) \<Longrightarrow> fl_proper (fl_of_scaled z x e)"
  by (auto simp: fl_of_scaled_def fl_round_finite split: if_splits)

lemma fadd_proper: "is_finite (fadd x y) \<Longrightarrow> fl_proper (fadd x y)"
  by (cases "(x, y)" rule: fadd.cases) (auto simp: Let_def fl_of_scaled_proper split: if_splits)

lemma fmul_proper: "is_finite (fmul x y) \<Longrightarrow> fl_proper (fmul x y)"
  by (cases "(x, y)" rule: fmul.cases) (auto simp: fl_round_finite split: if_splits)

lemma fl_of_int_proper: "is_finite (fl_of_int i) \<Longrightarrow> fl_proper (fl_of_int i)"
  by (simp add: fl_of_int_def fl_round_finite)

lemma fl_of_dec_proper: "is_finite (fl_of_dec d) \<Longrightarrow> fl_proper (fl_of_dec d)"
  by (simp add: fl_of_dec_def fl_round_finite)

end
