(* ===== verification/PyJson.thy ===== *)
theory PyJson
  imports FloatText
begin

section \<open>Reading JSON\<close>

text \<open>
  \<^verbatim>\<open>json.loads\<close> of the standard library with its default settings: the grammar, the escapes of
  strings (a lone surrogate keeps its three-byte form), \<^verbatim>\<open>NaN\<close> and the infinities, and the rule
  that the last of two equal keys wins. \<open>None\<close> is \<^verbatim>\<open>JSONDecodeError\<close>. The parser carries
  fuel; the length of the text is enough, since every step consumes a character. Neither the recursion
  limit of the interpreter nor its limit of 4300 digits for integers is modelled. The result
  of this theory: a canonical text, floats included, reads back as the value it was made of, with the
  keys sorted, so two such values have the same text only if they are the same up to key order.
\<close>

subsection \<open>Strings\<close>

definition json_space :: "char \<Rightarrow> bool" where
  "json_space c = (of_char c \<in> {9, 10, 13, 32 :: nat})"

definition skip_ws :: "string \<Rightarrow> string" where
  "skip_ws s = dropWhile json_space s"

definition hex_val :: "char \<Rightarrow> nat option" where
  "hex_val c =
     (let n = of_char c :: nat
      in if 48 \<le> n \<and> n \<le> 57 then Some (n - 48)
         else if 97 \<le> n \<and> n \<le> 102 then Some (n - 87)
         else if 65 \<le> n \<and> n \<le> 70 then Some (n - 55) else None)"

fun hex4 :: "string \<Rightarrow> (nat \<times> string) option" where
  "hex4 (a # b # c # d # r) =
     (case (hex_val a, hex_val b, hex_val c, hex_val d) of
        (Some w, Some x, Some y, Some z) \<Rightarrow> Some (w * 4096 + x * 256 + y * 16 + z, r)
      | _ \<Rightarrow> None)"
| "hex4 s = None"

definition utf8 :: "nat \<Rightarrow> string" where
  "utf8 n =
     (if n < 128 then [char_of n]
      else if n < 2048 then [char_of (192 + n div 64), char_of (128 + n mod 64)]
      else if n < 65536 then [char_of (224 + n div 4096), char_of (128 + n div 64 mod 64), char_of (128 + n mod 64)]
      else [char_of (240 + n div 262144), char_of (128 + n div 4096 mod 64),
            char_of (128 + n div 64 mod 64), char_of (128 + n mod 64)])"

text \<open>After \<open>\u\<close>: a high surrogate joins with a low one that follows at once.\<close>

definition junicode :: "string \<Rightarrow> (string \<times> string) option" where
  "junicode s =
     (case hex4 s of
        None \<Rightarrow> None
      | Some (n, r) \<Rightarrow>
          (let low = (if 55296 \<le> n \<and> n \<le> 56319 \<and> take 2 r = CHR 0x5C # ''u'' then hex4 (drop 2 r) else None)
           in case low of
                Some (m, r') \<Rightarrow>
                  if 56320 \<le> m \<and> m \<le> 57343
                  then Some (utf8 (65536 + (n - 55296) * 1024 + (m - 56320)), r') else Some (utf8 n, r)
              | None \<Rightarrow> Some (utf8 n, r)))"

definition jescape :: "char \<Rightarrow> string \<Rightarrow> (string \<times> string) option" where
  "jescape e r =
     (let n = of_char e :: nat
      in if n = 34 \<or> n = 92 \<or> n = 47 then Some ([e], r)
         else if e = CHR ''b'' then Some ([char_of (8::nat)], r)
         else if e = CHR ''f'' then Some ([char_of (12::nat)], r)
         else if e = CHR ''n'' then Some ([char_of (10::nat)], r)
         else if e = CHR ''r'' then Some ([char_of (13::nat)], r)
         else if e = CHR ''t'' then Some ([char_of (9::nat)], r)
         else if e = CHR ''u'' then junicode r
         else None)"

definition jchar :: "char \<Rightarrow> string \<Rightarrow> (string \<times> string) option" where
  "jchar c t =
     (if (of_char c :: nat) < 32 then None
      else if c = CHR 0x5C then (case t of [] \<Rightarrow> None | e # r \<Rightarrow> jescape e r)
      else Some ([c], t))"

fun jstring :: "nat \<Rightarrow> string \<Rightarrow> (string \<times> string) option" where
  "jstring 0 s = None"
| "jstring (Suc n) s =
     (case s of
        [] \<Rightarrow> None
      | c # t \<Rightarrow>
          if c = CHR 0x22 then Some ([], t)
          else (case jchar c t of
                  None \<Rightarrow> None
                | Some (x, r) \<Rightarrow> map_option (\<lambda>(y, r'). (x @ y, r')) (jstring n r)))"

subsection \<open>Numbers\<close>

text \<open>The longest match of \<^verbatim>\<open>(-?(?:0|[1-9]\d*))(\.\d+)?([eE][-+]?\d+)?\<close>.\<close>

definition jfrac :: "string \<Rightarrow> string" where
  "jfrac r =
     (case r of
        c # u \<Rightarrow> if c = CHR ''.'' \<and> takeWhile is_digit u \<noteq> [] then c # takeWhile is_digit u else []
      | [] \<Rightarrow> [])"

definition jexp :: "string \<Rightarrow> string" where
  "jexp r =
     (case r of
        c # u \<Rightarrow>
          if c = CHR ''e'' \<or> c = CHR ''E''
          then (let sg = (if take 1 u = ''-'' \<or> take 1 u = ''+'' then take 1 u else []);
                    ds = takeWhile is_digit (drop (length sg) u)
                in if ds = [] then [] else c # sg @ ds)
          else []
      | [] \<Rightarrow> [])"

definition junsigned :: "bool \<Rightarrow> string \<Rightarrow> (pyval \<times> string) option" where
  "junsigned neg t =
     (let ds = takeWhile is_digit t
      in if ds = [] then None
         else let ip = (if hd ds = CHR ''0'' then ''0'' else ds); r = drop (length ip) t;
                  f = jfrac r; r1 = drop (length f) r; x = jexp r1; r2 = drop (length x) r1;
                  i = int (read_nat ip)
              in if f = [] \<and> x = [] then Some (VInt (if neg then - i else i), r2)
                 else map_option (\<lambda>y. (VFloat y, r2)) (float_of_text ((if neg then ''-'' else []) @ ip @ f @ x)))"

definition jnumber :: "string \<Rightarrow> (pyval \<times> string) option" where
  "jnumber s = (if take 1 s = ''-'' then junsigned True (drop 1 s) else junsigned False s)"

subsection \<open>Values\<close>

definition jword :: "bool \<Rightarrow> string \<Rightarrow> (pyval \<times> string) option" where
  "jword con s =
     (if starts_with s ''null'' then Some (VNone, drop 4 s)
      else if starts_with s ''true'' then Some (VBool True, drop 4 s)
      else if starts_with s ''false'' then Some (VBool False, drop 5 s)
      else if starts_with s ''NaN'' then (if con then Some (VFloat FNaN, drop 3 s) else None)
      else if starts_with s ''Infinity'' then (if con then Some (VFloat (FInf False), drop 8 s) else None)
      else if starts_with s ''-Infinity'' then (if con then Some (VFloat (FInf True), drop 9 s) else None)
      else jnumber s)"

fun jvalue :: "bool \<Rightarrow> nat \<Rightarrow> string \<Rightarrow> (pyval \<times> string) option"
and jitems :: "bool \<Rightarrow> nat \<Rightarrow> string \<Rightarrow> pyval list \<Rightarrow> (pyval \<times> string) option"
and jmembers :: "bool \<Rightarrow> nat \<Rightarrow> string \<Rightarrow> pydict \<Rightarrow> (pyval \<times> string) option" where
  "jvalue con 0 s = None"
| "jvalue con (Suc n) s =
     (case s of
        [] \<Rightarrow> None
      | c # t \<Rightarrow>
          if c = CHR 0x22 then map_option (\<lambda>(x, r). (VStr x, r)) (jstring (length t) t)
          else if c = CHR ''{'' then
            (case skip_ws t of
               [] \<Rightarrow> None
             | c2 # r \<Rightarrow> if c2 = CHR ''}'' then Some (VDict [], r) else jmembers con n (c2 # r) [])
          else if c = CHR ''['' then
            (case skip_ws t of
               [] \<Rightarrow> None
             | c2 # r \<Rightarrow> if c2 = CHR '']'' then Some (VList [], r) else jitems con n (c2 # r) [])
          else jword con s)"
| "jitems con 0 s acc = None"
| "jitems con (Suc n) s acc =
     (case jvalue con n s of
        None \<Rightarrow> None
      | Some (v, r) \<Rightarrow>
          (case skip_ws r of
             [] \<Rightarrow> None
           | c # r' \<Rightarrow>
               if c = CHR '']'' then Some (VList (acc @ [v]), r')
               else if c = CHR '','' then jitems con n (skip_ws r') (acc @ [v]) else None))"
| "jmembers con 0 s acc = None"
| "jmembers con (Suc n) s acc =
     (case s of
        [] \<Rightarrow> None
      | q # t \<Rightarrow>
          if q \<noteq> CHR 0x22 then None
          else (case jstring (length t) t of
              None \<Rightarrow> None
            | Some (k, r) \<Rightarrow>
                (case skip_ws r of
                   [] \<Rightarrow> None
                 | c \<comment> \<open>the colon\<close> # r1 \<Rightarrow>
                     if c \<noteq> CHR '':'' then None
                     else (case jvalue con n (skip_ws r1) of
                         None \<Rightarrow> None
                       | Some (v, r2) \<Rightarrow>
                           (case skip_ws r2 of
                              [] \<Rightarrow> None
                            | c2 # r3 \<Rightarrow>
                                if c2 = CHR ''}'' then Some (VDict (dset acc k v), r3)
                                else if c2 = CHR '','' then jmembers con n (skip_ws r3) (dset acc k v)
                                else None)))))"

text \<open>The flag is whether the constants \<^verbatim>\<open>NaN\<close>, \<^verbatim>\<open>Infinity\<close>, \<^verbatim>\<open>-Infinity\<close> are accepted; a
  \<^verbatim>\<open>parse_constant\<close> that raises refuses them.\<close>

definition json_read :: "bool \<Rightarrow> string \<Rightarrow> pyval option" where
  "json_read con s =
     (if take 3 s = utf8 65279 then None
      else case jvalue con (Suc (length s)) (skip_ws s) of
             None \<Rightarrow> None
           | Some (v, r) \<Rightarrow> if skip_ws r = [] then Some v else None)"

definition json_loads :: "string \<Rightarrow> pyval option" where
  "json_loads s = json_read True s"

subsection \<open>A text that was written reads back\<close>

lemma hex_digit_table:
  "\<forall>n \<in> set [0..<32]. hex_val (hex_digit (n div 16 mod 16)) = Some (n div 16)
     \<and> hex_val (hex_digit (n mod 16)) = Some (n mod 16) \<and> hex_val CHR ''0'' = Some 0"
  by code_simp

lemma char_eq_iff: "c = d \<longleftrightarrow> (of_char c :: nat) = of_char d"
  by (metis char_of_char)

lemma esc_char_reads:
  obtains a u where "esc_char c = a # u" "a \<noteq> CHR 0x22" "\<forall>t. jchar a (u @ t) = Some ([c], t)"
proof -
  define n where "n = (of_char c :: nat)"
  have c: "c = char_of n" by (simp add: n_def)
  consider (quoted) "n = 34 \<or> n = 92" | (named) "n \<in> {8, 9, 10, 12, 13}"
    | (control) "n < 32" "n \<notin> {8, 9, 10, 12, 13}" | (other) "32 \<le> n" "n \<noteq> 34" "n \<noteq> 92"
    by force
  then show thesis
  proof cases
    case quoted
    then show thesis
      by (intro that [of "CHR 0x5C" "[c]"])
        (auto simp: esc_char_def jchar_def jescape_def Let_def n_def [symmetric] char_eq_iff)
  next
    case named
    then show thesis
      by (elim insertE emptyE)
        (rule that [of "CHR 0x5C"], auto simp: esc_char_def jchar_def jescape_def Let_def n_def [symmetric] c)+
  next
    case control
    then have "n \<in> set [0..<32]" by simp
    with hex_digit_table have h: "hex_val (hex_digit (n div 16 mod 16)) = Some (n div 16)"
      "hex_val (hex_digit (n mod 16)) = Some (n mod 16)" "hex_val CHR ''0'' = Some 0" by blast+
    from control have e: "esc_char c = CHR 0x5C # ''u00'' @ hex2 n"
      by (simp add: esc_char_def Let_def n_def [symmetric])
    have "n div 16 * 16 + n mod 16 = n" by simp
    with control h have "junicode (''00'' @ hex2 n @ t) = Some ([c], t)" for t
      by (simp add: junicode_def hex2_def utf8_def c)
    then have "jchar CHR 0x5C ((''u00'' @ hex2 n) @ t) = Some ([c], t)" for t
      by (simp add: jchar_def jescape_def)
    then show thesis by (intro that [of "CHR 0x5C" "''u00'' @ hex2 n"]) (simp_all add: e)
  next
    case other
    then show thesis
      by (intro that [of c "[]"])
        (auto simp: esc_char_def jchar_def Let_def n_def [symmetric] char_eq_iff)
  qed
qed

lemma jstring_reads:
  "length s < n \<Longrightarrow> jstring n (concat (map esc_char s) @ CHR 0x22 # rest) = Some (s, rest)"
proof (induction s arbitrary: n)
  case Nil
  then show ?case by (cases n) auto
next
  case (Cons c s)
  then obtain m where n: "n = Suc m" "length s < m" by (cases n) auto
  obtain a u where "esc_char c = a # u" "a \<noteq> CHR 0x22" "\<forall>t. jchar a (u @ t) = Some ([c], t)"
    by (rule esc_char_reads [of c])
  with Cons.IH [OF n(2)] n(1) show ?case by simp
qed

lemma esc_char_length: "0 < length (esc_char c)"
  by (rule esc_char_reads [of c]) simp

lemma length_escaped: "length s \<le> length (concat (map esc_char s))"
proof (induction s)
  case (Cons c s)
  with esc_char_length [of c] show ?case by (simp del: length_greater_0_conv)
qed simp

lemma jstring_jstr:
  "jstring (length (concat (map esc_char s) @ CHR 0x22 # rest)) (concat (map esc_char s) @ CHR 0x22 # rest) = Some (s, rest)"
  by (rule jstring_reads) (use length_escaped [of s] in simp)

text \<open>An integer, followed by what cannot continue a number.\<close>

definition ends_number :: "string \<Rightarrow> bool" where
  "ends_number s = (s = [] \<or> \<not> is_digit (hd s) \<and> hd s \<notin> set ''.eE'')"

lemma ends_number_tail: "ends_number r \<Longrightarrow> jfrac r = [] \<and> jexp r = []"
  by (cases r) (auto simp: ends_number_def jfrac_def jexp_def)

lemma jnumber_int:
  assumes "ends_number r"
  shows "jnumber (show_int i @ r) = Some (VInt i, r)"
proof -
  have tw: "takeWhile is_digit (show_nat n @ r) = show_nat n" for n
    using show_nat_digits [of n] assms by (subst takeWhile_append2) (auto simp: ends_number_def takeWhile_eq_Nil_iff)
  have ip: "(if hd (show_nat n) = CHR ''0'' then ''0'' else show_nat n) = show_nat n" for n
    using show_nat_head [of n] by (cases "show_nat n") auto
  have u: "junsigned b (show_nat n @ r) = Some (VInt (if b then - int n else int n), r)" for b n
    unfolding junsigned_def Let_def tw ip by (simp add: ends_number_tail [OF assms])
  have "take 1 (show_nat n @ r) \<noteq> ''-''" for n
  proof -
    obtain c ds where c: "show_nat n = c # ds" by (cases "show_nat n") auto
    then have "is_digit c" using show_nat_digits [of n] by simp
    then have "c \<noteq> CHR ''-''" using is_digit_not_special [of c] by auto
    with c show ?thesis by simp
  qed
  with u show ?thesis by (simp add: show_int_def jnumber_def)
qed

text \<open>A float, in any notation of \<^verbatim>\<open>repr\<close>, followed by what cannot continue a number.\<close>

lemma jexp_part:
  assumes "exp_part xp" "ends_number r"
  shows "jexp (xp @ r) = xp"
proof (cases "xp = []")
  case True
  then show ?thesis using ends_number_tail [OF assms(2)] by simp
next
  case False
  then obtain sg es where x: "xp = CHR ''e'' # sg # es" "sg \<in> {CHR ''+'', CHR ''-''}" "es \<noteq> []" "\<forall>c \<in> set es. is_digit c"
    using assms(1) unfolding exp_part_def by blast
  have "takeWhile is_digit (es @ r) = es"
    using x(4) assms(2) by (subst takeWhile_append2) (auto simp: ends_number_def takeWhile_eq_Nil_iff)
  with x show ?thesis by (auto simp: jexp_def)
qed

lemma jnumber_written:
  assumes "written t c p" "ends_number r"
  shows "jnumber ((if s then ''-'' else []) @ t @ r) = Some (VFloat (fl_of_dec (Dec s c p)), r)"
    and "\<exists>a u. t = a # u \<and> is_digit a"
proof -
  obtain ip fp xp n where w: "t = ip @ frac_part fp @ xp" "num_parts ip fp xp" "parse_exp xp = Some n" "fp \<noteq> [] \<or> xp \<noteq> []"
    "ip = ''0'' \<or> hd ip \<noteq> CHR ''0''"
    "of_nat (read_nat (ip @ fp)) * (10::rat) powi (n - int (length fp)) = of_nat c * 10 powi p"
    using assms(1) unfolding written_def by blast
  have d: "ip \<noteq> []" "\<forall>a \<in> set ip. is_digit a" "\<forall>a \<in> set fp. is_digit a" "exp_part xp" using w(2) by (simp_all add: num_parts_def)
  note e = exp_part_head [OF d(4)]
  have r: "xp @ r = [] \<or> \<not> is_digit (hd (xp @ r))" "xp @ r = [] \<or> hd (xp @ r) \<noteq> CHR ''.''"
    using e assms(2) by (cases xp; auto simp: ends_number_def)+
  have ipw: "takeWhile is_digit (ip @ frac_part fp @ xp @ r) = ip"
    using r(1) split_digits(1) [OF d(2), of "frac_part fp @ xp @ r"] by (auto simp: frac_part_def)
  have ip: "(if hd ip = CHR ''0'' then ''0'' else ip) = ip" using w(5) by auto
  have fr: "jfrac (frac_part fp @ xp @ r) = frac_part fp"
  proof (cases "fp = []")
    case True
    then show ?thesis using r(2) by (cases "xp @ r") (auto simp: frac_part_def jfrac_def)
  next
    case False
    then show ?thesis using split_digits(1) [OF d(3) r(1)] by (simp add: frac_part_def jfrac_def)
  qed
  have ne: "frac_part fp \<noteq> [] \<or> xp \<noteq> []" using w(4) by (auto simp: frac_part_def)
  have "float_of_text ((if s then ''-'' else []) @ ip @ frac_part fp @ xp) = Some (fl_of_dec (Dec s c p))"
    using written_reads [OF assms(1), of s] unfolding w(1) .
  then have u: "junsigned s (t @ r) = Some (VFloat (fl_of_dec (Dec s c p)), r)"
    using ne d(1) by (auto simp: w(1) junsigned_def Let_def ipw ip fr jexp_part [OF d(4) assms(2)])
  obtain a u where a: "ip = a # u" "is_digit a" using d(1,2) by (cases ip) auto
  then have "a \<noteq> CHR ''-''" using is_digit_not_special [OF a(2)] by auto
  then show "jnumber ((if s then ''-'' else []) @ t @ r) = Some (VFloat (fl_of_dec (Dec s c p)), r)"
    using u by (cases s) (auto simp: jnumber_def w(1) a(1))
  show "\<exists>a u. t = a # u \<and> is_digit a" using a by (simp add: w(1))
qed

lemma json_float_written:
  assumes "fl_proper x"
  shows "\<exists>s t c p. json_float x = (if s then ''-'' else []) @ t \<and> written t c p \<and> fl_of_dec (Dec s c p) = x"
proof -
  obtain s m e where x: "x = Flt s m e" using assms by (cases x) auto
  show ?thesis using float_repr_text [OF assms [unfolded x]] unfolding x by auto
qed

lemma jnumber_float: "fl_proper x \<Longrightarrow> ends_number r \<Longrightarrow> jnumber (json_float x @ r) = Some (VFloat x, r)"
  using json_float_written [of x] jnumber_written(1) by fastforce

lemma json_float_head:
  assumes "fl_proper x"
  shows "\<exists>a u. (json_float x = a # u \<or> json_float x = CHR ''-'' # a # u) \<and> is_digit a"
proof -
  obtain s t c p where x: "json_float x = (if s then ''-'' else []) @ t" "written t c p" using json_float_written [OF assms] by blast
  obtain a u where "t = a # u" "is_digit a" using jnumber_written(2) [OF x(2), of "[]"] by (auto simp: ends_number_def)
  then show ?thesis using x(1) by (cases s) auto
qed

subsection \<open>The round trip\<close>

text \<open>Values that JSON carries without loss: finite floats in normal form, no decimals, each key once.\<close>

fun tidy :: "pyval \<Rightarrow> bool" where
  "tidy (VFloat x) = fl_proper x"
| "tidy (VDec d) = False"
| "tidy (VList xs) = list_all tidy xs"
| "tidy (VDict d) = (distinct (map fst d) \<and> list_all (\<lambda>(k, v). tidy v) d)"
| "tidy v = True"

fun key_sorted :: "pyval \<Rightarrow> pyval" where
  "key_sorted (VList xs) = VList (map key_sorted xs)"
| "key_sorted (VDict d) = VDict (sort_key fst (map (\<lambda>(k, v). (k, key_sorted v)) d))"
| "key_sorted v = v"

lemma insort_key_map_fst:
  "insort_key fst (k, f k v) (map (\<lambda>(k, v). (k, f k v)) d) = map (\<lambda>(k, v). (k, f k v)) (insort_key fst (k, v) d)"
  by (induction d) auto

lemma sort_key_map_fst: "sort_key fst (map (\<lambda>(k, v). (k, f k v)) d) = map (\<lambda>(k, v). (k, f k v)) (sort_key fst d)"
  by (induction d) (auto simp: insort_key_map_fst)

lemma starts_with_word: "starts_with s t \<Longrightarrow> t \<noteq> [] \<Longrightarrow> s \<noteq> [] \<and> hd s = hd t"
  by (cases s; cases t) auto

lemma canon_head:
  assumes "tidy v"
  obtains c t where "canon False v = c # t" "\<not> json_space c" "c \<noteq> CHR '']''" "c \<noteq> CHR ''}''"
    "(of_char c :: nat) < 128"
proof -
  have num: "\<exists>c t. show_int i = c # t \<and> (is_digit c \<or> c = CHR ''-'')" for i
  proof -
    have "\<exists>c t. show_nat n = c # t \<and> is_digit c" for n using show_nat_digits [of n] by (cases "show_nat n") auto
    then show ?thesis unfolding show_int_def by (cases "i < 0") (simp, metis)+
  qed
  have dig: "is_digit c \<Longrightarrow> \<not> json_space c \<and> c \<noteq> CHR '']'' \<and> c \<noteq> CHR ''}'' \<and> (of_char c :: nat) < 128" for c
    by (auto simp: is_digit_def json_space_def Let_def)
  then have int: "\<exists>c t. show_int i = c # t \<and> \<not> json_space c \<and> c \<noteq> CHR '']'' \<and> c \<noteq> CHR ''}''
      \<and> (of_char c :: nat) < 128" for i
    using num [of i] dig by (auto simp: json_space_def)
  have float: "\<exists>c t. json_float x = c # t \<and> \<not> json_space c \<and> c \<noteq> CHR '']'' \<and> c \<noteq> CHR ''}''
      \<and> (of_char c :: nat) < 128" if "fl_proper x" for x
    using json_float_head [OF that] dig by (auto simp: json_space_def)
  have "\<exists>c t. canon False v = c # t \<and> \<not> json_space c \<and> c \<noteq> CHR '']'' \<and> c \<noteq> CHR ''}''
      \<and> (of_char c :: nat) < 128"
    using assms int float by (cases v) (auto simp: jstr_def json_space_def)
  with that show thesis by blast
qed

lemma skip_canon: "tidy v \<Longrightarrow> skip_ws (canon False v @ r) = canon False v @ r"
  by (rule canon_head [of v]) (simp_all add: skip_ws_def)

lemma canon_length: "tidy v \<Longrightarrow> 0 < length (canon False v)"
  by (rule canon_head [of v]) simp_all

lemma jword_int:
  assumes "ends_number r"
  shows "jword con (show_int i @ r) = Some (VInt i, r)"
    and "hd (show_int i @ r) \<notin> {CHR 0x22, CHR ''{'', CHR ''[''}" and "show_int i @ r \<noteq> []"
proof -
  have "\<exists>c t. show_nat n = c # t \<and> is_digit c" for n using show_nat_digits [of n] by (cases "show_nat n") auto
  then obtain c t where c: "show_nat (nat \<bar>i\<bar>) = c # t" "is_digit c" by metis
  then have d: "c \<notin> set ''ntfNI-'' \<union> {CHR 0x22, CHR ''{'', CHR ''[''}"
    by (auto simp: is_digit_def Let_def)
  have s: "show_int i = (if i < 0 then CHR ''-'' # c # t else c # t)"
    using c by (cases "i < 0") (simp_all add: show_int_def abs_if)
  show "jword con (show_int i @ r) = Some (VInt i, r)"
    unfolding jword_def using jnumber_int [OF assms, of i] d by (cases "i < 0") (simp_all add: s)
  show "hd (show_int i @ r) \<notin> {CHR 0x22, CHR ''{'', CHR ''[''}" "show_int i @ r \<noteq> []" using d by (simp_all add: s)
qed

lemma jword_float:
  assumes "fl_proper x" "ends_number r"
  shows "jword con (json_float x @ r) = Some (VFloat x, r)"
    and "hd (json_float x @ r) \<notin> {CHR 0x22, CHR ''{'', CHR ''[''}" and "json_float x @ r \<noteq> []"
proof -
  obtain a u where x: "json_float x = a # u \<or> json_float x = CHR ''-'' # a # u" "is_digit a"
    using json_float_head [OF assms(1)] by blast
  then have d: "a \<notin> set ''ntfNI-'' \<union> {CHR 0x22, CHR ''{'', CHR ''[''}"
    by (auto simp: is_digit_def Let_def)
  show "jword con (json_float x @ r) = Some (VFloat x, r)"
    unfolding jword_def using jnumber_float [OF assms] d x(1) by (elim disjE) simp_all
  show "hd (json_float x @ r) \<notin> {CHR 0x22, CHR ''{'', CHR ''[''}" "json_float x @ r \<noteq> []" using x d by (elim disjE; simp)+
qed

definition reads :: "pyval \<Rightarrow> bool" where
  "reads v = (\<forall>con n r. ends_number r \<longrightarrow> length (canon False v) \<le> n
                \<longrightarrow> jvalue con n (canon False v @ r) = Some (key_sorted v, r))"

lemma ends_punct: "ends_number (CHR '','' # r)" "ends_number (CHR '']'' # r)" "ends_number (CHR ''}'' # r)"
  by (simp_all add: ends_number_def is_digit_def Let_def)

lemma skip_punct: "skip_ws (CHR '','' # r) = CHR '','' # r" "skip_ws (CHR '']'' # r) = CHR '']'' # r"
  "skip_ws (CHR ''}'' # r) = CHR ''}'' # r" "skip_ws (CHR '':'' # r) = CHR '':'' # r"
  "skip_ws (CHR 0x22 # r) = CHR 0x22 # r"
  by (simp_all add: skip_ws_def json_space_def)

lemma join_Cons_len: "length (join '','' (x # y # xs)) = length x + 1 + length (join '','' (y # xs))"
  by simp

lemma jitems_reads:
  assumes "\<forall>x \<in> set xs. reads x \<and> tidy x" "xs \<noteq> []" "length (join '','' (map (canon False) xs)) < n"
  shows "jitems con n (join '','' (map (canon False) xs) @ CHR '']'' # rest) acc
      = Some (VList (acc @ map key_sorted xs), rest)"
  using assms
proof (induction xs arbitrary: n acc)
  case (Cons x xs)
  then obtain m where n: "n = Suc m" by (cases n) auto
  show ?case
  proof (cases xs)
    case Nil
    with Cons.prems n have "jvalue con m (canon False x @ CHR '']'' # rest) = Some (key_sorted x, CHR '']'' # rest)"
      by (auto simp: reads_def ends_punct)
    with Nil n show ?thesis by (simp add: skip_punct)
  next
    case (Cons y ys)
    let ?more = "join '','' (map (canon False) (y # ys)) @ CHR '']'' # rest"
    have len: "length (canon False x) \<le> m" "length (join '','' (map (canon False) (y # ys))) < m"
      using Cons.prems(3) canon_length [of x] Cons.prems(1) unfolding Cons n by (auto simp: join_Cons_len)
    then have "jvalue con m (canon False x @ CHR '','' # ?more) = Some (key_sorted x, CHR '','' # ?more)"
      using Cons.prems(1) by (auto simp: reads_def ends_punct)
    moreover have "skip_ws ?more = ?more"
      using Cons.prems(1) Cons skip_canon [of y] by (cases ys) auto
    moreover have "jitems con m ?more (acc @ [key_sorted x])
        = Some (VList ((acc @ [key_sorted x]) @ map key_sorted (y # ys)), rest)"
      using Cons.IH [of m "acc @ [key_sorted x]"] Cons.prems(1) len Cons by simp
    ultimately show ?thesis using Cons n by (simp add: skip_punct)
  qed
qed simp

definition entry :: "string \<times> pyval \<Rightarrow> string" where
  "entry = (\<lambda>(k, v). jstr False k @ '':'' @ canon False v)"

lemma dset_new: "k \<notin> fst ` set d \<Longrightarrow> dset d k v = d @ [(k, v)]"
  by (induction d) auto

lemma entry_read:
  assumes "entry (k, v) = q # t"
  shows "q = CHR 0x22" and "jstring (length (t @ r)) (t @ r) = Some (k, CHR '':'' # canon False v @ r)"
proof -
  from assms have q: "q = CHR 0x22" and t: "t = concat (map esc_char k) @ CHR 0x22 # CHR '':'' # canon False v"
    by (auto simp: entry_def jstr_def)
  show "q = CHR 0x22" by (rule q)
  show "jstring (length (t @ r)) (t @ r) = Some (k, CHR '':'' # canon False v @ r)"
    using jstring_jstr [of k "CHR '':'' # canon False v @ r"] by (simp add: t)
qed

lemma jmembers_reads:
  assumes "\<forall>(k, v) \<in> set es. reads v \<and> tidy v" "es \<noteq> []" "length (join '','' (map entry es)) < n"
    and "distinct (map fst (acc @ es))"
  shows "jmembers con n (join '','' (map entry es) @ CHR ''}'' # rest) acc
      = Some (VDict (acc @ map (\<lambda>(k, v). (k, key_sorted v)) es), rest)"
  using assms
proof (induction es arbitrary: n acc)
  case (Cons e es)
  obtain k v where e: "e = (k, v)" by (cases e)
  from Cons.prems(3) obtain m where n: "n = Suc m" by (cases n) auto
  obtain q t where qt: "entry (k, v) = q # t" by (auto simp: entry_def jstr_def)
  note q = entry_read(1) [OF qt] and str = entry_read(2) [OF qt]
  have v: "reads v" "tidy v" and k: "k \<notin> fst ` set acc"
    using Cons.prems(1,4) by (auto simp: e)
  have len: "length (canon False v) < length (entry (k, v))" by (simp add: entry_def jstr_def)
  let ?w = "key_sorted v"
  show ?case
  proof (cases es)
    case Nil
    with Cons.prems(3) n len e have "jvalue con m (canon False v @ CHR ''}'' # rest) = Some (?w, CHR ''}'' # rest)"
      using v by (auto simp: reads_def ends_punct)
    with Nil n show ?thesis
      using q str [of "CHR ''}'' # rest"] skip_canon [OF v(2)] k by (simp add: e qt skip_punct dset_new)
  next
    case (Cons e2 es2)
    let ?more = "join '','' (map entry (e2 # es2)) @ CHR ''}'' # rest"
    have l2: "length (canon False v) \<le> m" "length (join '','' (map entry (e2 # es2))) < m"
      using Cons.prems(3) len unfolding Cons n e by (auto simp: join_Cons_len)
    then have "jvalue con m (canon False v @ CHR '','' # ?more) = Some (?w, CHR '','' # ?more)"
      using v by (auto simp: reads_def ends_punct)
    moreover have "skip_ws ?more = ?more"
    proof -
      obtain t2 where "entry e2 = CHR 0x22 # t2" by (cases e2) (simp add: entry_def jstr_def)
      then show ?thesis by (cases es2) (simp_all add: skip_punct)
    qed
    moreover have "jmembers con m ?more (acc @ [(k, ?w)])
        = Some (VDict ((acc @ [(k, ?w)]) @ map (\<lambda>(k, v). (k, key_sorted v)) (e2 # es2)), rest)"
      using Cons.IH [of m "acc @ [(k, ?w)]"] Cons.prems(1,4) l2 Cons by (simp add: e)
    ultimately show ?thesis
      using Cons n q str [of "CHR '','' # ?more"] skip_canon [OF v(2)] k
      by (simp add: e qt skip_punct dset_new)
  qed
qed simp

lemma canon_dict: "canon False (VDict d) = CHR ''{'' # join '','' (map entry (sort_key fst d)) @ ''}''"
proof -
  have "map snd (sort_key fst (map (\<lambda>(k, v). (k, jstr False k @ '':'' @ canon False v)) d))
      = map entry (sort_key fst d)"
    unfolding sort_key_map_fst [of "\<lambda>k v. jstr False k @ '':'' @ canon False v"] by (auto simp: entry_def)
  then show ?thesis unfolding canon.simps by simp
qed

lemma words_read: "reads VNone" "reads (VBool b)"
  by (auto simp: reads_def jword_def split: nat.split dest!: gr0_implies_Suc intro!: exI)
    (case_tac n; simp add: jword_def)+

lemma ints_read: "reads (VInt i)"
  unfolding reads_def
proof (intro allI impI)
  fix con n r assume r: "ends_number r" and n: "length (canon False (VInt i)) \<le> n"
  from n canon_length [of "VInt i"] obtain m where m: "n = Suc m" by (cases n) auto
  from jword_int(1) [OF r, of con i] jword_int(2,3) [OF r, of i] show "jvalue con n (canon False (VInt i) @ r) = Some (key_sorted (VInt i), r)"
    by (cases "show_int i @ r") (simp_all add: m)
qed

lemma floats_read:
  assumes "fl_proper x"
  shows "reads (VFloat x)"
  unfolding reads_def
proof (intro allI impI)
  fix con n r assume r: "ends_number r" and n: "length (canon False (VFloat x)) \<le> n"
  from n canon_length [of "VFloat x"] assms obtain m where m: "n = Suc m" by (cases n) auto
  from jword_float [OF assms r] show "jvalue con n (canon False (VFloat x) @ r) = Some (key_sorted (VFloat x), r)"
    by (cases "json_float x @ r") (simp_all add: m)
qed

lemma strings_read: "reads (VStr s)"
  unfolding reads_def
proof (intro allI impI)
  fix con n r assume "length (canon False (VStr s)) \<le> n"
  then obtain m where m: "n = Suc m" by (cases n) (auto simp: jstr_def)
  show "jvalue con n (canon False (VStr s) @ r) = Some (key_sorted (VStr s), r)"
    using jstring_jstr [of s r] by (simp add: m jstr_def)
qed

lemma tidy_reads: "tidy v \<Longrightarrow> reads v"
proof (induction v rule: tidy.induct)
  case (3 xs)
  show ?case unfolding reads_def
  proof (intro allI impI)
    fix con n r
    assume "ends_number r" and n: "length (canon False (VList xs)) \<le> n"
    then obtain m where m: "n = Suc m" by (cases n) auto
    show "jvalue con n (canon False (VList xs) @ r) = Some (key_sorted (VList xs), r)"
    proof (cases "xs = []")
      case True
      then show ?thesis by (simp add: m skip_punct)
    next
      case False
      have xs: "\<forall>x \<in> set xs. reads x \<and> tidy x" using 3 by (simp add: list_all_iff)
      obtain x ys where x: "xs = x # ys" using False by (cases xs) auto
      obtain c t where c: "canon False x = c # t" "\<not> json_space c" "c \<noteq> CHR '']''"
        using xs x canon_head [of x] by (metis list.set_intros(1))
      obtain t2 where t2: "join '','' (map (canon False) xs) = c # t2" using c x by (cases ys) auto
      have "jitems con m (join '','' (map (canon False) xs) @ CHR '']'' # r) [] = Some (VList (map key_sorted xs), r)"
        using jitems_reads [OF xs False, of m con r "[]"] n m by simp
      with c t2 show ?thesis by (simp add: m skip_ws_def)
    qed
  qed
next
  case (4 d)
  show ?case unfolding reads_def
  proof (intro allI impI)
    fix con n r
    assume "ends_number r" and n: "length (canon False (VDict d)) \<le> n"
    then obtain m where m: "n = Suc m" by (cases n) auto
    define es where "es = sort_key fst d"
    have es: "\<forall>(k, v) \<in> set es. reads v \<and> tidy v" using 4 by (fastforce simp: es_def list_all_iff)
    have di: "distinct (map fst ([] @ es))" using 4(2) by (simp add: es_def distinct_map)
    show "jvalue con n (canon False (VDict d) @ r) = Some (key_sorted (VDict d), r)"
    proof (cases "es = []")
      case True
      then have "d = []" by (metis es_def length_0_conv length_sort)
      then show ?thesis by (simp add: m skip_punct)
    next
      case False
      then obtain t2 where t2: "join '','' (map entry es) = CHR 0x22 # t2"
        by (cases es rule: list.exhaust, simp, cases "tl es") (auto simp: entry_def jstr_def)
      have "jmembers con m (join '','' (map entry es) @ CHR ''}'' # r) []
          = Some (VDict (map (\<lambda>(k, v). (k, key_sorted v)) es), r)"
        using jmembers_reads [OF es False _ di, of m con r] n m unfolding canon_dict es_def by simp
      with t2 show ?thesis
        unfolding canon_dict es_def [symmetric] by (simp add: m skip_punct sort_key_map_fst es_def)
    qed
  qed
qed (simp_all add: words_read ints_read floats_read strings_read)

lemma json_read_canon:
  assumes "tidy v" "list_all json_space w"
  shows "json_read con (canon False v @ w) = Some (key_sorted v)"
proof -
  obtain c t where c: "canon False v = c # t" "(of_char c :: nat) < 128" by (rule canon_head [OF assms(1)])
  have "take 3 (canon False v @ w) \<noteq> utf8 65279"
    using c by (auto simp: utf8_def)
  moreover have "json_space x \<Longrightarrow> \<not> is_digit x \<and> x \<notin> set ''.eE''" for x
    by (auto simp: json_space_def is_digit_def Let_def)
  then have "ends_number w" using assms(2) by (cases w) (auto simp: ends_number_def)
  with tidy_reads [OF assms(1)]
  have "jvalue con (Suc (length (canon False v @ w))) (canon False v @ w) = Some (key_sorted v, w)"
    unfolding reads_def by (elim allE impE) (assumption, simp_all only: length_append le_SucI le_add1)
  moreover have "skip_ws w = []" using assms(2) by (simp add: skip_ws_def list_all_iff)
  ultimately show ?thesis by (simp add: json_read_def skip_canon [OF assms(1)])
qed

lemma json_loads_canon: "tidy v \<Longrightarrow> list_all json_space w \<Longrightarrow> json_loads (canon False v @ w) = Some (key_sorted v)"
  by (simp add: json_loads_def json_read_canon)

lemma canon_inj:
  assumes "tidy v" "tidy w" "canon False v = canon False w"
  shows "key_sorted v = key_sorted w"
  using json_loads_canon [OF assms(1), of "[]"] json_loads_canon [OF assms(2), of "[]"] assms(3) by simp

lemma first_err_None_iff: "first_err xs = None \<longleftrightarrow> (\<forall>x \<in> set xs. x = None)"
  by (induction xs rule: first_err.induct) auto

lemma fl_proper_finite: "fl_proper x \<Longrightarrow> is_finite x"
  by (cases x) auto

lemma json_err_tidy: "tidy v \<Longrightarrow> json_err v = None"
  by (induction v rule: tidy.induct) (fastforce simp: first_err_None_iff list_all_iff fl_proper_finite)+

text \<open>Sorting the keys changes no lookup, and the canonical text does not depend on the order of the keys.\<close>

lemma map_of_sort_key:
  assumes "distinct (map fst e)"
  shows "map_of (sort_key fst e) k = map_of e k"
proof -
  have "distinct (map fst (sort_key fst e))" using assms by (simp add: distinct_map)
  with assms have "map_of (sort_key fst e) k = Some x \<longleftrightarrow> map_of e k = Some x" for x
    by (simp add: map_of_eq_Some_iff)
  then show ?thesis by (metis not_None_eq)
qed

lemma key_sorted_lookup:
  assumes "distinct (map fst d)"
  shows "map_of (sort_key fst (map (\<lambda>(k, v). (k, key_sorted v)) d)) k = map_option key_sorted (map_of d k)"
proof -
  let ?e = "map (\<lambda>(k, v). (k, key_sorted v)) d"
  have k: "map fst ?e = map fst d" by auto
  have "distinct (map fst ?e)" unfolding k by (rule assms)
  then have "map_of (sort_key fst ?e) k = map_of ?e k" by (rule map_of_sort_key)
  moreover have "map_of ?e k = map_option key_sorted (map_of d k)" by (induction d) auto
  ultimately show ?thesis by simp
qed

lemma canon_key_sorted: "tidy v \<Longrightarrow> canon False (key_sorted v) = canon False v"
proof (induction v rule: tidy.induct)
  case (3 xs)
  then have "map (canon False) (map key_sorted xs) = map (canon False) xs" by (auto simp: list_all_iff)
  then show ?case unfolding key_sorted.simps canon.simps by (simp only:)
next
  case (4 d)
  have "sort_key fst (sort_key fst (map (\<lambda>(k, v). (k, key_sorted v)) d)) = map (\<lambda>(k, v). (k, key_sorted v)) (sort_key fst d)"
    by (simp add: sort_key_id_if_sorted sort_key_map_fst)
  moreover have "map entry (map (\<lambda>(k, v). (k, key_sorted v)) (sort_key fst d)) = map entry (sort_key fst d)"
    using 4 by (fastforce simp: list_all_iff entry_def)
  ultimately show ?case unfolding key_sorted.simps canon_dict by (simp only:)
qed simp_all

lemma tidy_key_sorted: "tidy v \<Longrightarrow> tidy (key_sorted v)"
proof (induction v rule: tidy.induct)
  case (4 d)
  have "map fst (map (\<lambda>(k, v). (k, key_sorted v)) d) = map fst d" by auto
  then have "distinct (map fst (map (\<lambda>(k, v). (k, key_sorted v)) d))" using 4(2) by (simp only: tidy.simps)
  then have "distinct (map fst (sort_key fst (map (\<lambda>(k, v). (k, key_sorted v)) d)))"
    by (simp add: distinct_map del: map_map)
  with 4 show ?case by (fastforce simp: list_all_iff)
qed (auto simp: list_all_iff)

end
