(* ===== verification/Resilience.thy ===== *)
theory Resilience
  imports Accounting PyJson
begin

section \<open>Paper execution state\<close>

text \<open>
  \<^verbatim>\<open>research/rea_engines/execution_resilience.py\<close>: the paper order, the paper state, fill
  events with idempotent application, reconciliation with an observed snapshot, and the
  checkpoint. \<^verbatim>\<open>dataclasses.replace\<close> runs \<^verbatim>\<open>__post_init__\<close> again, so every change of a state
  goes through \<open>check_order\<close> and \<open>check_state\<close>. SHA-256 is a parameter. Files are not modelled;
  the text that is written and the value that is read are.
\<close>

subsection \<open>Helpers\<close>

definition hex64 :: "string \<Rightarrow> bool" where
  "hex64 t = (length t = 64 \<and> list_all is_hex_lower t)"

definition sha_field :: "pyval \<Rightarrow> string \<Rightarrow> string res" where
  "sha_field value field =
     (let t = lower (strip (py_str value))
      in if \<not> hex64 t
         then Inl (ResilienceError (field @ '' must be a 64-character hexadecimal SHA-256''))
         else Inr t)"

definition dec_field :: "pyval \<Rightarrow> string \<Rightarrow> bool \<Rightarrow> bool \<Rightarrow> dec res" where
  "dec_field value field pos nonneg = rewrap ResilienceError (as_decimal value field pos nonneg)"

definition digest_payload :: "(string \<Rightarrow> string) \<Rightarrow> pyval \<Rightarrow> string" where
  "digest_payload sha payload = sha (canon False payload)"

text \<open>\<^verbatim>\<open>value.strip()\<close> on a value that may not be a text.\<close>

definition strip_attr :: "pyval \<Rightarrow> string res" where
  "strip_attr v =
     (case v of VStr s \<Rightarrow> Inr (strip s) | _ \<Rightarrow> Inl (AttributeError ''object has no attribute strip''))"

fun str_of :: "pyval \<Rightarrow> string" where
  "str_of (VStr s) = s"
| "str_of v = []"

definition natural_seq :: "string \<Rightarrow> int \<Rightarrow> pyval \<Rightarrow> int res" where
  "natural_seq msg low v =
     (case v of VInt i \<Rightarrow> if i < low then Inl (ResilienceError msg) else Inr i
      | _ \<Rightarrow> Inl (ResilienceError msg))"

subsection \<open>Bracket resolution\<close>

datatype intrabar_policy = Worst_Case_Stop_First | Best_Case_Target_First | Reject_Ambiguous

fun policy_value :: "intrabar_policy \<Rightarrow> string" where
  "policy_value Worst_Case_Stop_First = ''worst_case_stop_first''"
| "policy_value Best_Case_Target_First = ''best_case_target_first''"
| "policy_value Reject_Ambiguous = ''reject_ambiguous''"

record intrabar_decision =
  trigger :: string
  decision_price :: "dec option"
  ambiguous :: bool
  resolution_policy :: string
  decision_ts :: string

definition resolve_long_bracket ::
    "candle \<Rightarrow> pyval \<Rightarrow> pyval \<Rightarrow> intrabar_policy \<Rightarrow> intrabar_decision res" where
  "resolve_long_bracket c stop_price target_price policy =
     rbind (dec_field stop_price ''stop_price'' True False) (\<lambda>stop.
     rbind (dec_field target_price ''target_price'' True False) (\<lambda>target.
       let decide = (\<lambda>t p a. Inr \<lparr>trigger = t, decision_price = p, ambiguous = a,
                       resolution_policy = policy_value policy, decision_ts = c_ts c\<rparr>)
       in if dle target stop then Inl (ResilienceError ''long stop_price must be below target_price'')
          else if dle (c_open c) stop then decide ''STOP'' (Some (c_open c)) False
          else if dle target (c_open c) then decide ''TARGET'' (Some (c_open c)) False
          else let stop_hit = dle (c_low c) stop; target_hit = dle target (c_high c)
               in if stop_hit \<and> target_hit
                  then (case policy of
                          Worst_Case_Stop_First \<Rightarrow> decide ''STOP'' (Some stop) True
                        | Best_Case_Target_First \<Rightarrow> decide ''TARGET'' (Some target) True
                        | Reject_Ambiguous \<Rightarrow> decide ''AMBIGUOUS'' None True)
                  else if stop_hit then decide ''STOP'' (Some stop) False
                  else if target_hit then decide ''TARGET'' (Some target) False
                  else decide ''NONE'' None False))"

subsection \<open>Orders\<close>

record paper_order =
  p_id :: string
  p_client :: string
  p_side :: string
  p_req :: dec
  p_filled :: dec
  p_status :: string

definition expected_status :: "dec \<Rightarrow> dec \<Rightarrow> string" where
  "expected_status requested filled =
     (if deq filled dzero then ''OPEN'' else if deq filled requested then ''FILLED'' else ''PARTIALLY_FILLED'')"

definition mk_paper_order ::
    "pyval \<Rightarrow> pyval \<Rightarrow> pyval \<Rightarrow> pyval \<Rightarrow> pyval \<Rightarrow> pyval \<Rightarrow> paper_order res" where
  "mk_paper_order oid client side0 req fil status =
     rbind (strip_attr oid) (\<lambda>o1.
     rbind (if o1 = [] then Inr [] else strip_attr client) (\<lambda>c1.
       if o1 = [] \<or> c1 = [] then Inl (ResilienceError ''order IDs must be non-empty'')
       else rbind (strip_attr side0) (\<lambda>s1.
         let side = lower s1
         in if side \<notin> set [''buy'', ''sell''] then Inl (ResilienceError ''order side must be buy or sell'')
            else rbind (dec_field req ''requested_qty'' True False) (\<lambda>requested.
                 rbind (dec_field fil ''filled_qty'' False True) (\<lambda>filled.
                   if dlt requested filled
                     then Inl (ResilienceError ''filled_qty cannot exceed requested_qty'')
                   else let expected = expected_status requested filled
                        in if status \<noteq> VStr expected
                           then Inl (ResilienceError (''order status mismatch: expected '' @ expected))
                           else Inr \<lparr>p_id = str_of oid, p_client = str_of client, p_side = side,
                                     p_req = requested, p_filled = filled, p_status = expected\<rparr>)))))"

text \<open>The check that \<^verbatim>\<open>dataclasses.replace\<close> repeats.\<close>

definition check_order :: "paper_order \<Rightarrow> paper_order res" where
  "check_order od =
     mk_paper_order (VStr (p_id od)) (VStr (p_client od)) (VStr (p_side od)) (VDec (p_req od))
       (VDec (p_filled od)) (VStr (p_status od))"

definition p_remaining :: "paper_order \<Rightarrow> dec" where
  "p_remaining od = dsub (p_req od) (p_filled od)"

subsection \<open>State\<close>

record paper_state =
  ps_source :: string
  ps_config :: string
  ps_start :: dec
  ps_cash :: dec
  ps_inv :: dec
  ps_basis :: dec
  ps_realized :: dec
  ps_fees :: dec
  ps_spread :: dec
  ps_slip :: dec
  ps_turnover :: dec
  ps_last_ts :: "string option"
  ps_seq :: int
  ps_orders :: "paper_order list"
  ps_fill_ids :: "string list"
  ps_prints :: "(string \<times> pyval) list"

fun hashable :: "pyval \<Rightarrow> bool" where
  "hashable (VList xs) = False"
| "hashable (VDict d) = False"
| "hashable v = True"

fun py_distinct :: "pyval list \<Rightarrow> bool" where
  "py_distinct [] = True"
| "py_distinct (x # xs) = (\<not> list_ex (py_eq x) xs \<and> py_distinct xs)"

text \<open>The arguments of the class, as values; the orders are \<open>PaperOrder\<close> objects.\<close>

record raw_state =
  w_schema :: pyval
  w_source :: pyval
  w_config :: pyval
  w_start :: pyval
  w_cash :: pyval
  w_inv :: pyval
  w_basis :: pyval
  w_realized :: pyval
  w_fees :: pyval
  w_spread :: pyval
  w_slip :: pyval
  w_turnover :: pyval
  w_last_ts :: pyval
  w_seq :: pyval
  w_orders :: "paper_order list"
  w_fill_ids :: "pyval list"
  w_prints :: "(pyval \<times> pyval) list"

definition check_ids :: "paper_order list \<Rightarrow> pyval list \<Rightarrow> (pyval \<times> pyval) list \<Rightarrow> unit res" where
  "check_ids orders fill_ids prints =
     (if \<not> distinct (map p_id orders) \<or> \<not> distinct (map p_client orders)
        then Inl (ResilienceError ''checkpoint contains duplicate order or client order IDs'')
      else if \<not> list_all hashable fill_ids then Inl (TypeError ''unhashable type'')
      else if \<not> py_distinct fill_ids
        then Inl (ResilienceError ''checkpoint contains duplicate processed fill IDs'')
      else if list_ex (\<lambda>v. strip (str_of v) = []) fill_ids
        then Inl (ResilienceError ''processed fill IDs must be non-empty strings'')
      else if \<not> (length prints = length fill_ids
                 \<and> list_all (\<lambda>(a, b). py_eq a b) (zip (map fst prints) fill_ids))
        then Inl (ResilienceError ''processed fill fingerprints must match processed fill IDs in order'')
      else rbind (rmap (\<lambda>(f, d). sha_field d ''fill_fingerprint'') prints) (\<lambda>_. Inr ()))"

definition mk_paper_state :: "raw_state \<Rightarrow> paper_state res" where
  "mk_paper_state w =
     rbind (raise_if (\<not> py_eq (w_schema w) (VInt 1))
              (ResilienceError ''unsupported checkpoint schema_version'')) (\<lambda>_.
     rbind (sha_field (w_source w) ''source_sha256'') (\<lambda>src.
     rbind (sha_field (w_config w) ''config_sha256'') (\<lambda>cfg.
     rbind (dec_field (w_start w) ''starting_cash'' True False) (\<lambda>start.
     rbind (dec_field (w_cash w) ''cash'' False True) (\<lambda>cash1.
     rbind (dec_field (w_inv w) ''inventory_qty'' False True) (\<lambda>inv.
     rbind (dec_field (w_basis w) ''inventory_cost_basis'' False True) (\<lambda>basis.
     rbind (dec_field (w_fees w) ''total_fees'' False True) (\<lambda>fees.
     rbind (dec_field (w_spread w) ''total_spread_cost'' False True) (\<lambda>spread.
     rbind (dec_field (w_slip w) ''total_slippage_cost'' False True) (\<lambda>slip.
     rbind (dec_field (w_turnover w) ''turnover'' False True) (\<lambda>turn.
     rbind (dec_field (w_realized w) ''realized_pnl'' False False) (\<lambda>realized.
     rbind (raise_if (deq inv dzero \<and> \<not> deq basis dzero)
              (ResilienceError ''zero inventory must have zero inventory_cost_basis'')) (\<lambda>_.
     rbind (natural_seq ''last_event_seq must be a non-negative integer'' 0 (w_seq w)) (\<lambda>seq.
     rbind (if w_last_ts w = VNone then Inr None
            else rbind (normalize_timestamp (w_last_ts w)) (\<lambda>t. Inr (Some t))) (\<lambda>ts.
     rbind (check_ids (w_orders w) (w_fill_ids w) (w_prints w)) (\<lambda>_.
       Inr \<lparr>ps_source = src, ps_config = cfg, ps_start = start, ps_cash = cash1, ps_inv = inv,
            ps_basis = basis, ps_realized = realized, ps_fees = fees, ps_spread = spread,
            ps_slip = slip, ps_turnover = turn, ps_last_ts = ts, ps_seq = seq, ps_orders = w_orders w,
            ps_fill_ids = map str_of (w_fill_ids w),
            ps_prints = map (\<lambda>(f, d). (str_of f, d)) (w_prints w)\<rparr>))))))))))))))))"

fun opt_str :: "string option \<Rightarrow> pyval" where
  "opt_str None = VNone"
| "opt_str (Some s) = VStr s"

definition raw_of :: "paper_state \<Rightarrow> raw_state" where
  "raw_of st =
     \<lparr>w_schema = VInt 1, w_source = VStr (ps_source st), w_config = VStr (ps_config st),
      w_start = VDec (ps_start st), w_cash = VDec (ps_cash st), w_inv = VDec (ps_inv st),
      w_basis = VDec (ps_basis st), w_realized = VDec (ps_realized st), w_fees = VDec (ps_fees st),
      w_spread = VDec (ps_spread st), w_slip = VDec (ps_slip st), w_turnover = VDec (ps_turnover st),
      w_last_ts = opt_str (ps_last_ts st), w_seq = VInt (ps_seq st), w_orders = ps_orders st,
      w_fill_ids = map VStr (ps_fill_ids st),
      w_prints = map (\<lambda>(f, d). (VStr f, d)) (ps_prints st)\<rparr>"

definition check_state :: "paper_state \<Rightarrow> paper_state res" where
  "check_state st = mk_paper_state (raw_of st)"

definition initial_state :: "pyval \<Rightarrow> pyval \<Rightarrow> pyval \<Rightarrow> paper_state res" where
  "initial_state starting source config =
     rbind (dec_field starting ''starting_cash'' True False) (\<lambda>c.
       mk_paper_state \<lparr>w_schema = VInt 1, w_source = source, w_config = config, w_start = VDec c,
         w_cash = VDec c, w_inv = VDec dzero, w_basis = VDec dzero, w_realized = VDec dzero,
         w_fees = VDec dzero, w_spread = VDec dzero, w_slip = VDec dzero, w_turnover = VDec dzero,
         w_last_ts = VNone, w_seq = VInt 0, w_orders = [], w_fill_ids = [], w_prints = []\<rparr>)"

definition order_payload :: "paper_order \<Rightarrow> pyval" where
  "order_payload od =
     VDict [(''order_id'', VStr (p_id od)), (''client_order_id'', VStr (p_client od)),
            (''side'', VStr (p_side od)), (''requested_qty'', VStr (dec_str (p_req od))),
            (''filled_qty'', VStr (dec_str (p_filled od))), (''status'', VStr (p_status od))]"

definition to_payload :: "paper_state \<Rightarrow> pyval" where
  "to_payload st =
     VDict [(''schema_version'', VInt 1), (''source_sha256'', VStr (ps_source st)),
            (''config_sha256'', VStr (ps_config st)), (''starting_cash'', VStr (dec_str (ps_start st))),
            (''cash'', VStr (dec_str (ps_cash st))), (''inventory_qty'', VStr (dec_str (ps_inv st))),
            (''inventory_cost_basis'', VStr (dec_str (ps_basis st))),
            (''realized_pnl'', VStr (dec_str (ps_realized st))),
            (''total_fees'', VStr (dec_str (ps_fees st))),
            (''total_spread_cost'', VStr (dec_str (ps_spread st))),
            (''total_slippage_cost'', VStr (dec_str (ps_slip st))),
            (''turnover'', VStr (dec_str (ps_turnover st))),
            (''last_processed_timestamp'', opt_str (ps_last_ts st)),
            (''last_event_seq'', VInt (ps_seq st)),
            (''orders'', VList (map order_payload (ps_orders st))),
            (''processed_fill_ids'', VList (map VStr (ps_fill_ids st))),
            (''processed_fill_fingerprints'',
               VList (map (\<lambda>(f, d). VDict [(''fill_id'', VStr f), (''sha256'', d)]) (ps_prints st)))]"

definition checkpoint_sha256 :: "(string \<Rightarrow> string) \<Rightarrow> paper_state \<Rightarrow> string" where
  "checkpoint_sha256 sha st = digest_payload sha (to_payload st)"

text \<open>Iteration and subscription on values of a document, where the code applies them unchecked.\<close>

definition iterate :: "pyval \<Rightarrow> pyval list res" where
  "iterate v =
     (case v of
        VList xs \<Rightarrow> Inr xs
      | VStr s \<Rightarrow> Inr (map (\<lambda>c. VStr [c]) s)
      | VDict d \<Rightarrow> Inr (map (\<lambda>(k, x). VStr k) d)
      | _ \<Rightarrow> Inl (TypeError ''object is not iterable''))"

definition subscript :: "pyval \<Rightarrow> string \<Rightarrow> pyval res" where
  "subscript v k =
     (case v of VDict d \<Rightarrow> dindex d k | _ \<Rightarrow> Inl (TypeError ''indices must be integers or slices''))"

text \<open>\<^verbatim>\<open>PaperOrder(**order)\<close>.\<close>

definition order_of_payload :: "pyval \<Rightarrow> paper_order res" where
  "order_of_payload v =
     (case v of
        VDict d \<Rightarrow>
          if \<not> list_all (\<lambda>k. k \<in> set [''order_id'', ''client_order_id'', ''side'', ''requested_qty'',
                                  ''filled_qty'', ''status'']) (dkeys d)
            then Inl (TypeError ''unexpected keyword argument'')
          else if \<not> list_all (\<lambda>k. k \<in> set (dkeys d)) [''order_id'', ''client_order_id'', ''side'', ''requested_qty'']
            then Inl (TypeError ''missing required argument'')
          else mk_paper_order (dget d ''order_id'') (dget d ''client_order_id'') (dget d ''side'')
                 (dget d ''requested_qty'') (dget_or d ''filled_qty'' (VDec dzero))
                 (dget_or d ''status'' (VStr ''OPEN''))
      | _ \<Rightarrow> Inl (TypeError ''argument after ** must be a mapping''))"

definition print_of_payload :: "pyval \<Rightarrow> (pyval \<times> pyval) res" where
  "print_of_payload item =
     rbind (subscript item ''fill_id'') (\<lambda>f. rbind (subscript item ''sha256'') (\<lambda>d. Inr (f, d)))"

definition state_keys :: "string list" where
  "state_keys =
     [''schema_version'', ''source_sha256'', ''config_sha256'', ''starting_cash'', ''cash'',
      ''inventory_qty'', ''inventory_cost_basis'', ''realized_pnl'', ''total_fees'',
      ''total_spread_cost'', ''total_slippage_cost'', ''turnover'', ''last_processed_timestamp'',
      ''last_event_seq'', ''orders'', ''processed_fill_ids'', ''processed_fill_fingerprints'']"

text \<open>\<^verbatim>\<open>except (TypeError, KeyError)\<close>.\<close>

fun rewrap_type_key :: "string \<Rightarrow> 'a res \<Rightarrow> 'a res" where
  "rewrap_type_key pre (Inl (TypeError m)) = Inl (ResilienceError (pre @ m))"
| "rewrap_type_key pre (Inl (KeyError m)) = Inl (ResilienceError (pre @ m))"
| "rewrap_type_key pre m = m"

definition from_payload :: "pyval \<Rightarrow> paper_state res" where
  "from_payload payload =
     (case payload of
        VDict d \<Rightarrow>
          if \<not> keys_are d state_keys
            then Inl (ResilienceError ''checkpoint state fields do not match schema'')
          else rewrap_type_key ''invalid checkpoint state: ''
            (rbind (iterate (dget d ''orders'')) (\<lambda>os.
             rbind (rmap order_of_payload os) (\<lambda>orders.
             rbind (iterate (dget d ''processed_fill_ids'')) (\<lambda>ids.
             rbind (iterate (dget d ''processed_fill_fingerprints'')) (\<lambda>fps.
             rbind (rmap print_of_payload fps) (\<lambda>prints.
               mk_paper_state
                 \<lparr>w_schema = dget d ''schema_version'', w_source = dget d ''source_sha256'',
                  w_config = dget d ''config_sha256'', w_start = dget d ''starting_cash'',
                  w_cash = dget d ''cash'', w_inv = dget d ''inventory_qty'',
                  w_basis = dget d ''inventory_cost_basis'', w_realized = dget d ''realized_pnl'',
                  w_fees = dget d ''total_fees'', w_spread = dget d ''total_spread_cost'',
                  w_slip = dget d ''total_slippage_cost'', w_turnover = dget d ''turnover'',
                  w_last_ts = dget d ''last_processed_timestamp'', w_seq = dget d ''last_event_seq'',
                  w_orders = orders, w_fill_ids = ids, w_prints = prints\<rparr>))))))
      | _ \<Rightarrow> Inl (ResilienceError ''checkpoint state must be an object''))"

subsection \<open>Fills\<close>

record fill_event =
  fe_id :: string
  fe_order :: string
  fe_side :: string
  fe_qty :: dec
  fe_price :: dec
  fe_fee :: dec
  fe_spread :: dec
  fe_slip :: dec
  fe_ts :: string
  fe_seq :: int

definition fingerprint :: "(string \<Rightarrow> string) \<Rightarrow> fill_event \<Rightarrow> string" where
  "fingerprint sha e =
     digest_payload sha
       (VDict [(''fill_id'', VStr (fe_id e)), (''order_id'', VStr (fe_order e)), (''side'', VStr (fe_side e)),
               (''quantity'', VStr (dec_str (fe_qty e))), (''price'', VStr (dec_str (fe_price e))),
               (''fee'', VStr (dec_str (fe_fee e))), (''spread_cost'', VStr (dec_str (fe_spread e))),
               (''slippage_cost'', VStr (dec_str (fe_slip e))), (''timestamp'', VStr (fe_ts e)),
               (''event_seq'', VInt (fe_seq e))])"

definition mk_fill_event ::
    "pyval \<Rightarrow> pyval \<Rightarrow> pyval \<Rightarrow> pyval \<Rightarrow> pyval \<Rightarrow> pyval \<Rightarrow> pyval \<Rightarrow> pyval \<Rightarrow> pyval \<Rightarrow> pyval \<Rightarrow> fill_event res" where
  "mk_fill_event fid oid side0 qty price fee spread slip ts seq =
     rbind (strip_attr fid) (\<lambda>f1.
     rbind (if f1 = [] then Inr [] else strip_attr oid) (\<lambda>o1.
       if f1 = [] \<or> o1 = [] then Inl (ResilienceError ''fill_id and order_id must be non-empty'')
       else rbind (strip_attr side0) (\<lambda>s1.
         let side = lower s1
         in if side \<notin> set [''buy'', ''sell''] then Inl (ResilienceError ''fill side must be buy or sell'')
            else rbind (dec_field qty ''quantity'' True False) (\<lambda>q.
                 rbind (dec_field price ''price'' True False) (\<lambda>p.
                 rbind (dec_field fee ''fee'' False True) (\<lambda>fv.
                 rbind (dec_field spread ''spread_cost'' False True) (\<lambda>sv.
                 rbind (dec_field slip ''slippage_cost'' False True) (\<lambda>lv.
                 rbind (natural_seq ''event_seq must be a positive integer'' 1 seq) (\<lambda>n.
                 rbind (normalize_timestamp ts) (\<lambda>t.
                   Inr \<lparr>fe_id = str_of fid, fe_order = str_of oid, fe_side = side, fe_qty = q,
                        fe_price = p, fe_fee = fv, fe_spread = sv, fe_slip = lv, fe_ts = t,
                        fe_seq = n\<rparr>))))))))))"

record fill_application =
  fa_applied :: bool
  fa_duplicate :: bool
  fa_status :: string
  fa_remaining :: dec

definition find_order :: "string \<Rightarrow> paper_order list \<Rightarrow> paper_order option" where
  "find_order oid ods = find (\<lambda>od. p_id od = oid) ods"

definition replace_order :: "paper_order \<Rightarrow> paper_order list \<Rightarrow> paper_order list" where
  "replace_order od ods = map (\<lambda>x. if p_id x = p_id od then od else x) ods"

text \<open>Cash, inventory, basis and realized profit after a fill of an open order.\<close>

definition settle :: "paper_state \<Rightarrow> fill_event \<Rightarrow> (dec \<times> dec \<times> dec \<times> dec) res" where
  "settle st e =
     (let notional = dmul (fe_qty e) (fe_price e);
          costs = dadd (dadd (fe_fee e) (fe_spread e)) (fe_slip e)
      in if fe_side e = ''buy''
         then let debit = dadd notional costs
              in if dlt (ps_cash st) debit
                 then Inl (ResilienceError ''insufficient paper cash for fill and costs'')
                 else Inr (dsub (ps_cash st) debit, dadd (ps_inv st) (fe_qty e),
                           dadd (ps_basis st) debit, ps_realized st)
         else if dlt (ps_inv st) (fe_qty e)
           then Inl (ResilienceError ''sell fill would create a short position'')
         else if dlt notional costs then Inl (ResilienceError ''sale costs exceed gross proceeds'')
         else let proceeds = dsub notional costs
              in rbind (if deq (fe_qty e) (ps_inv st) then Inr (ps_basis st)
                        else ddiv (dmul (ps_basis st) (fe_qty e)) (ps_inv st)) (\<lambda>alloc.
                   let inv = dsub (ps_inv st) (fe_qty e)
                   in Inr (dadd (ps_cash st) proceeds, inv,
                           (if deq inv dzero then dzero else dsub (ps_basis st) alloc),
                           dsub (dadd (ps_realized st) proceeds) alloc)))"

definition apply_new_fill ::
    "(string \<Rightarrow> string) \<Rightarrow> paper_state \<Rightarrow> fill_event \<Rightarrow> paper_order \<Rightarrow> (paper_state \<times> fill_application) res" where
  "apply_new_fill sha st e od =
     (if fe_seq e \<noteq> ps_seq st + 1
        then Inl (ResilienceError ''fill event sequence gap or stale unseen event'')
      else if (case ps_last_ts st of None \<Rightarrow> False | Some t \<Rightarrow> fe_ts e < t)
        then Inl (ResilienceError ''fill timestamp must not move backwards'')
      else if p_status od = ''FILLED''
        then Inl (ResilienceError ''fill received for an already filled order'')
      else if fe_side e \<noteq> p_side od
        then Inl (ResilienceError ''fill side differs from registered order'')
      else if dlt (p_remaining od) (fe_qty e)
        then Inl (ResilienceError ''fill quantity exceeds order remaining quantity'')
      else rbind (settle st e) (\<lambda>(cash1, inv, basis, realized).
        let filled = dadd (p_filled od) (fe_qty e);
            status = (if deq filled (p_req od) then ''FILLED'' else ''PARTIALLY_FILLED'')
        in rbind (check_order (od\<lparr>p_filled := filled, p_status := status\<rparr>)) (\<lambda>changed.
           rbind (check_state (st\<lparr>ps_cash := cash1, ps_inv := inv, ps_basis := basis, ps_realized := realized,
               ps_fees := dadd (ps_fees st) (fe_fee e), ps_spread := dadd (ps_spread st) (fe_spread e),
               ps_slip := dadd (ps_slip st) (fe_slip e),
               ps_turnover := dadd (ps_turnover st) (dmul (fe_qty e) (fe_price e)),
               ps_last_ts := Some (fe_ts e), ps_seq := fe_seq e,
               ps_orders := replace_order changed (ps_orders st),
               ps_fill_ids := ps_fill_ids st @ [fe_id e],
               ps_prints := ps_prints st @ [(fe_id e, VStr (fingerprint sha e))]\<rparr>)) (\<lambda>st'.
             Inr (st', \<lparr>fa_applied = True, fa_duplicate = False, fa_status = status,
                        fa_remaining = p_remaining changed\<rparr>)))))"

definition apply_fill ::
    "(string \<Rightarrow> string) \<Rightarrow> paper_state \<Rightarrow> fill_event \<Rightarrow> (paper_state \<times> fill_application) res" where
  "apply_fill sha st e =
     (let found = find_order (fe_order e) (ps_orders st)
      in if fe_id e \<in> set (ps_fill_ids st)
         then (case found of
                 None \<Rightarrow> Inl (ResilienceError ''processed fill references an unknown order'')
               | Some od \<Rightarrow>
                   if map_of (rev (ps_prints st)) (fe_id e) \<noteq> Some (VStr (fingerprint sha e))
                   then Inl (ResilienceError ''fill idempotency conflict: duplicate fill ID has different payload'')
                   else Inr (st, \<lparr>fa_applied = False, fa_duplicate = True, fa_status = p_status od,
                                  fa_remaining = p_remaining od\<rparr>))
         else (case found of
                 None \<Rightarrow> Inl (ResilienceError ''fill references an unknown order'')
               | Some od \<Rightarrow> apply_new_fill sha st e od))"

subsection \<open>Registration\<close>

definition same_order :: "paper_order \<Rightarrow> paper_order \<Rightarrow> bool" where
  "same_order a b =
     (p_id a = p_id b \<and> p_client a = p_client b \<and> p_side a = p_side b \<and> deq (p_req a) (p_req b))"

text \<open>The scan over the registered orders: \<open>Some True\<close> for a repetition, \<open>Some False\<close> for a conflict.\<close>

fun scan_orders :: "paper_order \<Rightarrow> paper_order list \<Rightarrow> bool option" where
  "scan_orders new [] = None"
| "scan_orders new (od # ods) =
     (if same_order od new then Some True
      else if p_id od = p_id new \<or> p_client od = p_client new then Some False
      else scan_orders new ods)"

definition requested_order :: "pyval \<Rightarrow> pyval \<Rightarrow> pyval \<Rightarrow> dec \<Rightarrow> paper_order" where
  "requested_order oid client side0 requested =
     \<lparr>p_id = strip (py_str oid), p_client = strip (py_str client), p_side = lower (strip (py_str side0)),
      p_req = requested, p_filled = dzero, p_status = ''OPEN''\<rparr>"

definition register_order ::
    "paper_state \<Rightarrow> pyval \<Rightarrow> pyval \<Rightarrow> pyval \<Rightarrow> pyval \<Rightarrow> paper_state res" where
  "register_order st oid client side0 quantity =
     rbind (dec_field quantity ''quantity'' True False) (\<lambda>requested.
       let new = requested_order oid client side0 requested
       in if p_side new \<notin> set [''buy'', ''sell'']
            then Inl (ResilienceError ''order side must be buy or sell'')
          else if p_id new = [] \<or> p_client new = []
            then Inl (ResilienceError ''order IDs must be non-empty'')
          else (case scan_orders new (ps_orders st) of
                  Some True \<Rightarrow> Inr st
                | Some False \<Rightarrow> Inl (ResilienceError ''order submission idempotency conflict'')
                | None \<Rightarrow> rbind (check_order new) (\<lambda>od.
                            check_state (st\<lparr>ps_orders := ps_orders st @ [od]\<rparr>))))"

subsection \<open>Reconciliation\<close>

record snapshot_order =
  so_id :: string
  so_side :: string
  so_remaining :: dec

definition mk_snapshot_order :: "pyval \<Rightarrow> pyval \<Rightarrow> pyval \<Rightarrow> snapshot_order res" where
  "mk_snapshot_order oid side0 remaining =
     rbind (strip_attr oid) (\<lambda>o1.
       if o1 = [] then Inl (ResilienceError ''snapshot order_id must be non-empty'')
       else rbind (strip_attr side0) (\<lambda>s1.
         let side = lower s1
         in if side \<notin> set [''buy'', ''sell'']
            then Inl (ResilienceError ''snapshot order side must be buy or sell'')
            else rbind (dec_field remaining ''remaining_qty'' True False) (\<lambda>r.
                   Inr \<lparr>so_id = str_of oid, so_side = side, so_remaining = r\<rparr>)))"

record execution_snapshot =
  es_cash :: dec
  es_inv :: dec
  es_orders :: "snapshot_order list"
  es_seq :: int

definition mk_execution_snapshot ::
    "pyval \<Rightarrow> pyval \<Rightarrow> snapshot_order list \<Rightarrow> pyval \<Rightarrow> execution_snapshot res" where
  "mk_execution_snapshot cash0 inv0 orders seq =
     rbind (dec_field cash0 ''snapshot cash'' False True) (\<lambda>c.
     rbind (dec_field inv0 ''snapshot inventory_qty'' False True) (\<lambda>i.
     rbind (natural_seq ''snapshot last_event_seq must be a non-negative integer'' 0 seq) (\<lambda>n.
       if \<not> distinct (map so_id orders)
       then Inl (ResilienceError ''snapshot contains duplicate open order IDs'')
       else Inr \<lparr>es_cash = c, es_inv = i, es_orders = orders, es_seq = n\<rparr>)))"

record reconciliation =
  rr_matched :: bool
  rr_issues :: "string list"
  rr_local :: int
  rr_observed :: int

definition off :: "dec \<Rightarrow> dec \<Rightarrow> dec \<Rightarrow> bool" where
  "off tol a b = dlt tol (dabs (dsub a b))"

definition total_issues :: "dec \<Rightarrow> dec \<Rightarrow> dec \<Rightarrow> dec \<Rightarrow> dec \<Rightarrow> int \<Rightarrow> int \<Rightarrow> string list" where
  "total_issues tol c1 c2 i1 i2 n1 n2 =
     (if off tol c1 c2 then [''cash_mismatch:local='' @ dec_str c1 @ '':observed='' @ dec_str c2] else [])
     @ (if off tol i1 i2 then [''inventory_mismatch:local='' @ dec_str i1 @ '':observed='' @ dec_str i2] else [])
     @ (if n1 \<noteq> n2 then [''event_sequence_mismatch:local='' @ show_int n1 @ '':observed='' @ show_int n2] else [])"

definition pair_issues :: "dec \<Rightarrow> paper_order \<Rightarrow> snapshot_order \<Rightarrow> string list" where
  "pair_issues tol a b =
     (if p_side a \<noteq> so_side b then [''order_side_mismatch:'' @ p_id a] else [])
     @ (if off tol (p_remaining a) (so_remaining b)
        then [''order_remaining_mismatch:'' @ p_id a @ '':local='' @ dec_str (p_remaining a)
                @ '':observed='' @ dec_str (so_remaining b)] else [])"

definition order_issues :: "dec \<Rightarrow> paper_order list \<Rightarrow> snapshot_order list \<Rightarrow> string list" where
  "order_issues tol ours theirs =
     map (\<lambda>x. ''missing_observed_order:'' @ x)
       (sorted_list_of_set (set (map p_id ours) - set (map so_id theirs)))
     @ map (\<lambda>x. ''unexpected_observed_order:'' @ x)
       (sorted_list_of_set (set (map so_id theirs) - set (map p_id ours)))
     @ concat (map (\<lambda>x.
         case (find (\<lambda>od. p_id od = x) (rev ours), find (\<lambda>od. so_id od = x) (rev theirs)) of
           (Some a, Some b) \<Rightarrow> pair_issues tol a b
         | _ \<Rightarrow> [])
       (sorted_list_of_set (set (map p_id ours) \<inter> set (map so_id theirs))))"

definition open_status :: "string \<Rightarrow> bool" where
  "open_status s = (s = ''OPEN'' \<or> s = ''PARTIALLY_FILLED'')"

definition reconcile_snapshot ::
    "paper_state \<Rightarrow> execution_snapshot \<Rightarrow> pyval \<Rightarrow> reconciliation res" where
  "reconcile_snapshot st obs tolerance =
     rbind (dec_field tolerance ''tolerance'' False True) (\<lambda>tol.
       let issues = total_issues tol (ps_cash st) (es_cash obs) (ps_inv st) (es_inv obs) (ps_seq st) (es_seq obs)
             @ order_issues tol (filter (\<lambda>od. open_status (p_status od)) (ps_orders st)) (es_orders obs)
       in Inr \<lparr>rr_matched = (issues = []), rr_issues = issues, rr_local = ps_seq st,
               rr_observed = es_seq obs\<rparr>)"

subsection \<open>Checkpoints\<close>

definition envelope :: "(string \<Rightarrow> string) \<Rightarrow> paper_state \<Rightarrow> pyval" where
  "envelope sha st =
     VDict [(''schema_version'', VInt 1), (''state_sha256'', VStr (digest_payload sha (to_payload st))),
            (''state'', to_payload st)]"

text \<open>The text that \<^verbatim>\<open>save_checkpoint\<close> writes and the digest it returns.\<close>

definition save_checkpoint :: "(string \<Rightarrow> string) \<Rightarrow> paper_state \<Rightarrow> string \<times> string" where
  "save_checkpoint sha st = (canon False (envelope sha st) @ [CHR 10], digest_payload sha (to_payload st))"

text \<open>
  \<^verbatim>\<open>load_checkpoint\<close> from the text of the file. What the decoder says about a text that is not
  JSON follows the prefix of the message and is not modelled.
\<close>

definition load_checkpoint ::
    "(string \<Rightarrow> string) \<Rightarrow> string \<Rightarrow> pyval \<Rightarrow> pyval \<Rightarrow> paper_state res" where
  "load_checkpoint sha content expected_source expected_config =
     rbind (sha_field expected_source ''expected_source_sha256'') (\<lambda>src.
     rbind (sha_field expected_config ''expected_config_sha256'') (\<lambda>cfg.
       case json_loads content of
         None \<Rightarrow> Inl (ResilienceError ''cannot read checkpoint: '')
       | Some (VDict env) \<Rightarrow>
           if \<not> keys_are env [''schema_version'', ''state_sha256'', ''state'']
             then Inl (ResilienceError ''checkpoint envelope fields do not match schema'')
           else if \<not> py_eq (dget env ''schema_version'') (VInt 1)
             then Inl (ResilienceError ''unsupported checkpoint envelope schema_version'')
           else (case dget env ''state'' of
               VDict d \<Rightarrow>
                 rbind (case json_err (VDict d) of Some x \<Rightarrow> Inl x | None \<Rightarrow> Inr ()) (\<lambda>_.
                 if dget env ''state_sha256'' \<noteq> VStr (digest_payload sha (VDict d))
                   then Inl (ResilienceError ''checkpoint checksum mismatch'')
                 else rbind (from_payload (VDict d)) (\<lambda>st.
                   if ps_source st \<noteq> src then Inl (ResilienceError ''checkpoint source hash mismatch'')
                   else if ps_config st \<noteq> cfg then Inl (ResilienceError ''checkpoint config hash mismatch'')
                   else Inr st))
             | _ \<Rightarrow> Inl (ResilienceError ''checkpoint state must be an object''))
       | _ \<Rightarrow> Inl (ResilienceError ''checkpoint envelope fields do not match schema'')))"

subsection \<open>What the constructors guarantee\<close>

lemma dec_field_Inr: "dec_field v n pos nonneg = Inr d \<Longrightarrow> (pos \<longrightarrow> 0 < dval d) \<and> (nonneg \<longrightarrow> 0 \<le> dval d)"
  by (auto simp: dec_field_def res_simps dest: as_decimal_Inr)

lemma dec_field_VDec:
  "dec_field (VDec d) n pos nonneg = Inr x \<longleftrightarrow> x = d \<and> (pos \<longrightarrow> 0 < dval d) \<and> (nonneg \<longrightarrow> 0 \<le> dval d)"
  by (auto simp: dec_field_def res_simps)

lemma dec_field_error: "dec_field v n pos nonneg = Inl x \<Longrightarrow> \<exists>m. x = ResilienceError m"
  by (cases "as_decimal v n pos nonneg") (auto simp: dec_field_def dest!: as_decimal_value_error)

lemma hex64_text:
  assumes "hex64 t"
  shows "strip t = t" and "lower t = t"
proof -
  have h: "\<forall>c \<in> set t. is_hex_lower c" using assms by (simp add: hex64_def list_all_iff)
  have "\<And>c. is_hex_lower c \<Longrightarrow> \<not> is_space c \<and> lower_char c = c"
    by (auto simp: is_hex_lower_def is_space_def lower_char_def is_digit_def Let_def)
  with h show "strip t = t" "lower t = t"
    by (auto simp: lower_def intro!: strip_no_space map_idI)
qed

lemma sha_field_Inr: "sha_field v n = Inr t \<Longrightarrow> hex64 t"
  by (auto simp: sha_field_def Let_def split: if_splits)

lemma sha_field_hex: "hex64 t \<Longrightarrow> sha_field (VStr t) n = Inr t"
  by (simp add: sha_field_def hex64_text Let_def)

lemma natural_seq_Inr: "natural_seq m k v = Inr i \<longleftrightarrow> v = VInt i \<and> k \<le> i"
  by (cases v) (auto simp: natural_seq_def)

definition order_fine :: "paper_order \<Rightarrow> bool" where
  "order_fine od =
     (p_side od \<in> {''buy'', ''sell''} \<and> strip (p_id od) \<noteq> [] \<and> strip (p_client od) \<noteq> []
      \<and> 0 < dval (p_req od) \<and> 0 \<le> dval (p_filled od) \<and> dval (p_filled od) \<le> dval (p_req od)
      \<and> p_status od = expected_status (p_req od) (p_filled od))"

lemma strip_attr_Inr: "strip_attr v = Inr t \<longleftrightarrow> (\<exists>s. v = VStr s \<and> t = strip s)"
  by (cases v) (auto simp: strip_attr_def)

lemma mk_paper_order_fine: "mk_paper_order o1 c1 s1 r1 f1 st1 = Inr od \<Longrightarrow> order_fine od"
  by (auto simp: mk_paper_order_def res_simps Let_def order_fine_def strip_attr_Inr dlt_iff
      dest!: dec_field_Inr split: if_split_asm)

lemma side_words: "lower (strip ''buy'') = ''buy''" "lower (strip ''sell'') = ''sell''"
  by code_simp+

lemma own_sides: "side \<in> {''buy'', ''sell''} \<Longrightarrow> lower (strip side) = side"
  by (auto simp only: insert_iff empty_iff side_words)

lemma check_order_fine:
  assumes "p_side od \<in> {''buy'', ''sell''}"
  shows "check_order od = Inr od' \<longleftrightarrow> od' = od \<and> order_fine od"
proof -
  have "lower (strip (p_side od)) = p_side od" using assms by (rule own_sides)
  with assms show ?thesis
    by (auto simp: check_order_def mk_paper_order_def res_simps Let_def order_fine_def strip_attr_def dlt_iff
        dec_field_VDec)
qed

definition state_fine :: "paper_state \<Rightarrow> bool" where
  "state_fine st =
     (hex64 (ps_source st) \<and> hex64 (ps_config st) \<and> 0 < dval (ps_start st) \<and> 0 \<le> dval (ps_cash st)
      \<and> 0 \<le> dval (ps_inv st) \<and> 0 \<le> dval (ps_basis st) \<and> 0 \<le> dval (ps_fees st) \<and> 0 \<le> dval (ps_spread st)
      \<and> 0 \<le> dval (ps_slip st) \<and> 0 \<le> dval (ps_turnover st)
      \<and> (dval (ps_inv st) = 0 \<longrightarrow> dval (ps_basis st) = 0) \<and> 0 \<le> ps_seq st
      \<and> (\<forall>t. ps_last_ts st = Some t \<longrightarrow> normalize_timestamp (VStr t) = Inr t)
      \<and> distinct (map p_id (ps_orders st)) \<and> distinct (map p_client (ps_orders st))
      \<and> distinct (ps_fill_ids st) \<and> (\<forall>f \<in> set (ps_fill_ids st). strip f \<noteq> [])
      \<and> map fst (ps_prints st) = ps_fill_ids st
      \<and> (\<forall>(f, d) \<in> set (ps_prints st). \<exists>t. sha_field d ''fill_fingerprint'' = Inr t))"

lemma rmap_Inr_iff: "(\<exists>ys. rmap f xs = Inr ys) \<longleftrightarrow> (\<forall>x \<in> set xs. \<exists>y. f x = Inr y)"
proof (induction xs)
  case (Cons x xs)
  have "(\<exists>ys. rmap f (x # xs) = Inr ys) \<longleftrightarrow> (\<exists>y. f x = Inr y) \<and> (\<exists>ys. rmap f xs = Inr ys)"
    by (auto simp: res_simps)
  with Cons show ?case by simp
qed simp

lemma py_distinct_strings: "py_distinct (map VStr xs) \<longleftrightarrow> distinct xs"
  by (induction xs) (auto simp: list_ex_iff py_eq.simps)

lemma strings_eq_iff:
  "length xs = length ys \<and> list_all (\<lambda>(a, b). py_eq a b) (zip (map VStr xs) (map VStr ys)) \<longleftrightarrow> xs = ys"
proof (cases "length xs = length ys")
  case True
  then show ?thesis by (induction xs ys rule: list_induct2) (auto simp: py_eq.simps)
qed auto

lemma all_strings:
  assumes "\<not> list_ex (\<lambda>v. strip (str_of v) = []) vs"
  shows "vs = map VStr (map str_of vs)" "\<forall>f \<in> set (map str_of vs). strip f \<noteq> []"
proof -
  have v: "\<exists>s. v = VStr s" if "v \<in> set vs" for v
    using assms that by (cases v) (auto simp: list_ex_iff)
  have "VStr (str_of v) = v" if "v \<in> set vs" for v using v [OF that] by auto
  then show "vs = map VStr (map str_of vs)" by (simp add: map_idI)
  show "\<forall>f \<in> set (map str_of vs). strip f \<noteq> []" using assms by (auto simp: list_ex_iff)
qed

lemma py_eq_VStr: "py_eq a (VStr s) \<longleftrightarrow> a = VStr s"
  by (subst py_eq.simps) (cases a; auto)

lemma print_keys:
  assumes "length prints = length fs" "list_all (\<lambda>(a, b). py_eq a b) (zip (map fst prints) (map VStr fs))"
  shows "map (\<lambda>(f, d). (VStr (str_of f), d)) prints = prints" "map (\<lambda>(f, d). str_of f) prints = fs"
  using assms by (induction prints fs rule: list_induct2) (auto simp: py_eq_VStr)

lemma check_ids_fine:
  assumes "check_ids orders ids prints = Inr u"
  shows "distinct (map p_id orders) \<and> distinct (map p_client orders)"
    and "distinct (map str_of ids)" and "\<forall>f \<in> set (map str_of ids). strip f \<noteq> []"
    and "map fst (map (\<lambda>(f, d). (str_of f, d)) prints) = map str_of ids"
    and "\<forall>(f, d) \<in> set prints. \<exists>t. sha_field d ''fill_fingerprint'' = Inr t"
proof -
  from assms have ids: "\<not> list_ex (\<lambda>v. strip (str_of v) = []) ids" and d: "py_distinct ids"
    and pr: "length prints = length ids" "list_all (\<lambda>(a, b). py_eq a b) (zip (map fst prints) ids)"
    and od: "distinct (map p_id orders) \<and> distinct (map p_client orders)"
    and sh: "\<exists>ys. rmap (\<lambda>(f, d). sha_field d ''fill_fingerprint'') prints = Inr ys"
    by (auto simp: check_ids_def res_simps split: if_split_asm)
  from all_strings [OF ids] have e: "ids = map VStr (map str_of ids)" by blast
  show "distinct (map p_id orders) \<and> distinct (map p_client orders)" by (rule od)
  show "distinct (map str_of ids)" using d py_distinct_strings [of "map str_of ids"] e by simp
  show "\<forall>f \<in> set (map str_of ids). strip f \<noteq> []" by (rule all_strings [OF ids])
  have "map (\<lambda>(f, d). str_of f) prints = map str_of ids"
    by (rule print_keys) (use pr e in \<open>simp_all del: map_map\<close>)
  moreover have "map fst (map (\<lambda>(f, d). (str_of f, d)) prints) = map (\<lambda>(f, d). str_of f) prints"
    by auto
  ultimately show "map fst (map (\<lambda>(f, d). (str_of f, d)) prints) = map str_of ids" by simp
  show "\<forall>(f, d) \<in> set prints. \<exists>t. sha_field d ''fill_fingerprint'' = Inr t"
    using sh by (simp add: rmap_Inr_iff case_prod_beta)
qed

lemma check_ids_strings:
  "check_ids orders (map VStr fs) (map (\<lambda>(f, d). (VStr f, d)) prints) = Inr () \<longleftrightarrow>
     distinct (map p_id orders) \<and> distinct (map p_client orders) \<and> distinct fs
     \<and> (\<forall>f \<in> set fs. strip f \<noteq> []) \<and> map fst prints = fs
     \<and> (\<forall>(f, d) \<in> set prints. \<exists>t. sha_field d ''fill_fingerprint'' = Inr t)"
proof -
  let ?p = "map (\<lambda>(f, d). (VStr f, d)) prints"
  have k: "map fst ?p = map VStr (map fst prints)" by auto
  have h: "list_all hashable (map VStr fs)" by (simp add: list_all_iff)
  have "length ?p = length (map VStr fs) \<and> list_all (\<lambda>(a, b). py_eq a b) (zip (map fst ?p) (map VStr fs))
      \<longleftrightarrow> map fst prints = fs"
    unfolding k using strings_eq_iff [of "map fst prints" fs] by simp
  moreover have "(\<exists>ys. rmap (\<lambda>(f, d). sha_field d ''fill_fingerprint'') ?p = Inr ys) \<longleftrightarrow>
      (\<forall>(f, d) \<in> set prints. \<exists>t. sha_field d ''fill_fingerprint'' = Inr t)"
    by (auto simp: rmap_Inr_iff)
  ultimately show ?thesis using h
    by (simp add: check_ids_def res_simps py_distinct_strings list_ex_iff del: map_map) blast
qed

lemma mk_paper_state_parts:
  assumes "mk_paper_state w = Inr st"
  obtains (parts) src cfg start cash1 inv basis fees spread slip turn realized seq ts where
      "sha_field (w_source w) ''source_sha256'' = Inr src" "sha_field (w_config w) ''config_sha256'' = Inr cfg"
      "dec_field (w_start w) ''starting_cash'' True False = Inr start"
      "dec_field (w_cash w) ''cash'' False True = Inr cash1"
      "dec_field (w_inv w) ''inventory_qty'' False True = Inr inv"
      "dec_field (w_basis w) ''inventory_cost_basis'' False True = Inr basis"
      "dec_field (w_fees w) ''total_fees'' False True = Inr fees"
      "dec_field (w_spread w) ''total_spread_cost'' False True = Inr spread"
      "dec_field (w_slip w) ''total_slippage_cost'' False True = Inr slip"
      "dec_field (w_turnover w) ''turnover'' False True = Inr turn"
      "dec_field (w_realized w) ''realized_pnl'' False False = Inr realized"
      "\<not> (deq inv dzero \<and> \<not> deq basis dzero)"
      "natural_seq ''last_event_seq must be a non-negative integer'' 0 (w_seq w) = Inr seq"
      "(if w_last_ts w = VNone then Inr None
            else rbind (normalize_timestamp (w_last_ts w)) (\<lambda>t. Inr (Some t))) = Inr ts"
      "check_ids (w_orders w) (w_fill_ids w) (w_prints w) = Inr ()"
      "Inr \<lparr>ps_source = src, ps_config = cfg, ps_start = start, ps_cash = cash1, ps_inv = inv,
            ps_basis = basis, ps_realized = realized, ps_fees = fees, ps_spread = spread,
            ps_slip = slip, ps_turnover = turn, ps_last_ts = ts, ps_seq = seq, ps_orders = w_orders w,
            ps_fill_ids = map str_of (w_fill_ids w),
            ps_prints = map (\<lambda>(f, d). (str_of f, d)) (w_prints w)\<rparr> = Inr st"
  using assms
  unfolding mk_paper_state_def rbind_Inr_iff raise_if_Inr
  by (elim exE conjE) (rule parts; (assumption | simp))

lemma mk_paper_state_fine:
  assumes "mk_paper_state w = Inr st"
  shows "state_fine st"
proof -
  from assms obtain src cfg start cash1 inv basis fees spread slip turn realized seq ts where
    raw: "sha_field (w_source w) ''source_sha256'' = Inr src" "sha_field (w_config w) ''config_sha256'' = Inr cfg"
      "dec_field (w_start w) ''starting_cash'' True False = Inr start"
      "dec_field (w_cash w) ''cash'' False True = Inr cash1"
      "dec_field (w_inv w) ''inventory_qty'' False True = Inr inv"
      "dec_field (w_basis w) ''inventory_cost_basis'' False True = Inr basis"
      "dec_field (w_fees w) ''total_fees'' False True = Inr fees"
      "dec_field (w_spread w) ''total_spread_cost'' False True = Inr spread"
      "dec_field (w_slip w) ''total_slippage_cost'' False True = Inr slip"
      "dec_field (w_turnover w) ''turnover'' False True = Inr turn"
      "dec_field (w_realized w) ''realized_pnl'' False False = Inr realized"
      "\<not> (deq inv dzero \<and> \<not> deq basis dzero)"
      "natural_seq ''last_event_seq must be a non-negative integer'' 0 (w_seq w) = Inr seq"
    and ts: "(if w_last_ts w = VNone then Inr None
            else rbind (normalize_timestamp (w_last_ts w)) (\<lambda>t. Inr (Some t))) = Inr ts"
    and ids: "check_ids (w_orders w) (w_fill_ids w) (w_prints w) = Inr ()"
    and st: "Inr \<lparr>ps_source = src, ps_config = cfg, ps_start = start, ps_cash = cash1, ps_inv = inv,
            ps_basis = basis, ps_realized = realized, ps_fees = fees, ps_spread = spread,
            ps_slip = slip, ps_turnover = turn, ps_last_ts = ts, ps_seq = seq, ps_orders = w_orders w,
            ps_fill_ids = map str_of (w_fill_ids w),
            ps_prints = map (\<lambda>(f, d). (str_of f, d)) (w_prints w)\<rparr> = Inr st"
    by (rule mk_paper_state_parts)
  from raw have v: "hex64 src" "hex64 cfg" "0 < dval start" "0 \<le> dval cash1" "0 \<le> dval inv" "0 \<le> dval basis"
      "0 \<le> dval fees" "0 \<le> dval spread" "0 \<le> dval slip" "0 \<le> dval turn"
      "dval inv = 0 \<longrightarrow> dval basis = 0" "0 \<le> seq"
    by (auto dest: dec_field_Inr sha_field_Inr simp: natural_seq_Inr deq_iff)
  from ts have "\<forall>t. ts = Some t \<longrightarrow> normalize_timestamp (VStr t) = Inr t"
    by (auto simp: res_simps dest: normalize_timestamp_idem split: if_split_asm)
  moreover have "\<forall>(f, d) \<in> set (map (\<lambda>(f, d). (str_of f, d)) (w_prints w)).
      \<exists>t. sha_field d ''fill_fingerprint'' = Inr t"
    using check_ids_fine(5) [OF ids] by auto
  ultimately show ?thesis
    using v check_ids_fine(1-4) [OF ids] st unfolding state_fine_def by auto
qed

lemma ts_field_Some:
  assumes "\<forall>t. x = Some t \<longrightarrow> normalize_timestamp (VStr t) = Inr t"
  shows "(if opt_str x = VNone then Inr None
          else rbind (normalize_timestamp (opt_str x)) (\<lambda>t. Inr (Some t))) = Inr x"
  using assms by (cases x) auto

lemma strings_back: "map str_of (map VStr fs) = fs"
  by (induction fs) auto

lemma prints_back: "map (\<lambda>(f, d). (str_of f, d)) (map (\<lambda>(f, d). (VStr f, d)) ps) = ps"
  by (induction ps) auto

definition canonical_texts :: "paper_state \<Rightarrow> bool" where
  "canonical_texts st =
     (hex64 (ps_source st) \<and> hex64 (ps_config st)
      \<and> (\<forall>t. ps_last_ts st = Some t \<longrightarrow> normalize_timestamp (VStr t) = Inr t))"

text \<open>On a state whose texts are canonical, the constructor is a check: it changes nothing.\<close>

lemma check_state_iff:
  assumes "canonical_texts st"
  shows "check_state st = Inr st' \<longleftrightarrow> st' = st \<and> state_fine st"
proof
  assume st: "check_state st = Inr st'"
  have "st' = st"
    using st unfolding check_state_def
  proof (rule mk_paper_state_parts)
    fix src cfg start cash1 inv basis fees spread slip turn realized seq ts
    assume "sha_field (w_source (raw_of st)) ''source_sha256'' = Inr src"
      "sha_field (w_config (raw_of st)) ''config_sha256'' = Inr cfg"
    then have 1: "src = ps_source st" "cfg = ps_config st"
      using assms by (simp_all add: raw_of_def sha_field_hex canonical_texts_def)
    assume "dec_field (w_start (raw_of st)) ''starting_cash'' True False = Inr start"
      "dec_field (w_cash (raw_of st)) ''cash'' False True = Inr cash1"
      "dec_field (w_inv (raw_of st)) ''inventory_qty'' False True = Inr inv"
      "dec_field (w_basis (raw_of st)) ''inventory_cost_basis'' False True = Inr basis"
      "dec_field (w_fees (raw_of st)) ''total_fees'' False True = Inr fees"
      "dec_field (w_spread (raw_of st)) ''total_spread_cost'' False True = Inr spread"
      "dec_field (w_slip (raw_of st)) ''total_slippage_cost'' False True = Inr slip"
      "dec_field (w_turnover (raw_of st)) ''turnover'' False True = Inr turn"
      "dec_field (w_realized (raw_of st)) ''realized_pnl'' False False = Inr realized"
    then have 2: "start = ps_start st" "cash1 = ps_cash st" "inv = ps_inv st" "basis = ps_basis st"
      "fees = ps_fees st" "spread = ps_spread st" "slip = ps_slip st" "turn = ps_turnover st"
      "realized = ps_realized st"
      by (simp_all add: raw_of_def dec_field_VDec)
    assume "natural_seq ''last_event_seq must be a non-negative integer'' 0 (w_seq (raw_of st)) = Inr seq"
    then have 3: "seq = ps_seq st" by (simp add: raw_of_def natural_seq_Inr)
    assume "(if w_last_ts (raw_of st) = VNone then Inr None
            else rbind (normalize_timestamp (w_last_ts (raw_of st))) (\<lambda>t. Inr (Some t))) = Inr ts"
    then have 4: "ts = ps_last_ts st"
      using assms by (cases "ps_last_ts st") (auto simp: raw_of_def canonical_texts_def)
    assume "Inr \<lparr>ps_source = src, ps_config = cfg, ps_start = start, ps_cash = cash1, ps_inv = inv,
            ps_basis = basis, ps_realized = realized, ps_fees = fees, ps_spread = spread,
            ps_slip = slip, ps_turnover = turn, ps_last_ts = ts, ps_seq = seq, ps_orders = w_orders (raw_of st),
            ps_fill_ids = map str_of (w_fill_ids (raw_of st)),
            ps_prints = map (\<lambda>(f, d). (str_of f, d)) (w_prints (raw_of st))\<rparr> = Inr st'"
    then show "st' = st" unfolding 1 2 3 4 raw_of_def raw_state.simps strings_back prints_back by (cases st) simp
  qed
  moreover have "state_fine st'" using st unfolding check_state_def by (rule mk_paper_state_fine)
  ultimately show "st' = st \<and> state_fine st" using st by (simp add: check_state_def)
next
  assume "st' = st \<and> state_fine st"
  then have st: "st' = st" "state_fine st" by auto
  then have d: "\<And>n. dec_field (VDec (ps_start st)) n True False = Inr (ps_start st)"
      "\<And>n. dec_field (VDec (ps_cash st)) n False True = Inr (ps_cash st)"
      "\<And>n. dec_field (VDec (ps_inv st)) n False True = Inr (ps_inv st)"
      "\<And>n. dec_field (VDec (ps_basis st)) n False True = Inr (ps_basis st)"
      "\<And>n. dec_field (VDec (ps_fees st)) n False True = Inr (ps_fees st)"
      "\<And>n. dec_field (VDec (ps_spread st)) n False True = Inr (ps_spread st)"
      "\<And>n. dec_field (VDec (ps_slip st)) n False True = Inr (ps_slip st)"
      "\<And>n. dec_field (VDec (ps_turnover st)) n False True = Inr (ps_turnover st)"
      "\<And>n. dec_field (VDec (ps_realized st)) n False False = Inr (ps_realized st)"
    by (simp_all add: dec_field_VDec state_fine_def)
  have i: "check_ids (ps_orders st) (map VStr (ps_fill_ids st)) (map (\<lambda>(f, d). (VStr f, d)) (ps_prints st)) = Inr ()"
    using st(2) unfolding check_ids_strings by (simp add: state_fine_def)
  have q: "\<And>m. natural_seq m 0 (VInt (ps_seq st)) = Inr (ps_seq st)"
    using st(2) by (simp add: natural_seq_Inr state_fine_def)
  have t: "(if opt_str (ps_last_ts st) = VNone then Inr None
          else rbind (normalize_timestamp (opt_str (ps_last_ts st))) (\<lambda>t. Inr (Some t))) = Inr (ps_last_ts st)"
    by (rule ts_field_Some) (use st(2) in \<open>simp add: state_fine_def\<close>)
  have b: "\<not> (deq (ps_inv st) dzero \<and> \<not> deq (ps_basis st) dzero)"
    using st(2) by (simp add: state_fine_def deq_iff)
  show "check_state st = Inr st'"
    unfolding check_state_def mk_paper_state_def raw_of_def raw_state.simps
    using st(2) b by (simp add: d i q t st(1) sha_field_hex state_fine_def strings_back prints_back py_eq.simps
        del: map_map cong: rbind_weak_cong)
qed

subsection \<open>The engine as a machine\<close>

text \<open>
  What a caller does with a state: it submits an order, or it builds a fill from the values of a
  message and applies it. \<open>paper_step\<close> is one call; the application record that the code also
  returns is dropped here.
\<close>

datatype paper_command =
    Submit pyval pyval pyval pyval
  | Deliver pyval pyval pyval pyval pyval pyval pyval pyval pyval pyval

fun paper_step :: "(string \<Rightarrow> string) \<Rightarrow> paper_state \<Rightarrow> paper_command \<Rightarrow> paper_state res" where
  "paper_step sha st (Submit oid client side0 quantity) = register_order st oid client side0 quantity"
| "paper_step sha st (Deliver fid oid side0 qty price fee spread slip ts seq) =
     rbind (mk_fill_event fid oid side0 qty price fee spread slip ts seq) (\<lambda>e.
     rbind (apply_fill sha st e) (\<lambda>(st', a). Inr st'))"

definition paper_ok :: "paper_state \<Rightarrow> bool" where
  "paper_ok st = (state_fine st \<and> (\<forall>od \<in> set (ps_orders st). order_fine od))"

definition fill_fine :: "fill_event \<Rightarrow> bool" where
  "fill_fine e =
     (fe_side e \<in> {''buy'', ''sell''} \<and> 0 < dval (fe_qty e) \<and> 0 < dval (fe_price e) \<and> 0 \<le> dval (fe_fee e)
      \<and> 0 \<le> dval (fe_spread e) \<and> 0 \<le> dval (fe_slip e) \<and> 1 \<le> fe_seq e
      \<and> normalize_timestamp (VStr (fe_ts e)) = Inr (fe_ts e))"

lemma mk_fill_event_fine:
  assumes "mk_fill_event f1 o1 s1 q p c1 c2 c3 t n = Inr e"
  shows "fill_fine e"
proof -
  from assms obtain side qv pv fv sv lv nv tv where
    "side \<in> set [''buy'', ''sell'']" "dec_field q ''quantity'' True False = Inr qv"
    "dec_field p ''price'' True False = Inr pv" "dec_field c1 ''fee'' False True = Inr fv"
    "dec_field c2 ''spread_cost'' False True = Inr sv" "dec_field c3 ''slippage_cost'' False True = Inr lv"
    "natural_seq ''event_seq must be a positive integer'' 1 n = Inr nv" and t: "normalize_timestamp t = Inr tv"
    and e: "\<lparr>fe_id = str_of f1, fe_order = str_of o1, fe_side = side, fe_qty = qv, fe_price = pv,
      fe_fee = fv, fe_spread = sv, fe_slip = lv, fe_ts = tv, fe_seq = nv\<rparr> = e"
    unfolding mk_fill_event_def Let_def opened by (elim exE conjE) (rule that; assumption)
  then have "side \<in> {''buy'', ''sell''}" "0 < dval qv" "0 < dval pv" "0 \<le> dval fv" "0 \<le> dval sv" "0 \<le> dval lv"
    "1 \<le> nv"
    by (simp_all add: natural_seq_Inr dec_field_Inr)
  with normalize_timestamp_idem [OF t] show ?thesis unfolding e [symmetric] fill_fine_def by simp
qed

lemma initial_state_ok: "initial_state c src cfg = Inr st \<Longrightarrow> paper_ok st"
proof -
  assume "initial_state c src cfg = Inr st"
  then obtain d where m: "mk_paper_state \<lparr>w_schema = VInt 1, w_source = src, w_config = cfg, w_start = VDec d,
         w_cash = VDec d, w_inv = VDec dzero, w_basis = VDec dzero, w_realized = VDec dzero,
         w_fees = VDec dzero, w_spread = VDec dzero, w_slip = VDec dzero, w_turnover = VDec dzero,
         w_last_ts = VNone, w_seq = VInt 0, w_orders = [], w_fill_ids = [], w_prints = []\<rparr> = Inr st"
    by (auto simp: initial_state_def rbind_Inr_iff)
  then have "ps_orders st = []" by (rule mk_paper_state_parts) auto
  with mk_paper_state_fine [OF m] show ?thesis by (simp add: paper_ok_def)
qed

lemma fine_texts: "state_fine st \<Longrightarrow> canonical_texts st"
  by (simp add: state_fine_def canonical_texts_def)

text \<open>An order that is registered, and what it replaces.\<close>

lemma register_order_cases:
  assumes "paper_ok st" "register_order st oid client side0 quantity = Inr st'"
  obtains (again) requested where "dec_field quantity ''quantity'' True False = Inr requested"
      "scan_orders (requested_order oid client side0 requested) (ps_orders st) = Some True" "st' = st"
  | (fresh) requested new where "dec_field quantity ''quantity'' True False = Inr requested"
      "new = requested_order oid client side0 requested" "scan_orders new (ps_orders st) = None"
      "st' = st\<lparr>ps_orders := ps_orders st @ [new]\<rparr>" "state_fine st'" "order_fine new"
proof -
  from assms(2) obtain requested where r: "dec_field quantity ''quantity'' True False = Inr requested"
    by (auto simp: register_order_def rbind_Inr_iff)
  define new where "new = requested_order oid client side0 requested"
  from assms(2) have o2: "p_side new \<in> set [''buy'', ''sell'']
      \<and> (case scan_orders new (ps_orders st) of
           Some True \<Rightarrow> Inr st
         | Some False \<Rightarrow> Inl (ResilienceError ''order submission idempotency conflict'')
         | None \<Rightarrow> rbind (check_order new) (\<lambda>od. check_state (st\<lparr>ps_orders := ps_orders st @ [od]\<rparr>))) = Inr st'"
    unfolding register_order_def r rbind.simps Let_def new_def [symmetric] opened
    by (elim conjE) (rule conjI; assumption)
  then have side: "p_side new \<in> {''buy'', ''sell''}" by simp
  show thesis
  proof (cases "scan_orders new (ps_orders st)")
    case None
    with o2 obtain od where od: "check_order new = Inr od"
      and st': "check_state (st\<lparr>ps_orders := ps_orders st @ [od]\<rparr>) = Inr st'"
      by (auto simp: rbind_Inr_iff)
    from od check_order_fine [OF side] have of: "od = new" "order_fine new" by auto
    from assms(1) have "canonical_texts (st\<lparr>ps_orders := ps_orders st @ [new]\<rparr>)"
      by (simp add: paper_ok_def state_fine_def canonical_texts_def)
    with st' of have "st' = st\<lparr>ps_orders := ps_orders st @ [new]\<rparr> \<and> state_fine st'"
      using check_state_iff [of "st\<lparr>ps_orders := ps_orders st @ [new]\<rparr>" st'] by simp
    then show thesis by (intro fresh [OF r new_def None _ _ of(2)]) auto
  next
    case (Some b)
    with o2 have b: "b = True" and st': "st' = st" by (auto split: bool.split_asm)
    show thesis by (rule again [OF r _ st']) (use Some b in \<open>simp add: new_def\<close>)
  qed
qed

lemma register_order_ok:
  assumes "paper_ok st" "register_order st oid client side0 quantity = Inr st'"
  shows "paper_ok st'"
  using assms by (cases rule: register_order_cases) (use assms(1) in \<open>auto simp: paper_ok_def\<close>)

lemma apply_new_fill_parts:
  assumes "paper_ok st" "fill_fine e" "od \<in> set (ps_orders st)"
    and "apply_new_fill sha st e od = Inr (st', a)"
  obtains cash1 held basis realized changed where
    "settle st e = Inr (cash1, held, basis, realized)"
    "fe_seq e = ps_seq st + 1" "fe_side e = p_side od" "order_fine changed"
    "p_id changed = p_id od" "p_client changed = p_client od" "p_side changed = p_side od"
    "p_req changed = p_req od" "p_filled changed = dadd (p_filled od) (fe_qty e)"
    "state_fine st'" "fa_applied a" "\<not> fa_duplicate a"
    "st' = st\<lparr>ps_cash := cash1, ps_inv := held, ps_basis := basis, ps_realized := realized,
               ps_fees := dadd (ps_fees st) (fe_fee e), ps_spread := dadd (ps_spread st) (fe_spread e),
               ps_slip := dadd (ps_slip st) (fe_slip e),
               ps_turnover := dadd (ps_turnover st) (dmul (fe_qty e) (fe_price e)),
               ps_last_ts := Some (fe_ts e), ps_seq := fe_seq e,
               ps_orders := replace_order changed (ps_orders st),
               ps_fill_ids := ps_fill_ids st @ [fe_id e],
               ps_prints := ps_prints st @ [(fe_id e, VStr (fingerprint sha e))]\<rparr>"
proof -
  let ?st = "\<lambda>cash1 held basis realized changed. st\<lparr>ps_cash := cash1, ps_inv := held, ps_basis := basis, ps_realized := realized,
               ps_fees := dadd (ps_fees st) (fe_fee e), ps_spread := dadd (ps_spread st) (fe_spread e),
               ps_slip := dadd (ps_slip st) (fe_slip e),
               ps_turnover := dadd (ps_turnover st) (dmul (fe_qty e) (fe_price e)),
               ps_last_ts := Some (fe_ts e), ps_seq := fe_seq e,
               ps_orders := replace_order changed (ps_orders st),
               ps_fill_ids := ps_fill_ids st @ [fe_id e],
               ps_prints := ps_prints st @ [(fe_id e, VStr (fingerprint sha e))]\<rparr>"
  let ?status = "if deq (dadd (p_filled od) (fe_qty e)) (p_req od) then ''FILLED'' else ''PARTIALLY_FILLED''"
  from assms(4) obtain r where g: "fe_seq e = ps_seq st + 1" "fe_side e = p_side od"
    and r: "settle st e = Inr r"
    and c: "(case r of (cash1, held, basis, realized) \<Rightarrow>
        rbind (check_order (od\<lparr>p_filled := dadd (p_filled od) (fe_qty e), p_status := ?status\<rparr>)) (\<lambda>changed.
           rbind (check_state (?st cash1 held basis realized changed)) (\<lambda>st'.
             Inr (st', \<lparr>fa_applied = True, fa_duplicate = False, fa_status = ?status,
                        fa_remaining = p_remaining changed\<rparr>)))) = Inr (st', a)"
    unfolding apply_new_fill_def Let_def opened by (elim exE conjE) (rule that; assumption)
  obtain cash1 held basis realized where r': "r = (cash1, held, basis, realized)" by (rule prod_cases4)
  from c [unfolded r' prod.case opened] obtain changed st2 where
    ch: "check_order (od\<lparr>p_filled := dadd (p_filled od) (fe_qty e), p_status := ?status\<rparr>) = Inr changed"
    and st2: "check_state (?st cash1 held basis realized changed) = Inr st2"
    and a: "(st2, \<lparr>fa_applied = True, fa_duplicate = False, fa_status = ?status,
                        fa_remaining = p_remaining changed\<rparr>) = (st', a)"
    by (elim exE conjE)
  from assms(1,3) have "p_side od \<in> {''buy'', ''sell''}" by (auto simp: paper_ok_def order_fine_def)
  with ch check_order_fine have cf: "changed = od\<lparr>p_filled := dadd (p_filled od) (fe_qty e), p_status := ?status\<rparr>"
    "order_fine changed" by auto
  from assms(1,2) have "canonical_texts (?st cash1 held basis realized changed)"
    by (simp add: paper_ok_def state_fine_def canonical_texts_def fill_fine_def)
  with st2 a have st': "st' = ?st cash1 held basis realized changed" "state_fine st'"
    using check_state_iff [of "?st cash1 held basis realized changed" st2] by simp_all
  from a have "fa_applied a" "\<not> fa_duplicate a" by auto
  with g r r' cf st' show thesis by (intro that [of cash1 held basis realized changed]) simp_all
qed

lemma apply_fill_new:
  assumes "apply_fill sha st e = Inr (st', a)"
  obtains (old) od where "fe_id e \<in> set (ps_fill_ids st)" "find_order (fe_order e) (ps_orders st) = Some od"
      "map_of (rev (ps_prints st)) (fe_id e) = Some (VStr (fingerprint sha e))" "st' = st" "fa_duplicate a"
  | (new) od where "fe_id e \<notin> set (ps_fill_ids st)" "find_order (fe_order e) (ps_orders st) = Some od"
      "apply_new_fill sha st e od = Inr (st', a)"
  using assms by (auto simp: apply_fill_def Let_def split: if_split_asm option.split_asm)

lemma find_order_in: "find_order i ods = Some od \<Longrightarrow> od \<in> set ods \<and> p_id od = i"
  by (auto simp: find_order_def dest: find_Some_set)

lemma replace_order_set: "x \<in> set (replace_order od ods) \<Longrightarrow> x = od \<or> x \<in> set ods"
  by (auto simp: replace_order_def split: if_split_asm)

lemma apply_fill_ok:
  assumes "paper_ok st" "fill_fine e" "apply_fill sha st e = Inr (st', a)"
  shows "paper_ok st'"
  using assms(3)
proof (cases rule: apply_fill_new)
  case (new od)
  from new(2) have "od \<in> set (ps_orders st)" by (simp add: find_order_in)
  from apply_new_fill_parts [OF assms(1,2) this new(3)] show ?thesis
  proof cases
    case (1 cash1 held basis realized changed)
    with assms(1) show ?thesis by (auto simp: paper_ok_def dest: replace_order_set)
  qed
qed (use assms(1) in simp)

lemma paper_step_ok: "paper_ok st \<Longrightarrow> paper_step sha st c = Inr st' \<Longrightarrow> paper_ok st'"
  by (cases c) (auto simp: opened split: prod.split_asm intro: register_order_ok
      apply_fill_ok dest: mk_fill_event_fine)

fun paper_seen :: "(string \<Rightarrow> string) \<Rightarrow> paper_state \<Rightarrow> paper_command \<Rightarrow> bool" where
  "paper_seen sha st (Submit oid client side0 quantity) =
     (case dec_field quantity ''quantity'' True False of
        Inl x \<Rightarrow> False
      | Inr requested \<Rightarrow> list_ex (\<lambda>od. same_order od (requested_order oid client side0 requested)) (ps_orders st))"
| "paper_seen sha st (Deliver fid oid side0 qty price fee spread slip ts seq) =
     (case mk_fill_event fid oid side0 qty price fee spread slip ts seq of
        Inl x \<Rightarrow> False
      | Inr e \<Rightarrow> fe_id e \<in> set (ps_fill_ids st)
          \<and> map_of (rev (ps_prints st)) (fe_id e) = Some (VStr (fingerprint sha e))
          \<and> find_order (fe_order e) (ps_orders st) \<noteq> None)"

lemma scan_orders_same:
  assumes "distinct (map p_id ods)" "distinct (map p_client ods)" "od \<in> set ods" "same_order od new"
  shows "scan_orders new ods = Some True"
  using assms
proof (induction ods)
  case (Cons a ods)
  show ?case
  proof (cases "od = a")
    case False
    with Cons.prems have "od \<in> set ods" by simp
    moreover from this have "p_id od \<in> p_id ` set ods" "p_client od \<in> p_client ` set ods" by simp_all
    with Cons.prems have "p_id a \<noteq> p_id new" "p_client a \<noteq> p_client new"
      by (auto simp: same_order_def)
    ultimately show ?thesis using Cons by (simp add: same_order_def)
  qed (use Cons.prems in simp)
qed simp

lemma scan_orders_True: "scan_orders new ods = Some True \<Longrightarrow> \<exists>od \<in> set ods. same_order od new"
  by (induction ods) (auto split: if_split_asm)

lemma same_order_refl: "same_order od od"
  by (simp add: same_order_def deq_iff)

text \<open>What no step forgets: the orders as submitted, the fills, and what each fill said.\<close>

definition keeps :: "paper_state \<Rightarrow> paper_state \<Rightarrow> bool" where
  "keeps st st' =
     (set (ps_fill_ids st) \<subseteq> set (ps_fill_ids st')
      \<and> (\<forall>f \<in> set (ps_fill_ids st). map_of (rev (ps_prints st')) f = map_of (rev (ps_prints st)) f)
      \<and> (\<forall>od \<in> set (ps_orders st). \<exists>od' \<in> set (ps_orders st').
           p_id od' = p_id od \<and> p_client od' = p_client od \<and> p_side od' = p_side od \<and> p_req od' = p_req od))"

lemma keeps_refl: "keeps st st"
  by (auto simp: keeps_def)

lemma apply_fill_keeps:
  assumes "paper_ok st" "fill_fine e" "apply_fill sha st e = Inr (st', a)"
  shows "keeps st st'"
  using assms(3)
proof (cases rule: apply_fill_new)
  case (new od)
  from new(2) have od: "od \<in> set (ps_orders st)" by (simp add: find_order_in)
  from apply_new_fill_parts [OF assms(1,2) od new(3)] show ?thesis
  proof cases
    case (1 cash1 held basis realized changed)
    have "\<exists>x' \<in> set (replace_order changed (ps_orders st)).
        p_id x' = p_id x \<and> p_client x' = p_client x \<and> p_side x' = p_side x \<and> p_req x' = p_req x"
      if x: "x \<in> set (ps_orders st)" for x
    proof (cases "p_id x = p_id changed")
      case True
      from assms(1) have "distinct (map p_id (ps_orders st))" by (simp add: paper_ok_def state_fine_def)
      with True x od 1 have "x = od" by (metis distinct_map inj_on_def)
      moreover have "changed \<in> set (replace_order changed (ps_orders st))"
        using x True by (force simp: replace_order_def)
      ultimately show ?thesis using 1 by auto
    next
      case False
      with x have "x \<in> set (replace_order changed (ps_orders st))"
        by (force simp: replace_order_def image_iff)
      then show ?thesis by auto
    qed
    with 1 new(1) show ?thesis by (auto simp: keeps_def)
  qed
qed (simp add: keeps_refl)

lemma paper_step_keeps:
  assumes "paper_ok st" "paper_step sha st c = Inr st'"
  shows "keeps st st'"
proof (cases c)
  case (Submit oid client side0 quantity)
  from assms(2) have "register_order st oid client side0 quantity = Inr st'" by (simp add: Submit)
  with assms(1) show ?thesis by (cases rule: register_order_cases) (auto simp: keeps_def)
next
  case (Deliver fid oid side0 qty price fee spread slip ts seq)
  with assms(2) obtain e a where "mk_fill_event fid oid side0 qty price fee spread slip ts seq = Inr e"
    "apply_fill sha st e = Inr (st', a)"
    by (auto simp: opened)
  with assms(1) show ?thesis by (blast intro: apply_fill_keeps mk_fill_event_fine)
qed

lemma find_order_None: "find_order i ods = None \<longleftrightarrow> (\<forall>od \<in> set ods. p_id od \<noteq> i)"
  by (simp add: find_order_def find_None_set)

lemma seen_keeps:
  assumes "keeps st st'" "paper_seen sha st c"
  shows "paper_seen sha st' c"
proof (cases c)
  case (Submit oid client side0 quantity)
  with assms obtain r od where r: "dec_field quantity ''quantity'' True False = Inr r"
    and od: "od \<in> set (ps_orders st)" "same_order od (requested_order oid client side0 r)"
    by (auto simp: list_ex_iff split: sum.split_asm)
  with assms(1) obtain od' where "od' \<in> set (ps_orders st')" "same_order od' (requested_order oid client side0 r)"
    by (fastforce simp: keeps_def same_order_def)
  with r Submit show ?thesis by (auto simp: list_ex_iff)
next
  case (Deliver fid oid side0 qty price fee spread slip ts seq)
  with assms obtain e where e: "mk_fill_event fid oid side0 qty price fee spread slip ts seq = Inr e"
    "fe_id e \<in> set (ps_fill_ids st)" "map_of (rev (ps_prints st)) (fe_id e) = Some (VStr (fingerprint sha e))"
    "\<exists>od \<in> set (ps_orders st). p_id od = fe_order e"
    by (auto simp: find_order_None split: sum.split_asm)
  with assms(1) have "fe_id e \<in> set (ps_fill_ids st')"
    "map_of (rev (ps_prints st')) (fe_id e) = Some (VStr (fingerprint sha e))"
    by (auto simp: keeps_def)
  moreover from e(4) assms(1) have "\<exists>od \<in> set (ps_orders st'). p_id od = fe_order e"
    unfolding keeps_def by metis
  ultimately show ?thesis
    using e(1) Deliver find_order_None [of "fe_order e" "ps_orders st'"] by auto
qed

lemma seen_step_noop:
  assumes "paper_ok st" "paper_seen sha st c"
  shows "paper_step sha st c = Inr st"
proof (cases c)
  case (Submit oid client side0 quantity)
  with assms(2) obtain r od where r: "dec_field quantity ''quantity'' True False = Inr r"
    and od: "od \<in> set (ps_orders st)" "same_order od (requested_order oid client side0 r)"
    by (auto simp: list_ex_iff split: sum.split_asm)
  define new where "new = requested_order oid client side0 r"
  from assms(1) od have "scan_orders new (ps_orders st) = Some True" "order_fine od"
    by (auto simp: new_def paper_ok_def state_fine_def intro: scan_orders_same)
  moreover from this(2) od(2) have "p_side new \<in> set [''buy'', ''sell'']" "p_id new \<noteq> []" "p_client new \<noteq> []"
    by (auto simp: new_def [symmetric] same_order_def order_fine_def)
  ultimately show ?thesis
    by (simp add: Submit register_order_def r Let_def new_def [symmetric] del: set_simps)
next
  case (Deliver fid oid side0 qty price fee spread slip ts seq)
  with assms(2) show ?thesis
    by (auto simp: apply_fill_def Let_def split: sum.split_asm)
qed

lemma step_then_seen:
  assumes "paper_ok st" "paper_step sha st c = Inr st'"
  shows "paper_seen sha st' c"
proof (cases c)
  case (Submit oid client side0 quantity)
  from assms(2) have "register_order st oid client side0 quantity = Inr st'" by (simp add: Submit)
  with assms(1) show ?thesis
  proof (cases rule: register_order_cases)
    case (again requested)
    with scan_orders_True show ?thesis by (auto simp: Submit list_ex_iff)
  next
    case (fresh requested new)
    then show ?thesis by (simp add: Submit same_order_refl)
  qed
next
  case (Deliver fid oid side0 qty price fee spread slip ts seq)
  with assms(2) obtain e a where e: "mk_fill_event fid oid side0 qty price fee spread slip ts seq = Inr e"
    "apply_fill sha st e = Inr (st', a)"
    by (auto simp: opened)
  then have fine: "fill_fine e" by (blast intro: mk_fill_event_fine)
  from e(2) have "fe_id e \<in> set (ps_fill_ids st')
      \<and> map_of (rev (ps_prints st')) (fe_id e) = Some (VStr (fingerprint sha e))
      \<and> find_order (fe_order e) (ps_orders st') \<noteq> None"
  proof (cases rule: apply_fill_new)
    case (new od)
    from new(2) have od: "od \<in> set (ps_orders st)" "p_id od = fe_order e" by (simp_all add: find_order_in)
    from apply_fill_keeps [OF assms(1) fine e(2)] od have "find_order (fe_order e) (ps_orders st') \<noteq> None"
      unfolding keeps_def find_order_None by metis
    with apply_new_fill_parts [OF assms(1) fine od(1) new(3)] show ?thesis
      by cases auto
  qed auto
  with e(1) Deliver show ?thesis by simp
qed

interpretation pm: idempotent_machine "paper_step sha" paper_ok "paper_seen sha" for sha
  by unfold_locales
    (auto intro: paper_step_ok seen_step_noop step_then_seen seen_keeps paper_step_keeps)

text \<open>C10: From the initial state, through any sequence of submissions and fills, accepted or refused:
  cash, inventory, basis, fees and turnover are never negative, a flat position carries no basis,
  every order is filled at most to its requested quantity with the status that says so, and no
  order id, client id or fill id occurs twice.\<close>

theorem paper_state_invariant:
  assumes "initial_state starting source config = Inr st0"
  shows "paper_ok (foldl (try_step (paper_step sha)) st0 cs)"
  by (rule pm.tries_good) (rule initial_state_ok [OF assms])

text \<open>C11: Every fill and every submission takes effect exactly once: after a history was accepted, delivering
  any of its commands again, in any order and any number of times, is accepted and changes nothing.\<close>

theorem paper_redelivery:
  assumes "initial_state starting source config = Inr st0"
    and "run_steps (paper_step sha) st0 cs = Inr st" and "set ds \<subseteq> set cs"
  shows "run_steps (paper_step sha) st ds = Inr st"
  by (rule pm.run_twice [OF initial_state_ok [OF assms(1)] assms(2,3)])

subsection \<open>Checkpoints read back\<close>

lemma dec_field_text: "dec_field (VStr (dec_str d)) n pos nonneg = dec_field (VDec d) n pos nonneg"
  by (simp add: dec_field_def as_decimal_def)

lemma mk_paper_order_text:
  "mk_paper_order (VStr (p_id od)) (VStr (p_client od)) (VStr (p_side od)) (VStr (dec_str (p_req od)))
     (VStr (dec_str (p_filled od))) (VStr (p_status od)) = check_order od"
  unfolding check_order_def mk_paper_order_def dec_field_text by (rule refl)

lemma order_of_payload_order:
  "order_fine od \<Longrightarrow> order_of_payload (order_payload od) = Inr od"
  using check_order_fine [of od od] mk_paper_order_text [of od]
  by (simp add: order_of_payload_def order_payload_def dkeys_def dget_def dget_or_def order_fine_def)

lemma keys_are_self: "dkeys d = ks \<Longrightarrow> keys_are d ks"
  by (simp add: keys_are_def list_all_iff)

lemma keys_are_set: "set (dkeys d) = set (dkeys e) \<Longrightarrow> keys_are d ks = keys_are e ks"
  by (simp add: keys_are_def list_all_iff)

definition state_items :: "paper_state \<Rightarrow> pydict" where
  "state_items st = as_dict (to_payload st)"

lemma to_payload_items: "to_payload st = VDict (state_items st)"
  by (simp add: state_items_def to_payload_def)

lemma state_items_keys: "dkeys (state_items st) = state_keys"
  by (simp add: state_items_def to_payload_def dkeys_def state_keys_def)

lemma state_item_table:
  "dget (state_items st) ''schema_version'' = VInt 1"
  "dget (state_items st) ''source_sha256'' = VStr (ps_source st)"
  "dget (state_items st) ''config_sha256'' = VStr (ps_config st)"
  "dget (state_items st) ''starting_cash'' = VStr (dec_str (ps_start st))"
  "dget (state_items st) ''cash'' = VStr (dec_str (ps_cash st))"
  "dget (state_items st) ''inventory_qty'' = VStr (dec_str (ps_inv st))"
  "dget (state_items st) ''inventory_cost_basis'' = VStr (dec_str (ps_basis st))"
  "dget (state_items st) ''realized_pnl'' = VStr (dec_str (ps_realized st))"
  "dget (state_items st) ''total_fees'' = VStr (dec_str (ps_fees st))"
  "dget (state_items st) ''total_spread_cost'' = VStr (dec_str (ps_spread st))"
  "dget (state_items st) ''total_slippage_cost'' = VStr (dec_str (ps_slip st))"
  "dget (state_items st) ''turnover'' = VStr (dec_str (ps_turnover st))"
  "dget (state_items st) ''last_processed_timestamp'' = opt_str (ps_last_ts st)"
  "dget (state_items st) ''last_event_seq'' = VInt (ps_seq st)"
  "dget (state_items st) ''orders'' = VList (map order_payload (ps_orders st))"
  "dget (state_items st) ''processed_fill_ids'' = VList (map VStr (ps_fill_ids st))"
  "dget (state_items st) ''processed_fill_fingerprints'' =
     VList (map (\<lambda>(f, d). VDict [(''fill_id'', VStr f), (''sha256'', d)]) (ps_prints st))"
  by (simp_all add: state_items_def to_payload_def dget_def)

text \<open>The fingerprints that the engine itself writes are texts.\<close>

definition print_texts :: "paper_state \<Rightarrow> bool" where
  "print_texts st = (\<forall>(f, d) \<in> set (ps_prints st). is_str d)"

definition same_items :: "pydict \<Rightarrow> pydict \<Rightarrow> bool" where
  "same_items d e = (map_of d = map_of e)"

lemma same_items_lookup:
  assumes "same_items d e"
  shows "dget d k = dget e k" "dget_or d k v = dget_or e k v" "dindex d k = dindex e k"
    "set (dkeys d) = set (dkeys e)" "keys_are d ks = keys_are e ks"
proof -
  show k: "set (dkeys d) = set (dkeys e)"
    using assms by (metis same_items_def dkeys_def dom_map_of_conv_image_fst set_map)
  show "keys_are d ks = keys_are e ks" by (rule keys_are_set) (rule k)
qed (use assms in \<open>simp_all add: same_items_def dget_def dget_or_def dindex_def\<close>)

lemma order_of_payload_same: "same_items d e \<Longrightarrow> order_of_payload (VDict d) = order_of_payload (VDict e)"
  unfolding order_of_payload_def list_all_iff pyval.case by (simp only: same_items_lookup [of d e])

lemma sorted_flat:
  assumes "distinct (map fst d)" "\<forall>(k, v) \<in> set d. key_sorted v = v"
  obtains e where "key_sorted (VDict d) = VDict e" "same_items e d"
proof
  let ?e = "sort_key fst (map (\<lambda>(k, v). (k, key_sorted v)) d)"
  show "key_sorted (VDict d) = VDict ?e" by simp
  have "map_of ?e k = map_of d k" for k
  proof (cases "map_of d k")
    case (Some v)
    then have "(k, v) \<in> set d" by (rule map_of_SomeD)
    with assms(2) Some show ?thesis by (auto simp: key_sorted_lookup [OF assms(1)])
  qed (simp add: key_sorted_lookup [OF assms(1)])
  then show "same_items ?e d" by (auto simp: same_items_def)
qed

lemma sorted_order_payload:
  assumes "order_fine od"
  shows "order_of_payload (key_sorted (order_payload od)) = Inr od"
proof -
  obtain d where d: "order_payload od = VDict d" "distinct (map fst d)" "\<forall>(k, v) \<in> set d. key_sorted v = v"
    by (simp add: order_payload_def)
  from d(2,3) obtain e where "key_sorted (VDict d) = VDict e" "same_items e d" by (rule sorted_flat)
  with d(1) order_of_payload_same [of e d] order_of_payload_order [OF assms] show ?thesis by simp
qed

lemma sorted_print_payload:
  assumes "is_str d"
  shows "print_of_payload (key_sorted (VDict [(''fill_id'', VStr f), (''sha256'', d)])) = Inr (VStr f, d)"
proof -
  let ?p = "[(''fill_id'', VStr f), (''sha256'', d)]"
  have "key_sorted d = d" using assms by (cases d) auto
  then have "distinct (map fst ?p)" "\<forall>(k, v) \<in> set ?p. key_sorted v = v" by simp_all
  then obtain e where e: "key_sorted (VDict ?p) = VDict e" "same_items e ?p" by (rule sorted_flat)
  have s: "subscript (VDict e) k = dindex ?p k" for k
    using same_items_lookup(3) [OF e(2)] by (simp add: subscript_def)
  show ?thesis unfolding e(1) print_of_payload_def s by (simp add: dindex_def)
qed

lemma state_items_distinct: "distinct (map fst (state_items st))"
  using state_items_keys [of st] by (simp add: dkeys_def state_keys_def)

lemma tidy_payload:
  assumes "print_texts st"
  shows "tidy (to_payload st)"
proof -
  have "list_all tidy (map (\<lambda>(f, d). VDict [(''fill_id'', VStr f), (''sha256'', d)]) (ps_prints st))"
    using assms by (fastforce simp: print_texts_def list_all_iff elim: is_str.elims)
  moreover have "list_all tidy (map order_payload (ps_orders st))"
    by (simp add: list_all_iff order_payload_def)
  moreover have "list_all tidy (map VStr (ps_fill_ids st))" by (simp add: list_all_iff)
  moreover have "tidy (opt_str (ps_last_ts st))" by (cases "ps_last_ts st") simp_all
  ultimately have "list_all (\<lambda>(k, v). tidy v) (state_items st)"
    unfolding state_items_def to_payload_def as_dict.simps list.pred_inject prod.case tidy.simps
    by (intro conjI TrueI) simp_all
  with state_items_distinct show ?thesis by (simp add: to_payload_items)
qed

lemma opt_str_sorted: "key_sorted (opt_str x) = opt_str x"
  by (cases x) simp_all

lemma iterate_list: "iterate (VList xs) = Inr xs"
  by (simp add: iterate_def)

text \<open>The arguments as a document gives them: decimals as texts.\<close>

lemma mk_paper_state_texts:
  "mk_paper_state
     \<lparr>w_schema = VInt 1, w_source = VStr (ps_source st), w_config = VStr (ps_config st),
      w_start = VStr (dec_str (ps_start st)), w_cash = VStr (dec_str (ps_cash st)),
      w_inv = VStr (dec_str (ps_inv st)), w_basis = VStr (dec_str (ps_basis st)),
      w_realized = VStr (dec_str (ps_realized st)), w_fees = VStr (dec_str (ps_fees st)),
      w_spread = VStr (dec_str (ps_spread st)), w_slip = VStr (dec_str (ps_slip st)),
      w_turnover = VStr (dec_str (ps_turnover st)), w_last_ts = opt_str (ps_last_ts st),
      w_seq = VInt (ps_seq st), w_orders = ps_orders st, w_fill_ids = map VStr (ps_fill_ids st),
      w_prints = map (\<lambda>(f, d). (VStr f, d)) (ps_prints st)\<rparr> = check_state st"
  unfolding check_state_def raw_of_def mk_paper_state_def raw_state.simps dec_field_text by (rule refl)

lemma from_sorted_payload:
  assumes "paper_ok st" "print_texts st" "key_sorted (to_payload st) = VDict d"
  shows "from_payload (VDict d) = Inr st"
proof -
  note di = state_items_distinct [of st]
  have d: "d = sort_key fst (map (\<lambda>(k, v). (k, key_sorted v)) (state_items st))"
    using assms(3) by (simp add: to_payload_items)
  have "set (dkeys d) = set (dkeys (state_items st))" by (force simp: d dkeys_def)
  then have keys: "keys_are d state_keys"
    using keys_are_set keys_are_self [OF state_items_keys] by blast
  have get: "dget d k = key_sorted (dget (state_items st) k)" for k
    unfolding dget_def d key_sorted_lookup [OF di] by (cases "map_of (state_items st) k") simp_all
  have "rmap order_of_payload (map key_sorted (map order_payload ods)) = Inr ods"
    if "\<forall>od \<in> set ods. order_fine od" for ods
    using that by (induction ods) (simp_all add: sorted_order_payload)
  then have orders: "rmap order_of_payload (map key_sorted (map order_payload (ps_orders st))) = Inr (ps_orders st)"
    using assms(1) by (simp add: paper_ok_def)
  have prints: "rmap print_of_payload (map key_sorted (map (\<lambda>(f, d). VDict [(''fill_id'', VStr f), (''sha256'', d)]) ps))
      = Inr (map (\<lambda>(f, d). (VStr f, d)) ps)" if "\<forall>(f, d) \<in> set ps. is_str d" for ps
    using that
  proof (induction ps)
    case (Cons p ps)
    obtain f d where p: "p = (f, d)" by (cases p)
    with Cons sorted_print_payload [of d f] show ?case by simp
  qed simp
  have ids: "map key_sorted (map VStr fs) = map VStr fs" for fs by (induction fs) simp_all
  from assms(1) have "check_state st = Inr st"
    using check_state_iff fine_texts by (auto simp: paper_ok_def)
  then show ?thesis
    using keys orders prints [of "ps_prints st"] assms(2)
    unfolding from_payload_def pyval.case get state_item_table rbind.simps ids opt_str_sorted
      key_sorted.simps print_texts_def
    by (simp add: iterate_list mk_paper_state_texts del: map_map list.map)
qed

lemma load_saved:
  assumes "paper_ok st" "print_texts st"
  shows "load_checkpoint sha (fst (save_checkpoint sha st)) (VStr (ps_source st)) (VStr (ps_config st)) = Inr st"
proof -
  let ?hash = "digest_payload sha (to_payload st)"
  let ?env = "[(''schema_version'', VInt 1), (''state_sha256'', VStr ?hash), (''state'', to_payload st)]"
  have tp: "tidy (to_payload st)" by (rule tidy_payload [OF assms(2)])
  have di: "distinct (map fst ?env)" by simp
  have te: "tidy (envelope sha st)" using tp by (simp add: envelope_def)
  define e where "e = sort_key fst (map (\<lambda>(k, v). (k, key_sorted v)) ?env)"
  have doc: "key_sorted (envelope sha st) = VDict e" unfolding envelope_def e_def by (simp only: key_sorted.simps)
  have "json_loads (canon False (envelope sha st) @ [CHR 10]) = Some (VDict e)"
    using json_loads_canon [OF te, of "[CHR 10]"] doc by (simp add: json_space_def)
  moreover have get: "dget e k = key_sorted (dget ?env k)" for k
    unfolding dget_def e_def key_sorted_lookup [OF di] by (cases "map_of ?env k") simp_all
  have "set (dkeys e) = set (dkeys ?env)" unfolding e_def dkeys_def by force
  then have keys: "keys_are e [''schema_version'', ''state_sha256'', ''state'']"
    using keys_are_set [of e ?env] keys_are_self [of ?env] by (simp add: dkeys_def)
  have envs: "dget ?env ''schema_version'' = VInt 1" "dget ?env ''state_sha256'' = VStr ?hash"
    "dget ?env ''state'' = to_payload st"
    by (simp_all add: dget_def)
  obtain d where d: "key_sorted (to_payload st) = VDict d" by (simp add: to_payload_items)
  have "json_err (VDict d) = None" using tidy_key_sorted [OF tp] json_err_tidy d by metis
  moreover have "digest_payload sha (VDict d) = ?hash"
    using canon_key_sorted [OF tp] d by (simp add: digest_payload_def)
  moreover have "from_payload (VDict d) = Inr st" by (rule from_sorted_payload [OF assms d])
  moreover have "sha_field (VStr (ps_source st)) n = Inr (ps_source st)"
    "sha_field (VStr (ps_config st)) n = Inr (ps_config st)" for n
    using assms(1) by (simp_all add: paper_ok_def state_fine_def sha_field_hex)
  moreover have "py_eq (VInt 1) (VInt 1)" by (simp add: py_eq.simps)
  ultimately show ?thesis
    using keys by (simp add: save_checkpoint_def load_checkpoint_def get envs d)
qed

text \<open>Along any history the fingerprints are texts, and the sequence number counts the fills.\<close>

definition paper_run_ok :: "paper_state \<Rightarrow> bool" where
  "paper_run_ok st = (paper_ok st \<and> print_texts st \<and> ps_seq st = int (length (ps_fill_ids st)))"

lemma paper_step_run_ok:
  assumes "paper_run_ok st" "paper_step sha st c = Inr st'"
  shows "paper_run_ok st'"
proof -
  from assms(1) have ok: "paper_ok st" by (simp add: paper_run_ok_def)
  have "print_texts st' \<and> ps_seq st' = int (length (ps_fill_ids st'))"
  proof (cases c)
    case (Submit oid client side0 quantity)
    from assms(2) have "register_order st oid client side0 quantity = Inr st'" by (simp add: Submit)
    with ok show ?thesis
      by (cases rule: register_order_cases) (use assms(1) in \<open>auto simp: paper_run_ok_def print_texts_def\<close>)
  next
    case (Deliver fid oid side0 qty price fee spread slip ts seq)
    with assms(2) obtain e a where e: "mk_fill_event fid oid side0 qty price fee spread slip ts seq = Inr e"
      "apply_fill sha st e = Inr (st', a)"
      by (auto simp: opened)
    then have fine: "fill_fine e" by (blast intro: mk_fill_event_fine)
    from e(2) show ?thesis
    proof (cases rule: apply_fill_new)
      case (new od)
      from new(2) have "od \<in> set (ps_orders st)" by (simp add: find_order_in)
      from apply_new_fill_parts [OF ok fine this new(3)] assms(1) show ?thesis
        by cases (auto simp: paper_run_ok_def print_texts_def)
    qed (use assms(1) in \<open>auto simp: paper_run_ok_def\<close>)
  qed
  with paper_step_ok [OF ok assms(2)] show ?thesis by (simp add: paper_run_ok_def)
qed

interpretation pr: machine "paper_step sha" paper_run_ok for sha
  by unfold_locales (rule paper_step_run_ok)

lemma initial_state_run_ok:
  assumes "initial_state c src cfg = Inr st"
  shows "paper_run_ok st"
proof -
  from assms obtain d where m: "mk_paper_state \<lparr>w_schema = VInt 1, w_source = src, w_config = cfg, w_start = VDec d,
         w_cash = VDec d, w_inv = VDec dzero, w_basis = VDec dzero, w_realized = VDec dzero,
         w_fees = VDec dzero, w_spread = VDec dzero, w_slip = VDec dzero, w_turnover = VDec dzero,
         w_last_ts = VNone, w_seq = VInt 0, w_orders = [], w_fill_ids = [], w_prints = []\<rparr> = Inr st"
    by (auto simp: initial_state_def rbind_Inr_iff)
  then have "ps_prints st = []" "ps_seq st = 0" "ps_fill_ids st = []"
    by (rule mk_paper_state_parts, auto simp: natural_seq_Inr)+
  with initial_state_ok [OF assms] show ?thesis by (simp add: paper_run_ok_def print_texts_def)
qed

text \<open>C12: After any history the checkpoint can be written and reading its text back gives the same state:
  the JSON parses, the checksum matches, every field passes its validation, and the sequence number is the
  number of fills applied.\<close>

theorem checkpoint_round_trip:
  assumes "initial_state starting source config = Inr st0"
    and "st = foldl (try_step (paper_step sha)) st0 cs"
  shows "ps_seq st = int (length (ps_fill_ids st))
     \<and> load_checkpoint sha (fst (save_checkpoint sha st)) (VStr (ps_source st)) (VStr (ps_config st)) = Inr st"
proof -
  have "paper_run_ok st" unfolding assms(2) by (rule pr.tries_good) (rule initial_state_run_ok [OF assms(1)])
  then show ?thesis using load_saved [of st sha] by (simp add: paper_run_ok_def)
qed

text \<open>A checkpoint digest identifies the state: two states reached by any histories that have the same
  digest are the same state, or the two texts that were hashed, those of the two checkpoints, are a collision.\<close>

theorem checkpoint_digest_identifies:
  assumes "initial_state c1 s1 f1 = Inr a0" "a = foldl (try_step (paper_step sha)) a0 cs"
    and "initial_state c2 s2 f2 = Inr b0" "b = foldl (try_step (paper_step sha)) b0 ds"
    and "checkpoint_sha256 sha a = checkpoint_sha256 sha b"
  shows "a = b \<or> canon False (to_payload a) \<noteq> canon False (to_payload b)
    \<and> sha (canon False (to_payload a)) = sha (canon False (to_payload b))"
proof (cases "canon False (to_payload a) = canon False (to_payload b)")
  case True
  have a: "paper_run_ok a" unfolding assms(2) by (rule pr.tries_good) (rule initial_state_run_ok [OF assms(1)])
  have b: "paper_run_ok b" unfolding assms(4) by (rule pr.tries_good) (rule initial_state_run_ok [OF assms(3)])
  have "key_sorted (to_payload a) = key_sorted (to_payload b)"
    by (rule canon_inj [OF _ _ True]) (use a b in \<open>simp_all add: tidy_payload paper_run_ok_def\<close>)
  moreover obtain d where d: "key_sorted (to_payload a) = VDict d" by (simp add: to_payload_items)
  ultimately have db: "key_sorted (to_payload b) = VDict d" by simp
  have "from_payload (VDict d) = Inr a" by (rule from_sorted_payload [OF _ _ d]) (use a in \<open>simp_all add: paper_run_ok_def\<close>)
  moreover have "from_payload (VDict d) = Inr b" by (rule from_sorted_payload [OF _ _ db]) (use b in \<open>simp_all add: paper_run_ok_def\<close>)
  ultimately show ?thesis by simp
next
  case False
  with assms(5) show ?thesis by (auto simp: checkpoint_sha256_def digest_payload_def)
qed

subsection \<open>The two ledgers of the repository\<close>

text \<open>The same fill on the cash ledger of \<^verbatim>\<open>accounting.py\<close>.\<close>

definition fill_on_ledger :: "ledger \<Rightarrow> fill_event \<Rightarrow> (ledger \<times> ledger_operation) res" where
  "fill_on_ledger l e =
     (if fe_side e = ''buy''
      then ledger_buy l (VDec (fe_qty e)) (VDec (fe_price e)) (VDec (fe_fee e)) (VDec (fe_spread e)) (VDec (fe_slip e))
      else ledger_sell l (VDec (fe_qty e)) (VDec (fe_price e)) (VDec (fe_fee e)) (VDec (fe_spread e)) (VDec (fe_slip e)))"

lemma fill_values:
  assumes "fill_fine e" "dval (fe_qty e) \<le> dval (max_fill_qty l)"
  shows "operation_values l (VDec (fe_qty e)) (VDec (fe_price e)) (VDec (fe_fee e)) (VDec (fe_spread e)) (VDec (fe_slip e))
    = Inr (fe_qty e, fe_price e, dmul (fe_qty e) (fe_price e), fe_fee e, fe_spread e, fe_slip e)"
  using assms by (simp add: operation_values_def fill_fine_def dlt_iff)

text \<open>The eight fields that both books have: seven decimal for decimal, the realized profit in value.\<close>

definition same_totals :: "paper_state \<Rightarrow> ledger \<Rightarrow> bool" where
  "same_totals st l =
     (cash l = ps_cash st \<and> inventory_qty l = ps_inv st \<and> cost_basis l = ps_basis st \<and> total_fees l = ps_fees st
      \<and> total_spread l = ps_spread st \<and> total_slippage l = ps_slip st \<and> turnover l = ps_turnover st)"

definition at_par :: "paper_state \<Rightarrow> ledger \<Rightarrow> bool" where
  "at_par st l = (same_totals st l \<and> dval (realized_pnl l) = dval (ps_realized st))"

text \<open>The part of the basis that a sell releases, and the four sums of its realized profit without rounding. The engine
  computes \<open>(r + p) - a\<close>, the ledger \<open>r + (p - a)\<close>.\<close>

definition released_basis :: "paper_state \<Rightarrow> fill_event \<Rightarrow> dec" where
  "released_basis st e =
     (if deq (fe_qty e) (ps_inv st) then ps_basis st else dquot (dmul (ps_basis st) (fe_qty e)) (ps_inv st))"

definition profit_exact :: "paper_state \<Rightarrow> ledger \<Rightarrow> fill_event \<Rightarrow> bool" where
  "profit_exact st l e =
     (let p = dsub (dmul (fe_qty e) (fe_price e)) (dadd (dadd (fe_fee e) (fe_spread e)) (fe_slip e)); a = released_basis st e
      in exact_add (ps_realized st) p \<and> exact_sub (dadd (ps_realized st) p) a
         \<and> exact_sub p a \<and> exact_add (realized_pnl l) (dsub p a))"

lemma settle_ledger:
  assumes "fill_fine e" "dval (fe_qty e) \<le> dval (max_fill_qty l)" "0 \<le> dval (ps_cash st)" "same_totals st l"
    and "fe_side e = ''buy'' \<Longrightarrow> dval (dadd (inventory_qty l) (fe_qty e)) \<le> dval (max_inventory l)"
  shows "case settle st e of
           Inl x \<Rightarrow> \<exists>y. fill_on_ledger l e = Inl y
         | Inr (c, i, b, r) \<Rightarrow> \<exists>l' op. fill_on_ledger l e = Inr (l', op)
              \<and> cash l' = c \<and> inventory_qty l' = i \<and> cost_basis l' = b
              \<and> total_fees l' = dadd (ps_fees st) (fe_fee e) \<and> total_spread l' = dadd (ps_spread st) (fe_spread e)
              \<and> total_slippage l' = dadd (ps_slip st) (fe_slip e)
              \<and> turnover l' = dadd (ps_turnover st) (dmul (fe_qty e) (fe_price e))
              \<and> (if fe_side e = ''buy'' then r = ps_realized st \<and> realized_pnl l' = realized_pnl l
                 else let p = dsub (dmul (fe_qty e) (fe_price e)) (dadd (dadd (fe_fee e) (fe_spread e)) (fe_slip e)) in
                   r = dsub (dadd (ps_realized st) p) (released_basis st e)
                   \<and> realized_pnl l' = dadd (realized_pnl l) (dsub p (released_basis st e)))"
proof (cases "fe_side e = ''buy''")
  case True
  then show ?thesis
    unfolding fill_on_ledger_def settle_def ledger_buy_def fill_values [OF assms(1,2)] rbind.simps prod.case Let_def
    using assms by (simp add: dlt_iff same_totals_def)
next
  case False
  let ?net = "dsub (dmul (fe_qty e) (fe_price e)) (dadd (dadd (fe_fee e) (fe_spread e)) (fe_slip e))"
  have neg: "\<not> dlt (dadd (ps_cash st) ?net) dzero"
    if "\<not> dlt (dmul (fe_qty e) (fe_price e)) (dadd (dadd (fe_fee e) (fe_spread e)) (fe_slip e))"
  proof -
    have "0 \<le> dval ?net" using that by (intro dsub_nonneg) (simp add: dlt_iff)
    then have "0 \<le> dval (dadd (ps_cash st) ?net)" using assms(3) by (intro dadd_nonneg) simp
    then show ?thesis by (simp add: dlt_iff)
  qed
  have alloc: "\<not> dlt (ps_inv st) (fe_qty e) \<Longrightarrow>
      (if deq (fe_qty e) (ps_inv st) then Inr (ps_basis st) else ddiv (dmul (ps_basis st) (fe_qty e)) (ps_inv st))
      = Inr (released_basis st e)"
    using assms(1) by (auto simp: ddiv_def dlt_iff fill_fine_def dval_zero_iff [symmetric] released_basis_def)
  have t: "cash l = ps_cash st" "inventory_qty l = ps_inv st" "cost_basis l = ps_basis st" "total_fees l = ps_fees st"
    "total_spread l = ps_spread st" "total_slippage l = ps_slip st" "turnover l = ps_turnover st"
    using assms(4) by (simp_all add: same_totals_def)
  from False show ?thesis
    unfolding fill_on_ledger_def settle_def ledger_sell_def fill_values [OF assms(1,2)] rbind.simps prod.case Let_def t
    using neg by (simp add: alloc)
qed

text \<open>C13: The paper engine and the replay ledger account alike. From the same totals, and as long as the size limits
  of the ledger, which the engine does not have, do not bind: the engine's settlement refuses a fill exactly when the
  ledger does; a fill that the engine applies, all of its other checks included, the ledger books to the same cash, inventory,
  basis, fees, spread, slippage and turnover, decimal for decimal and rounding included; the realized profit is the same on a
  buy, and on a sell when the sums of the profit are not rounded; and a redelivered fill changes nothing.\<close>

theorem engines_agree:
  assumes "paper_ok st" "fill_fine e" "at_par st l" "dval (fe_qty e) \<le> dval (max_fill_qty l)"
    and "fe_side e = ''buy'' \<Longrightarrow> dval (dadd (inventory_qty l) (fe_qty e)) \<le> dval (max_inventory l)"
  shows "((\<exists>x. settle st e = Inl x) \<longleftrightarrow> (\<exists>y. fill_on_ledger l e = Inl y))
    \<and> (\<forall>st' a. apply_fill sha st e = Inr (st', a) \<longrightarrow>
         (if fa_duplicate a then st' = st
          else \<exists>l' op. fill_on_ledger l e = Inr (l', op) \<and> same_totals st' l'
                 \<and> (fe_side e = ''buy'' \<or> profit_exact st l e \<longrightarrow> at_par st' l')))"
proof -
  have cash: "0 \<le> dval (ps_cash st)" and totals: "same_totals st l" and real: "dval (realized_pnl l) = dval (ps_realized st)"
    using assms(1,3) by (simp_all add: paper_ok_def state_fine_def at_par_def)
  note sl = settle_ledger [OF assms(2,4) cash totals assms(5)]
  have "(\<exists>x. settle st e = Inl x) \<longleftrightarrow> (\<exists>y. fill_on_ledger l e = Inl y)"
    using sl by (cases "settle st e") (auto split: prod.splits)
  moreover have "if fa_duplicate a then st' = st
      else \<exists>l' op. fill_on_ledger l e = Inr (l', op) \<and> same_totals st' l'
             \<and> (fe_side e = ''buy'' \<or> profit_exact st l e \<longrightarrow> at_par st' l')"
    if "apply_fill sha st e = Inr (st', a)" for st' a
    using that
  proof (cases rule: apply_fill_new)
    case (new od)
    from new(2) have "od \<in> set (ps_orders st)" by (simp add: find_order_in)
    from apply_new_fill_parts [OF assms(1,2) this new(3)] show ?thesis
    proof cases
      case (1 c i b r changed)
      obtain l' op where l': "fill_on_ledger l e = Inr (l', op)" and t: "same_totals st' l'"
        and r: "if fe_side e = ''buy'' then r = ps_realized st \<and> realized_pnl l' = realized_pnl l
          else let p = dsub (dmul (fe_qty e) (fe_price e)) (dadd (dadd (fe_fee e) (fe_spread e)) (fe_slip e)) in
                   r = dsub (dadd (ps_realized st) p) (released_basis st e)
                   \<and> realized_pnl l' = dadd (realized_pnl l) (dsub p (released_basis st e))"
        using sl unfolding 1(1) sum.case prod.case by (auto simp: same_totals_def 1(13))
      have "dval (realized_pnl l') = dval (ps_realized st')" if "fe_side e = ''buy'' \<or> profit_exact st l e"
        using that r real by (auto simp: 1(13) profit_exact_def exact_defs Let_def split: if_split_asm)
      with l' t 1(12) show ?thesis by (simp add: at_par_def)
    qed
  qed simp
  ultimately show ?thesis by blast
qed

text \<open>When the sums are rounded the two realized profits differ, by a unit here.\<close>

lemma realized_profit_differs:
  assumes "ps_realized st = Dec False 1000000000000000000000000000 0" "realized_pnl l = ps_realized st"
  defines "p \<equiv> Dec False 16 (-1)" and "a \<equiv> Dec False 4 (-1)"
  shows "dsub (dadd (ps_realized st) p) a = Dec False 1000000000000000000000000002 0"
    "dadd (realized_pnl l) (dsub p a) = Dec False 1000000000000000000000000001 0"
  unfolding assms by code_simp+

subsection \<open>Conflicts, brackets and reconciliation\<close>

lemma scan_orders_clash:
  assumes "od \<in> set ods" "p_id od = p_id new \<or> p_client od = p_client new"
    and "\<not> list_ex (\<lambda>x. same_order x new) ods"
  shows "scan_orders new ods = Some False"
  using assms by (induction ods) auto

definition clashes :: "paper_state \<Rightarrow> pyval \<Rightarrow> pyval \<Rightarrow> pyval \<Rightarrow> pyval \<Rightarrow> bool" where
  "clashes st oid client side0 quantity =
     (list_ex (\<lambda>od. p_id od = strip (py_str oid) \<or> p_client od = strip (py_str client)) (ps_orders st)
      \<and> (case dec_field quantity ''quantity'' True False of
           Inl _ \<Rightarrow> True
         | Inr r \<Rightarrow> \<not> list_ex (\<lambda>x. same_order x (requested_order oid client side0 r)) (ps_orders st)))"

lemma register_clash:
  assumes "clashes st oid client side0 quantity"
  shows "\<exists>m. register_order st oid client side0 quantity = Inl (ResilienceError m)"
proof (cases "dec_field quantity ''quantity'' True False")
  case (Inl x)
  with dec_field_error [OF Inl] show ?thesis by (auto simp: register_order_def)
next
  case (Inr r)
  define new where "new = requested_order oid client side0 r"
  have id: "p_id new = strip (py_str oid)" "p_client new = strip (py_str client)"
    by (simp_all add: new_def requested_order_def)
  from assms Inr obtain od where "od \<in> set (ps_orders st)" "p_id od = p_id new \<or> p_client od = p_client new"
    "\<not> list_ex (\<lambda>x. same_order x new) (ps_orders st)"
    by (auto simp: clashes_def list_ex_iff new_def requested_order_def)
  then have "scan_orders new (ps_orders st) = Some False" by (rule scan_orders_clash)
  then show ?thesis
    unfolding register_order_def Inr rbind.simps Let_def new_def [symmetric] by simp
qed

text \<open>What was accepted cannot be overwritten: a fill whose id was applied with another content, and a
  submission that reuses the id or the client id of an order with another content, are refused with the
  error of the module.\<close>

theorem conflicts_refused:
  "(fe_id e \<in> set (ps_fill_ids st) \<and> map_of (rev (ps_prints st)) (fe_id e) \<noteq> Some (VStr (fingerprint sha e))
      \<longrightarrow> (\<exists>m. apply_fill sha st e = Inl (ResilienceError m)))
   \<and> (clashes st oid client side0 quantity
      \<longrightarrow> (\<exists>m. register_order st oid client side0 quantity = Inl (ResilienceError m)))"
  using register_clash by (auto simp: apply_fill_def Let_def split: option.split)

lemma bracket_cases:
  assumes "resolve_long_bracket c sp tp policy = Inr d"
  obtains stop target where "dec_field sp ''stop_price'' True False = Inr stop"
    "dec_field tp ''target_price'' True False = Inr target" "dval stop < dval target"
    "(trigger d, decision_price d, ambiguous d) =
       (if dle (c_open c) stop then (''STOP'', Some (c_open c), False)
        else if dle target (c_open c) then (''TARGET'', Some (c_open c), False)
        else if dle (c_low c) stop \<and> dle target (c_high c)
        then (case policy of Worst_Case_Stop_First \<Rightarrow> (''STOP'', Some stop, True)
              | Best_Case_Target_First \<Rightarrow> (''TARGET'', Some target, True)
              | Reject_Ambiguous \<Rightarrow> (''AMBIGUOUS'', None, True))
        else if dle (c_low c) stop then (''STOP'', Some stop, False)
        else if dle target (c_high c) then (''TARGET'', Some target, False)
        else (''NONE'', None, False))"
    "decision_ts d = c_ts c"
proof -
  from assms obtain stop target where f: "dec_field sp ''stop_price'' True False = Inr stop"
    "dec_field tp ''target_price'' True False = Inr target" by (auto simp: resolve_long_bracket_def rbind_Inr_iff)
  show thesis
  proof (rule that [OF f])
    show "dval stop < dval target"
      using assms unfolding resolve_long_bracket_def f rbind.simps Let_def by (auto simp: dle_iff split: if_split_asm)
    show "(trigger d, decision_price d, ambiguous d) =
       (if dle (c_open c) stop then (''STOP'', Some (c_open c), False)
        else if dle target (c_open c) then (''TARGET'', Some (c_open c), False)
        else if dle (c_low c) stop \<and> dle target (c_high c)
        then (case policy of Worst_Case_Stop_First \<Rightarrow> (''STOP'', Some stop, True)
              | Best_Case_Target_First \<Rightarrow> (''TARGET'', Some target, True)
              | Reject_Ambiguous \<Rightarrow> (''AMBIGUOUS'', None, True))
        else if dle (c_low c) stop then (''STOP'', Some stop, False)
        else if dle target (c_high c) then (''TARGET'', Some target, False)
        else (''NONE'', None, False))" "decision_ts d = c_ts c"
      using assms unfolding resolve_long_bracket_def f rbind.simps Let_def
      by (cases policy; auto split: if_split_asm)+
  qed
qed

text \<open>C14: Without intrabar data a bracket is never resolved to the trader's advantage by default: on a checked
  candle the price of a decision was traded on it, a stop is never filled above the stop price and a target
  never below the target price, a decision is ambiguous exactly when the candle spans both prices from
  an open between them, and then the worst-case policy takes the stop.\<close>

theorem bracket_resolution:
  assumes "candle_ok c" "resolve_long_bracket c sp tp policy = Inr d"
    and "dec_field sp ''stop_price'' True False = Inr stop" "dec_field tp ''target_price'' True False = Inr target"
  shows "(\<forall>p. decision_price d = Some p \<longrightarrow> dval (c_low c) \<le> dval p \<and> dval p \<le> dval (c_high c)
            \<and> (trigger d = ''STOP'' \<and> dval p \<le> dval stop \<or> trigger d = ''TARGET'' \<and> dval target \<le> dval p))
     \<and> (ambiguous d \<longleftrightarrow> dval stop < dval (c_open c) \<and> dval (c_open c) < dval target
            \<and> dval (c_low c) \<le> dval stop \<and> dval target \<le> dval (c_high c))
     \<and> (ambiguous d \<and> policy = Worst_Case_Stop_First \<longrightarrow> trigger d = ''STOP'' \<and> decision_price d = Some stop)
     \<and> (trigger d = ''NONE'' \<longleftrightarrow> dval stop < dval (c_low c) \<and> dval (c_high c) < dval target)"
  using assms(2)
proof (cases rule: bracket_cases)
  case (1 stop' target')
  with assms(3,4) have s: "stop' = stop" "target' = target" by simp_all
  note d = 1(4) [unfolded s dle_iff]
  from assms(1) 1(3) d show ?thesis
    unfolding candle_ok_def s by (cases policy) (auto split: if_split_asm)
qed

lemma find_distinct:
  "distinct (map k xs) \<Longrightarrow> x \<in> set xs \<Longrightarrow> find (\<lambda>y. k y = k x) (rev xs) = Some x"
  by (rule distinct_map_find) (simp_all add: rev_map [symmetric])

text \<open>Reconciliation reports a match exactly when the books agree: cash and inventory within the tolerance,
  the same sequence number, the same open orders with the same sides, and remaining quantities within the
  tolerance.\<close>

theorem reconcile_matches_iff:
  assumes "paper_ok st" "distinct (map so_id (es_orders obs))"
    and "reconcile_snapshot st obs (VDec tol) = Inr r"
  shows "rr_matched r \<longleftrightarrow>
     \<not> off tol (ps_cash st) (es_cash obs) \<and> \<not> off tol (ps_inv st) (es_inv obs) \<and> ps_seq st = es_seq obs
     \<and> (let ours = filter (\<lambda>od. open_status (p_status od)) (ps_orders st)
        in p_id ` set ours = so_id ` set (es_orders obs)
           \<and> (\<forall>a \<in> set ours. \<forall>b \<in> set (es_orders obs). p_id a = so_id b
                \<longrightarrow> p_side a = so_side b \<and> \<not> off tol (p_remaining a) (so_remaining b)))"
proof -
  define ours where "ours = filter (\<lambda>od. open_status (p_status od)) (ps_orders st)"
  define theirs where "theirs = es_orders obs"
  have do: "distinct (map p_id ours)" using assms(1) by (simp add: ours_def paper_ok_def state_fine_def distinct_map_filter)
  have dt: "distinct (map so_id theirs)" using assms(2) by (simp add: theirs_def)
  have pairs: "(case (find (\<lambda>od. p_id od = x) (rev ours), find (\<lambda>od. so_id od = x) (rev theirs)) of
           (Some a, Some b) \<Rightarrow> pair_issues tol a b | _ \<Rightarrow> []) = []
       \<longleftrightarrow> (\<forall>a \<in> set ours. \<forall>b \<in> set theirs. p_id a = x \<and> so_id b = x \<longrightarrow> pair_issues tol a b = [])" for x
  proof (cases "x \<in> p_id ` set ours \<and> x \<in> so_id ` set theirs")
    case True
    then obtain a b where ab: "a \<in> set ours" "p_id a = x" "b \<in> set theirs" "so_id b = x" by auto
    from do dt ab have ua: "a' = a" if "a' \<in> set ours" "p_id a' = x" for a' using that by (metis distinct_map inj_on_def)
    from do dt ab have ub: "b' = b" if "b' \<in> set theirs" "so_id b' = x" for b' using that by (metis distinct_map inj_on_def)
    have "(\<forall>a' \<in> set ours. \<forall>b' \<in> set theirs. p_id a' = x \<and> so_id b' = x \<longrightarrow> pair_issues tol a' b' = [])
        \<longleftrightarrow> pair_issues tol a b = []"
      using ua ub ab by metis
    with find_distinct [OF do ab(1)] find_distinct [OF dt ab(3)] ab show ?thesis by simp
  next
    case False
    then have no: "(\<forall>a \<in> set ours. p_id a \<noteq> x) \<or> (\<forall>b \<in> set theirs. so_id b \<noteq> x)"
      unfolding image_iff by metis
    then have "find (\<lambda>od. p_id od = x) (rev ours) = None \<or> find (\<lambda>od. so_id od = x) (rev theirs) = None"
      by (simp add: find_None_set)
    with no show ?thesis by (auto split: option.split)
  qed
  have "order_issues tol ours theirs = [] \<longleftrightarrow>
      p_id ` set ours - so_id ` set theirs = {} \<and> so_id ` set theirs - p_id ` set ours = {}
      \<and> (\<forall>x \<in> p_id ` set ours \<inter> so_id ` set theirs.
           (case (find (\<lambda>od. p_id od = x) (rev ours), find (\<lambda>od. so_id od = x) (rev theirs)) of
              (Some a, Some b) \<Rightarrow> pair_issues tol a b | _ \<Rightarrow> []) = [])"
    by (simp add: order_issues_def)
  also have "\<dots> \<longleftrightarrow> p_id ` set ours = so_id ` set theirs
      \<and> (\<forall>a \<in> set ours. \<forall>b \<in> set theirs. p_id a = so_id b \<longrightarrow> pair_issues tol a b = [])"
    unfolding pairs
  proof (intro iffI conjI ballI impI; (elim conjE)?)
    fix a b
    assume ab: "a \<in> set ours" "b \<in> set theirs" "p_id a = so_id b"
      and all: "\<forall>x\<in>p_id ` set ours \<inter> so_id ` set theirs. \<forall>a\<in>set ours. \<forall>b\<in>set theirs.
                  p_id a = x \<and> so_id b = x \<longrightarrow> pair_issues tol a b = []"
    from ab(1) have "p_id a \<in> p_id ` set ours" by (rule imageI)
    moreover from ab(2) have "so_id b \<in> so_id ` set theirs" by (rule imageI)
    ultimately have "p_id a \<in> p_id ` set ours \<inter> so_id ` set theirs" using ab(3) by simp
    with all ab show "pair_issues tol a b = []" by auto
  qed auto
  finally have "order_issues tol ours theirs = [] \<longleftrightarrow> p_id ` set ours = so_id ` set theirs
      \<and> (\<forall>a \<in> set ours. \<forall>b \<in> set theirs. p_id a = so_id b \<longrightarrow> pair_issues tol a b = [])" .
  moreover have "pair_issues tol a b = [] \<longleftrightarrow> p_side a = so_side b \<and> \<not> off tol (p_remaining a) (so_remaining b)" for a b
    by (simp add: pair_issues_def)
  moreover from assms(3) have "rr_matched r \<longleftrightarrow>
      total_issues tol (ps_cash st) (es_cash obs) (ps_inv st) (es_inv obs) (ps_seq st) (es_seq obs) = []
      \<and> order_issues tol ours theirs = []"
    by (auto simp: reconcile_snapshot_def dec_field_VDec opened ours_def theirs_def Let_def)
  moreover have "total_issues tol c1 c2 i1 i2 n1 n2 = [] \<longleftrightarrow> \<not> off tol c1 c2 \<and> \<not> off tol i1 i2 \<and> n1 = n2" for c1 c2 i1 i2 n1 n2
    by (simp add: total_issues_def)
  ultimately show ?thesis by (simp add: ours_def theirs_def Let_def)
qed

subsection \<open>A concrete engine\<close>

definition demo_key :: string where "demo_key = replicate 64 CHR ''a''"

text \<open>A digest function for the examples: the parity of the length, written as 64 hexadecimal digits.\<close>

definition demo_sha :: "string \<Rightarrow> string" where
  "demo_sha s = replicate 64 (if even (length s) then CHR ''a'' else CHR ''b'')"

definition demo_time :: string where "demo_time = iso_z 0"

definition demo_state :: paper_state where
  "demo_state = \<lparr>ps_source = demo_key, ps_config = demo_key, ps_start = dec_of_int 1000, ps_cash = dec_of_int 1000,
     ps_inv = dzero, ps_basis = dzero, ps_realized = dzero, ps_fees = dzero, ps_spread = dzero, ps_slip = dzero,
     ps_turnover = dzero, ps_last_ts = None, ps_seq = 0, ps_orders = [], ps_fill_ids = [], ps_prints = []\<rparr>"

definition demo_order :: paper_order where
  "demo_order = \<lparr>p_id = ''o1'', p_client = ''c1'', p_side = ''buy'', p_req = dec_of_int 2, p_filled = dzero, p_status = ''OPEN''\<rparr>"

definition demo_fill :: fill_event where
  "demo_fill = \<lparr>fe_id = ''f1'', fe_order = ''o1'', fe_side = ''buy'', fe_qty = dec_of_int 1, fe_price = dec_of_int 100,
     fe_fee = dec_of_int 1, fe_spread = dzero, fe_slip = dzero, fe_ts = demo_time, fe_seq = 1\<rparr>"

definition demo_submit :: paper_command where
  "demo_submit = Submit (VStr ''o1'') (VStr ''c1'') (VStr '' BUY'') (VInt 2)"

definition demo_deliver :: paper_command where
  "demo_deliver = Deliver (VStr ''f1'') (VStr ''o1'') (VStr ''buy'') (VInt 1) (VInt 100) (VInt 1) (VInt 0) (VInt 0)
     (VStr demo_time) (VInt 1)"

definition demo_open :: paper_state where "demo_open = demo_state\<lparr>ps_orders := [demo_order]\<rparr>"

definition demo_filled :: paper_state where
  "demo_filled = demo_open\<lparr>ps_cash := dec_of_int 899, ps_inv := dec_of_int 1, ps_basis := dec_of_int 101,
     ps_fees := dec_of_int 1, ps_turnover := dec_of_int 100, ps_last_ts := Some demo_time, ps_seq := 1,
     ps_orders := [demo_order\<lparr>p_filled := dec_of_int 1, p_status := ''PARTIALLY_FILLED''\<rparr>],
     ps_fill_ids := [''f1''], ps_prints := [(''f1'', VStr (fingerprint demo_sha demo_fill))]\<rparr>"

lemma demo_state_new: "initial_state (VInt 1000) (VStr demo_key) (VStr demo_key) = Inr demo_state"
  by code_simp

lemma demo_submitted: "paper_step demo_sha demo_state demo_submit = Inr demo_open"
  by code_simp

lemma demo_timestamp: "normalize_timestamp (VStr demo_time) = Inr demo_time"
  unfolding demo_time_def by (rule normalize_iso_z) (simp_all add: max_instant_def us_per_day_def)

lemma demo_ints:
  "dec_field (VInt 0) n False True = Inr dzero" "dec_field (VInt 1) n b c = Inr (dec_of_int 1)"
  "dec_field (VInt 100) n b c = Inr (dec_of_int 100)"
proof -
  have "dec_parse (py_str (VInt 0)) = PFinite dzero" "dec_parse (py_str (VInt 1)) = PFinite (dec_of_int 1)"
    "dec_parse (py_str (VInt 100)) = PFinite (dec_of_int 100)"
    by code_simp+
  then show "dec_field (VInt 0) n False True = Inr dzero" "dec_field (VInt 1) n b c = Inr (dec_of_int 1)"
    "dec_field (VInt 100) n b c = Inr (dec_of_int 100)"
    by (simp_all add: dec_field_def as_decimal_def dle_iff dlt_iff del: py_str.simps)
qed

lemma demo_fill_made:
  "mk_fill_event (VStr ''f1'') (VStr ''o1'') (VStr ''buy'') (VInt 1) (VInt 100) (VInt 1) (VInt 0) (VInt 0)
     (VStr demo_time) (VInt 1) = Inr demo_fill"
proof -
  have "strip ''f1'' = ''f1''" "strip ''o1'' = ''o1''" "lower (strip ''buy'') = ''buy''" by code_simp+
  then show ?thesis
    by (simp add: mk_fill_event_def strip_attr_def demo_ints demo_timestamp natural_seq_def demo_fill_def)
qed

lemma hex64_demo: "hex64 (demo_sha s)" "hex64 demo_key"
  by (simp_all add: hex64_def demo_sha_def demo_key_def is_hex_lower_def list_all_iff)

lemma demo_filled_fine: "state_fine demo_filled"
proof -
  have "strip ''f1'' \<noteq> []" by code_simp
  then show ?thesis
    by (simp add: state_fine_def demo_filled_def demo_open_def demo_state_def demo_order_def hex64_demo demo_timestamp
        sha_field_hex fingerprint_def digest_payload_def)
qed

lemma demo_delivered: "paper_step demo_sha demo_open demo_deliver = Inr demo_filled"
proof -
  have "canonical_texts demo_filled" using demo_filled_fine by (rule fine_texts)
  then have cs: "check_state demo_filled = Inr demo_filled"
    using check_state_iff demo_filled_fine by blast
  have co: "check_order (demo_order\<lparr>p_filled := dec_of_int 1, p_status := ''PARTIALLY_FILLED''\<rparr>)
     = Inr (demo_order\<lparr>p_filled := dec_of_int 1, p_status := ''PARTIALLY_FILLED''\<rparr>)" by code_simp
  have s: "settle demo_open demo_fill = Inr (dec_of_int 899, dec_of_int 1, dec_of_int 101, dzero)"
    by (simp add: settle_def demo_open_def demo_state_def demo_fill_def dec_eval)
  have f: "find_order (fe_order demo_fill) (ps_orders demo_open) = Some demo_order" "fe_id demo_fill \<notin> set (ps_fill_ids demo_open)"
    by (simp_all add: demo_fill_def demo_open_def demo_order_def demo_state_def find_order_def)
  have g: "(fe_seq demo_fill \<noteq> ps_seq demo_open + 1) = False"
    "(case ps_last_ts demo_open of None \<Rightarrow> False | Some t \<Rightarrow> fe_ts demo_fill < t) = False"
    "(p_status demo_order = ''FILLED'') = False" "(fe_side demo_fill \<noteq> p_side demo_order) = False"
    "dlt (p_remaining demo_order) (fe_qty demo_fill) = False"
    by (simp_all add: demo_fill_def demo_open_def demo_order_def demo_state_def p_remaining_def dec_eval)
  have q: "dadd (p_filled demo_order) (fe_qty demo_fill) = dec_of_int 1" "deq (dec_of_int 1) (p_req demo_order) = False"
    by (simp_all add: demo_fill_def demo_order_def dec_eval)
  have r: "demo_open\<lparr>ps_cash := dec_of_int 899, ps_inv := dec_of_int 1, ps_basis := dec_of_int 101, ps_realized := dzero,
       ps_fees := dadd (ps_fees demo_open) (fe_fee demo_fill), ps_spread := dadd (ps_spread demo_open) (fe_spread demo_fill),
       ps_slip := dadd (ps_slip demo_open) (fe_slip demo_fill),
       ps_turnover := dadd (ps_turnover demo_open) (dmul (fe_qty demo_fill) (fe_price demo_fill)),
       ps_last_ts := Some (fe_ts demo_fill), ps_seq := fe_seq demo_fill,
       ps_orders := replace_order (demo_order\<lparr>p_filled := dec_of_int 1, p_status := ''PARTIALLY_FILLED''\<rparr>) (ps_orders demo_open),
       ps_fill_ids := ps_fill_ids demo_open @ [fe_id demo_fill],
       ps_prints := ps_prints demo_open @ [(fe_id demo_fill, VStr (fingerprint demo_sha demo_fill))]\<rparr> = demo_filled"
    by (simp add: demo_filled_def demo_open_def demo_state_def demo_fill_def demo_order_def replace_order_def dec_eval)
  have f': "(fe_id demo_fill \<in> set (ps_fill_ids demo_open)) = False" using f(2) by simp
  show ?thesis
    by (simp only: demo_deliver_def paper_step.simps demo_fill_made rbind.simps apply_fill_def Let_def f' f(1) if_False
        option.case apply_new_fill_def s g q prod.case co r cs)
qed

theorem paper_state_invariant_witness:
  "paper_ok (foldl (try_step (paper_step demo_sha)) demo_state [demo_submit, demo_deliver, demo_deliver])"
  by (rule paper_state_invariant [OF demo_state_new])

theorem paper_redelivery_witness:
  "run_steps (paper_step demo_sha) demo_filled [demo_deliver, demo_submit, demo_deliver] = Inr demo_filled"
  by (rule paper_redelivery [OF demo_state_new, of demo_sha "[demo_submit, demo_deliver]"])
    (simp_all add: demo_submitted demo_delivered)

theorem checkpoint_round_trip_witness:
  "load_checkpoint demo_sha (fst (save_checkpoint demo_sha demo_filled)) (VStr demo_key) (VStr demo_key) = Inr demo_filled"
proof -
  have "demo_filled = foldl (try_step (paper_step demo_sha)) demo_state [demo_submit, demo_deliver]"
    by (simp add: try_step_def demo_submitted demo_delivered)
  from checkpoint_round_trip [OF demo_state_new this] show ?thesis
    by (simp add: demo_filled_def demo_open_def demo_state_def)
qed

theorem checkpoint_digest_identifies_witness:
  "checkpoint_sha256 (\<lambda>t. []) demo_open = checkpoint_sha256 (\<lambda>t. []) demo_state
     \<and> canon False (to_payload demo_open) \<noteq> canon False (to_payload demo_state)"
proof -
  have same: "checkpoint_sha256 (\<lambda>t. []) demo_open = checkpoint_sha256 (\<lambda>t. []) demo_state"
    by (simp add: checkpoint_sha256_def digest_payload_def)
  have a: "demo_open = foldl (try_step (paper_step (\<lambda>t. []))) demo_state [demo_submit]"
    using demo_submitted by (simp add: try_step_def demo_submit_def)
  have b: "demo_state = foldl (try_step (paper_step (\<lambda>t. []))) demo_state []" by simp
  have "demo_open \<noteq> demo_state" by (simp add: demo_open_def demo_state_def)
  with checkpoint_digest_identifies [OF demo_state_new a demo_state_new b same] same show ?thesis by blast
qed

theorem engines_agree_witness:
  "\<exists>l' op. fill_on_ledger demo_ledger demo_fill = Inr (l', op) \<and> at_par demo_filled l'"
proof -
  have fine: "fill_fine demo_fill" by (rule mk_fill_event_fine [OF demo_fill_made])
  have ok: "paper_ok demo_open" by (rule paper_step_ok [OF initial_state_ok [OF demo_state_new] demo_submitted])
  have par: "at_par demo_open demo_ledger"
    by (simp add: at_par_def same_totals_def demo_ledger_def demo_open_def demo_state_def)
  have inv: "dval (dadd (inventory_qty demo_ledger) (fe_qty demo_fill)) \<le> dval (max_inventory demo_ledger)"
    "dval (fe_qty demo_fill) \<le> dval (max_fill_qty demo_ledger)"
    unfolding dle_iff [symmetric] by (simp_all add: demo_ledger_def demo_fill_def dec_eval)
  obtain a where a: "apply_fill demo_sha demo_open demo_fill = Inr (demo_filled, a)"
    using demo_delivered by (auto simp: demo_deliver_def demo_fill_made rbind_Inr_iff)
  have "\<not> fa_duplicate a"
  proof
    assume "fa_duplicate a"
    then have "fe_id demo_fill \<in> set (ps_fill_ids demo_open)" using a
      by (auto simp: apply_fill_def apply_new_fill_def rbind_Inr_iff Let_def split: if_split_asm option.split_asm)
    then show False by (simp add: demo_open_def demo_state_def)
  qed
  with engines_agree [OF ok fine par inv(2,1), of demo_sha] a show ?thesis by (auto simp: demo_fill_def)
qed

definition demo_other :: fill_event where "demo_other = demo_fill\<lparr>fe_order := ''o12''\<rparr>"

lemma demo_prints_differ: "fingerprint demo_sha demo_other \<noteq> fingerprint demo_sha demo_fill"
  by (simp add: fingerprint_def digest_payload_def demo_sha_def demo_other_def demo_fill_def jstr_def esc_char_def) blast

theorem conflicts_refused_witness:
  "(\<exists>m. apply_fill demo_sha demo_filled demo_other = Inl (ResilienceError m))
   \<and> (\<exists>m. register_order demo_filled (VStr ''o1'') (VStr ''c9'') (VStr ''sell'') (VInt 1) = Inl (ResilienceError m))"
proof -
  have "fe_id demo_other \<in> set (ps_fill_ids demo_filled)"
    "map_of (rev (ps_prints demo_filled)) (fe_id demo_other) \<noteq> Some (VStr (fingerprint demo_sha demo_other))"
    using demo_prints_differ by (simp_all add: demo_filled_def demo_other_def demo_fill_def)
  moreover have w: "strip ''o1'' = ''o1''" "strip ''c9'' = ''c9''" "lower (strip ''sell'') = ''sell''" by code_simp+
  then have "clashes demo_filled (VStr ''o1'') (VStr ''c9'') (VStr ''sell'') (VInt 1)"
    by (simp add: clashes_def demo_ints demo_filled_def demo_order_def requested_order_def same_order_def)
  ultimately show ?thesis using conflicts_refused by blast
qed

definition demo_wide :: candle where
  "demo_wide = \<lparr>c_ts = demo_time, c_open = dec_of_int 10, c_high = dec_of_int 12, c_low = dec_of_int 8,
     c_close = dec_of_int 11, c_volume = dzero\<rparr>"

theorem bracket_resolution_witness:
  "\<exists>d. resolve_long_bracket demo_wide (VDec (dec_of_int 9)) (VDec (dec_of_int 11)) Worst_Case_Stop_First = Inr d
     \<and> ambiguous d \<and> trigger d = ''STOP''"
proof -
  have ok: "candle_ok demo_wide" by (simp add: candle_ok_def demo_wide_def)
  have f: "dec_field (VDec (dec_of_int 9)) ''stop_price'' True False = Inr (dec_of_int 9)"
    "dec_field (VDec (dec_of_int 11)) ''target_price'' True False = Inr (dec_of_int 11)"
    by (simp_all add: dec_field_VDec)
  obtain d where d: "resolve_long_bracket demo_wide (VDec (dec_of_int 9)) (VDec (dec_of_int 11)) Worst_Case_Stop_First = Inr d"
    unfolding resolve_long_bracket_def f rbind.simps Let_def by (simp add: dle_iff demo_wide_def)
  from bracket_resolution [OF ok d f] have "ambiguous d" "ambiguous d \<longrightarrow> trigger d = ''STOP''"
    by (simp_all add: demo_wide_def)
  with d show ?thesis by blast
qed

theorem reconcile_matches_iff_witness:
  "\<exists>r. reconcile_snapshot demo_filled
       \<lparr>es_cash = dec_of_int 899, es_inv = dec_of_int 1,
        es_orders = [\<lparr>so_id = ''o1'', so_side = ''buy'', so_remaining = dec_of_int 1\<rparr>], es_seq = 1\<rparr> (VDec dzero) = Inr r
     \<and> rr_matched r"
proof -
  let ?obs = "\<lparr>es_cash = dec_of_int 899, es_inv = dec_of_int 1,
        es_orders = [\<lparr>so_id = ''o1'', so_side = ''buy'', so_remaining = dec_of_int 1\<rparr>], es_seq = 1\<rparr>"
  have ok: "paper_ok demo_filled"
    by (rule paper_step_ok [OF paper_step_ok [OF initial_state_ok [OF demo_state_new] demo_submitted] demo_delivered])
  obtain r where r: "reconcile_snapshot demo_filled ?obs (VDec dzero) = Inr r"
    by (simp add: reconcile_snapshot_def dec_field_def rbind_Inr_iff Let_def)
  have o1: "filter (\<lambda>od. open_status (p_status od)) (ps_orders demo_filled)
      = [demo_order\<lparr>p_filled := dec_of_int 1, p_status := ''PARTIALLY_FILLED''\<rparr>]"
    by (simp add: demo_filled_def open_status_def)
  have "rr_matched r"
    unfolding reconcile_matches_iff [OF ok _ r, unfolded o1, simplified]
    by (simp add: off_def demo_filled_def demo_open_def demo_state_def demo_order_def open_status_def p_remaining_def dec_eval)
  with r show ?thesis by blast
qed

end
