(* ===== verification/RiskKernel.thy ===== *)
theory RiskKernel
  imports PyFloat Machines
begin

section \<open>The risk kernel\<close>

text \<open>
  \<^verbatim>\<open>senecio_polymarket/backend/portfolio/risk_kernel.py\<close>: the gate between a trade proposal
  and its execution. The clock is an argument \<open>now\<close> (microseconds since the start of year 1);
  within one call it does not advance. An observer of the market's microstructure is a function
  that returns a report or raises. Logging is left out.
\<close>

subsection \<open>Configuration and state\<close>

record risk_config =
  max_daily_loss_pct :: pyfloat
  max_drawdown_pct :: pyfloat
  starting_equity_usd :: pyfloat
  min_confidence :: pyfloat
  vol_threshold_normal :: pyfloat
  vol_threshold_high :: pyfloat
  vol_threshold_extreme :: pyfloat
  vol_scale_high :: pyfloat
  vol_scale_extreme :: pyfloat
  consecutive_loss_threshold :: int
  cooldown_minutes :: int

definition risk_defaults :: risk_config where
  "risk_defaults =
     \<lparr>max_daily_loss_pct = flit 30 3, max_drawdown_pct = flit 10 2, starting_equity_usd = flit 10000 0,
      min_confidence = flit 40 2, vol_threshold_normal = flit 15 3, vol_threshold_high = flit 30 3,
      vol_threshold_extreme = flit 50 3, vol_scale_high = flit 50 2, vol_scale_extreme = flit 25 2,
      consecutive_loss_threshold = 3, cooldown_minutes = 30\<rparr>"

datatype vol_regime = Vol_Low | Vol_Normal | Vol_High | Vol_Extreme

fun regime_value :: "vol_regime \<Rightarrow> string" where
  "regime_value Vol_Low = ''LOW''"
| "regime_value Vol_Normal = ''NORMAL''"
| "regime_value Vol_High = ''HIGH''"
| "regime_value Vol_Extreme = ''EXTREME''"

record risk_state =
  current_day :: string
  daily_pnl_usd :: pyfloat
  daily_pnl_pct :: pyfloat
  peak_equity :: pyfloat
  current_equity :: pyfloat
  drawdown_pct :: pyfloat
  consecutive_losses :: int
  last_loss_ts :: "string option"
  cooldown_until :: "string option"
  kill_active :: bool
  kill_reason :: string
  kill_set_at :: "string option"
  regime :: vol_regime
  vol_pct :: pyfloat
  n_evaluated :: int
  n_approved :: int
  n_rejected :: int

record risk_kernel =
  cfg :: risk_config
  rst :: risk_state

record risk_decision =
  approved :: bool
  reason :: string
  size_scale :: pyfloat
  kernel_snapshot :: risk_state
  proposal_id :: pyval

definition fresh_state :: "string \<Rightarrow> pyfloat \<Rightarrow> risk_state" where
  "fresh_state day equity =
     \<lparr>current_day = day, daily_pnl_usd = fzero, daily_pnl_pct = fzero, peak_equity = equity,
      current_equity = equity, drawdown_pct = fzero, consecutive_losses = 0, last_loss_ts = None,
      cooldown_until = None, kill_active = False, kill_reason = [], kill_set_at = None,
      regime = Vol_Normal, vol_pct = fzero, n_evaluated = 0, n_approved = 0, n_rejected = 0\<rparr>"

definition new_kernel :: "int \<Rightarrow> risk_config \<Rightarrow> risk_kernel" where
  "new_kernel now c = \<lparr>cfg = c, rst = fresh_state (date_text now) (starting_equity_usd c)\<rparr>"

definition init_state :: "int \<Rightarrow> pyfloat \<Rightarrow> risk_kernel \<Rightarrow> risk_kernel" where
  "init_state now equity k =
     k\<lparr>rst := fresh_state (date_text now) equity, cfg := (cfg k)\<lparr>starting_equity_usd := equity\<rparr>\<rparr>"

text \<open>A patch of the configuration, as a function on it.\<close>

definition update_config :: "(risk_config \<Rightarrow> risk_config) \<Rightarrow> risk_kernel \<Rightarrow> risk_kernel" where
  "update_config patch k = k\<lparr>cfg := patch (cfg k)\<rparr>"

subsection \<open>Kill switch and day change\<close>

definition trip_kill_switch :: "int \<Rightarrow> string \<Rightarrow> risk_state \<Rightarrow> risk_state" where
  "trip_kill_switch now why s =
     s\<lparr>kill_active := True, kill_reason := why, kill_set_at := Some (isoformat_utc now)\<rparr>"

definition reset_kill_switch :: "risk_state \<Rightarrow> risk_state" where
  "reset_kill_switch s =
     s\<lparr>kill_active := False, kill_reason := [], kill_set_at := None, cooldown_until := None,
       consecutive_losses := 0\<rparr>"

definition maybe_rollover_day :: "int \<Rightarrow> risk_state \<Rightarrow> risk_state" where
  "maybe_rollover_day now s =
     (let today = date_text now
      in if today = current_day s then s
         else let s1 = s\<lparr>current_day := today, daily_pnl_usd := fzero, daily_pnl_pct := fzero\<rparr>
              in if kill_active s1 \<and> contains (kill_reason s1) ''daily_loss'' then reset_kill_switch s1 else s1)"

definition update_vol_regime :: "pyfloat \<Rightarrow> risk_kernel \<Rightarrow> risk_kernel" where
  "update_vol_regime v k =
     k\<lparr>rst := (rst k)\<lparr>vol_pct := v,
        regime := (if flt v (vol_threshold_normal (cfg k)) then Vol_Low
                   else if flt v (vol_threshold_high (cfg k)) then Vol_Normal
                   else if flt v (vol_threshold_extreme (cfg k)) then Vol_High
                   else Vol_Extreme)\<rparr>\<rparr>"

subsection \<open>Recording a closed position\<close>

definition percent :: "pyfloat \<Rightarrow> pyfloat" where
  "percent x = fmul x (flit 100 0)"

text \<open>\<^verbatim>\<open>daily_pnl_pct <= -max_daily_loss_pct * 100\<close> and \<^verbatim>\<open>drawdown_pct >= max_drawdown_pct * 100\<close>.\<close>

definition daily_loss_hit :: "risk_config \<Rightarrow> risk_state \<Rightarrow> bool" where
  "daily_loss_hit c s = fle (daily_pnl_pct s) (fmul (fneg (max_daily_loss_pct c)) (flit 100 0))"

definition drawdown_hit :: "risk_config \<Rightarrow> risk_state \<Rightarrow> bool" where
  "drawdown_hit c s = fle (percent (max_drawdown_pct c)) (drawdown_pct s)"

definition streak_after :: "int \<Rightarrow> risk_config \<Rightarrow> pyfloat \<Rightarrow> risk_state \<Rightarrow> risk_state res" where
  "streak_after now c pnl s =
     (if flt pnl fzero then
        (let s1 = s\<lparr>consecutive_losses := consecutive_losses s + 1, last_loss_ts := Some (isoformat_utc now)\<rparr>
         in if consecutive_loss_threshold c \<le> consecutive_losses s1 then
              rbind (to_utc (now + cooldown_minutes c * 60000000) 0) (\<lambda>u.
                let s2 = s1\<lparr>cooldown_until := Some (isoformat_utc u)\<rparr>
                in Inr (if consecutive_loss_threshold c * 2 \<le> consecutive_losses s2
                        then trip_kill_switch now
                               (''auto: '' @ show_int (consecutive_losses s2) @ '' consecutive losses'') s2
                        else s2))
            else Inr s1)
      else if flt fzero pnl then Inr (s\<lparr>consecutive_losses := 0, cooldown_until := None\<rparr>)
      else Inr s)"

text \<open>The two limits, checked after a position was closed; the second reason overwrites the first.\<close>

definition auto_kill :: "int \<Rightarrow> risk_config \<Rightarrow> risk_state \<Rightarrow> risk_state" where
  "auto_kill now c s3 =
     (let s4 = (if daily_loss_hit c s3
                then trip_kill_switch now
                       (''auto: daily_loss='' @ fmt_fixed 2 (daily_pnl_pct s3) @ ''% reached -''
                         @ fmt_fixed 2 (percent (max_daily_loss_pct c)) @ ''%'') s3
                else s3)
      in if drawdown_hit c s4
         then trip_kill_switch now
                (''auto: drawdown='' @ fmt_fixed 2 (drawdown_pct s4) @ ''% reached ''
                  @ fmt_fixed 2 (percent (max_drawdown_pct c)) @ ''%'') s4
         else s4)"

text \<open>Daily profit, equity, peak and drawdown after a position was closed.\<close>

definition mark_equity :: "risk_config \<Rightarrow> pyfloat \<Rightarrow> pyfloat \<Rightarrow> risk_state \<Rightarrow> risk_state res" where
  "mark_equity c pnl equity s =
     (let usd = fadd (daily_pnl_usd s) pnl; peak = (if flt (peak_equity s) equity then equity else peak_equity s)
      in rbind (fdiv usd (fmax (starting_equity_usd c) (flit 1 0))) (\<lambda>share.
         rbind (if flt fzero peak
                then rbind (fdiv (fsub peak equity) peak) (\<lambda>d. Inr (fmax fzero (percent d)))
                else Inr (drawdown_pct s)) (\<lambda>dd.
           Inr (s\<lparr>daily_pnl_usd := usd, daily_pnl_pct := percent share, current_equity := equity,
                  peak_equity := peak, drawdown_pct := dd\<rparr>))))"

definition record_pnl :: "int \<Rightarrow> pyfloat \<Rightarrow> pyfloat \<Rightarrow> risk_kernel \<Rightarrow> risk_kernel res" where
  "record_pnl now pnl equity k =
     rbind (mark_equity (cfg k) pnl equity (maybe_rollover_day now (rst k))) (\<lambda>s1.
     rbind (streak_after now (cfg k) pnl s1) (\<lambda>s2.
       Inr (k\<lparr>rst := auto_kill now (cfg k) s2\<rparr>)))"

subsection \<open>Evaluating a proposal\<close>

record micro_report =
  mr_action :: string
  mr_toxic :: pyfloat
  mr_vpin :: pyfloat
  mr_ofi :: pyfloat
  mr_near_liq :: pyval
  mr_funding :: pyval
  mr_scale :: pyfloat

type_synonym observer = "pyfloat \<Rightarrow> pyval \<Rightarrow> micro_report res"

definition decide_reject :: "pydict \<Rightarrow> string \<Rightarrow> risk_state \<Rightarrow> risk_kernel \<Rightarrow> risk_kernel \<times> risk_decision" where
  "decide_reject p why snap k =
     (k\<lparr>rst := (rst k)\<lparr>n_rejected := n_rejected (rst k) + 1\<rparr>\<rparr>,
      \<lparr>approved = False, reason = why, size_scale = fzero, kernel_snapshot = snap,
       proposal_id = dget p ''prediction_id''\<rparr>)"

text \<open>
  The minutes that remain of a cooldown, or \<open>Inl\<close> when the exception that parsing or comparing
  raises is swallowed. A naive text raises \<^verbatim>\<open>TypeError\<close> when it is compared.
\<close>

definition cooldown_left :: "int \<Rightarrow> string \<Rightarrow> unit + pyfloat option" where
  "cooldown_left now t =
     (case fromisoformat (replace_all ''Z'' ''+00:00'' t) of
        None \<Rightarrow> Inl ()
      | Some d \<Rightarrow>
          (case dt_offset d of
             None \<Rightarrow> Inl ()
           | Some off \<Rightarrow>
               if now < dt_local d - off
               then (case fdiv (total_seconds (dt_local d - off - now)) (flit 60 0) of
                       Inr m \<Rightarrow> Inr (Some m) | Inl _ \<Rightarrow> Inl ())
               else Inr None))"

definition regime_scale :: "risk_config \<Rightarrow> vol_regime \<Rightarrow> pyfloat" where
  "regime_scale c r =
     (if r = Vol_High then vol_scale_high c else if r = Vol_Extreme then vol_scale_extreme c else flit 1 0)"

text \<open>What the observer says; an exception of the call or of its arguments counts as no report.\<close>

definition ask_observer :: "observer option \<Rightarrow> pydict \<Rightarrow> micro_report option" where
  "ask_observer obs p =
     (case obs of
        None \<Rightarrow> None
      | Some f \<Rightarrow>
          (case rbind (float_of (dget_or p ''entry_price'' (VInt 0))) (\<lambda>price.
                  f price (dget_or p ''direction'' (VStr ''LONG''))) of
             Inl _ \<Rightarrow> None
           | Inr r \<Rightarrow> Some r))"

definition final_checks :: "observer option \<Rightarrow> pydict \<Rightarrow> pyfloat \<Rightarrow> risk_state \<Rightarrow> risk_kernel \<Rightarrow> risk_kernel \<times> risk_decision" where
  "final_checks obs p conf snap k =
     (let scale0 = regime_scale (cfg k) (regime (rst k)); rep = ask_observer obs p
      in if (case rep of None \<Rightarrow> False | Some r \<Rightarrow> mr_action r = ''REJECT'') then
           (case rep of
              Some r \<Rightarrow> decide_reject p
                (''microstructure_reject: toxic_score='' @ fmt_fixed 2 (mr_toxic r) @ '' vpin='' @ fmt_fixed 2 (mr_vpin r)
                  @ '' ofi='' @ fmt_fixed 2 (mr_ofi r) @ '' near_liq='' @ py_str (mr_near_liq r)
                  @ '' funding_extreme='' @ py_str (mr_funding r)) snap k
            | None \<Rightarrow> decide_reject p [] snap k)
         else let scale = (case rep of
                             None \<Rightarrow> scale0
                           | Some r \<Rightarrow> if mr_action r = ''REDUCE'' then fmul scale0 (mr_scale r) else scale0);
                  k1 = k\<lparr>rst := (rst k)\<lparr>n_approved := n_approved (rst k) + 1\<rparr>\<rparr>; s = rst k1
              in (k1, \<lparr>approved = True,
                       reason = ''approved conf='' @ fmt_fixed 3 conf @ '' regime='' @ regime_value (regime s)
                         @ '' size_scale='' @ fmt_fixed 2 scale @ '' dd='' @ fmt_fixed 2 (drawdown_pct s)
                         @ ''% day_pnl='' @ fmt_fixed 2 (daily_pnl_pct s) @ ''%''
                         @ (case rep of None \<Rightarrow> [] | Some r \<Rightarrow> '' micro_toxic='' @ fmt_fixed 2 (mr_toxic r)),
                       size_scale = scale, kernel_snapshot = s, proposal_id = dget p ''prediction_id''\<rparr>))"

definition evaluate :: "int \<Rightarrow> observer option \<Rightarrow> pydict \<Rightarrow> risk_kernel \<Rightarrow> risk_kernel \<times> risk_decision res" where
  "evaluate now obs p k0 =
     (let s0 = maybe_rollover_day now (rst k0); s1 = s0\<lparr>n_evaluated := n_evaluated s0 + 1\<rparr>;
          k = k0\<lparr>rst := s1\<rparr>; c = cfg k; snap = s1; out = (\<lambda>(k', d). (k', Inr d))
      in if kill_active s1 then out (decide_reject p (''kill_switch_active: '' @ kill_reason s1) snap k)
         else if daily_loss_hit c s1 then
           out (decide_reject p
             (''daily_loss_limit_hit: pnl_pct='' @ fmt_fixed 2 (daily_pnl_pct s1) @ ''% threshold=-''
               @ fmt_fixed 2 (percent (max_daily_loss_pct c)) @ ''%'') snap k)
         else if drawdown_hit c s1 then
           out (decide_reject p
             (''max_drawdown_hit: dd='' @ fmt_fixed 2 (drawdown_pct s1) @ ''% threshold=''
               @ fmt_fixed 2 (percent (max_drawdown_pct c)) @ ''%'') snap k)
         else (case float_of (dget_or p ''confidence'' (VInt 0)) of
             Inl x \<Rightarrow> (k, Inl x)
           | Inr conf \<Rightarrow>
               if flt conf (min_confidence c) then
                 out (decide_reject p (''low_confidence: '' @ fmt_fixed 3 conf @ '' < '' @ fmt_fixed 3 (min_confidence c)) snap k)
               else (case cooldown_until s1 of
                   None \<Rightarrow> out (final_checks obs p conf snap k)
                 | Some t \<Rightarrow>
                     if t = [] then out (final_checks obs p conf snap k)
                     else (case cooldown_left now t of
                         Inl _ \<Rightarrow> out (final_checks obs p conf snap k)
                       | Inr (Some m) \<Rightarrow>
                           out (decide_reject p
                             (''cooldown_active: '' @ fmt_fixed 1 m @ ''m remaining (after ''
                               @ show_int (consecutive_losses s1) @ '' consecutive losses)'') snap k)
                       | Inr None \<Rightarrow>
                           out (final_checks obs p conf snap (k\<lparr>rst := s1\<lparr>cooldown_until := None\<rparr>\<rparr>))))))"

subsection \<open>What every operation keeps\<close>

datatype risk_op =
    Evaluate int "observer option" pydict
  | Record int pyfloat pyfloat
  | Volatility pyfloat
  | Trip int string
  | Reset
  | Init int pyfloat
  | Patch "risk_config \<Rightarrow> risk_config"

fun risk_step :: "risk_kernel \<Rightarrow> risk_op \<Rightarrow> risk_kernel res" where
  "risk_step k (Evaluate now obs p) = Inr (fst (evaluate now obs p k))"
| "risk_step k (Record now pnl equity) = record_pnl now pnl equity k"
| "risk_step k (Volatility v) = Inr (update_vol_regime v k)"
| "risk_step k (Trip now why) = Inr (k\<lparr>rst := trip_kill_switch now why (rst k)\<rparr>)"
| "risk_step k Reset = Inr (k\<lparr>rst := reset_kill_switch (rst k)\<rparr>)"
| "risk_step k (Init now equity) = Inr (init_state now equity k)"
| "risk_step k (Patch f) = Inr (update_config f k)"

definition risk_ok :: "risk_kernel \<Rightarrow> bool" where
  "risk_ok k =
     (0 \<le> n_approved (rst k) \<and> 0 \<le> n_rejected (rst k)
      \<and> n_approved (rst k) + n_rejected (rst k) \<le> n_evaluated (rst k)
      \<and> 0 \<le> consecutive_losses (rst k) \<and> \<not> flt (drawdown_pct (rst k)) fzero)"

lemma fresh_ok: "risk_ok \<lparr>cfg = c, rst = fresh_state d e\<rparr>"
  by (simp add: risk_ok_def fresh_state_def fzero_def)

lemma rollover_fields:
  "n_approved (maybe_rollover_day now s) = n_approved s" "n_rejected (maybe_rollover_day now s) = n_rejected s"
  "n_evaluated (maybe_rollover_day now s) = n_evaluated s" "drawdown_pct (maybe_rollover_day now s) = drawdown_pct s"
  "0 \<le> consecutive_losses s \<Longrightarrow> 0 \<le> consecutive_losses (maybe_rollover_day now s)"
  "current_day (maybe_rollover_day now s) = date_text now" "regime (maybe_rollover_day now s) = regime s"
  by (auto simp: maybe_rollover_day_def reset_kill_switch_def Let_def)

lemma trip_fields [simp]:
  "n_approved (trip_kill_switch now w s) = n_approved s" "n_rejected (trip_kill_switch now w s) = n_rejected s"
  "n_evaluated (trip_kill_switch now w s) = n_evaluated s" "drawdown_pct (trip_kill_switch now w s) = drawdown_pct s"
  "consecutive_losses (trip_kill_switch now w s) = consecutive_losses s" "kill_active (trip_kill_switch now w s)"
  "current_day (trip_kill_switch now w s) = current_day s" "daily_pnl_pct (trip_kill_switch now w s) = daily_pnl_pct s"
  "kill_reason (trip_kill_switch now w s) = w"
  by (simp_all add: trip_kill_switch_def)

lemma trip_limits [simp]:
  "daily_loss_hit c (trip_kill_switch now w s) = daily_loss_hit c s"
  "drawdown_hit c (trip_kill_switch now w s) = drawdown_hit c s"
  by (simp_all add: daily_loss_hit_def drawdown_hit_def)

text \<open>The outcomes of a decision: rejected or approved, with what changes in the state.\<close>

lemma decide_reject_fields:
  "decide_reject p w snap k = (k', d) \<Longrightarrow> \<not> approved d \<and> cfg k' = cfg k
     \<and> rst k' = (rst k)\<lparr>n_rejected := n_rejected (rst k) + 1\<rparr>"
  by (auto simp: decide_reject_def)

lemma final_checks_fields:
  assumes "final_checks obs p conf snap k = (k', d)"
  shows "cfg k' = cfg k"
    and "\<not> approved d \<and> rst k' = (rst k)\<lparr>n_rejected := n_rejected (rst k) + 1\<rparr>
       \<or> approved d \<and> rst k' = (rst k)\<lparr>n_approved := n_approved (rst k) + 1\<rparr>"
  using assms
  by (auto simp: final_checks_def Let_def split: if_split_asm option.split_asm dest!: decide_reject_fields)

lemma evaluate_cases:
  assumes "evaluate now obs p k = (k', d)"
  defines "s \<equiv> (maybe_rollover_day now (rst k))\<lparr>n_evaluated := n_evaluated (rst k) + 1\<rparr>"
  obtains (raised) x where "d = Inl x" "k' = k\<lparr>rst := s\<rparr>"
  | (rejected) dec s' where "d = Inr dec" "\<not> approved dec" "cfg k' = cfg k" "s' = s \<or> s' = s\<lparr>cooldown_until := None\<rparr>"
      "rst k' = s'\<lparr>n_rejected := n_rejected s' + 1\<rparr>"
  | (approved) dec conf s' where "d = Inr dec" "approved dec" "cfg k' = cfg k" "\<not> kill_active s"
      "\<not> daily_loss_hit (cfg k) s" "\<not> drawdown_hit (cfg k) s"
      "float_of (dget_or p ''confidence'' (VInt 0)) = Inr conf" "\<not> flt conf (min_confidence (cfg k))"
      "s' = s \<or> s' = s\<lparr>cooldown_until := None\<rparr>" "rst k' = s'\<lparr>n_approved := n_approved s' + 1\<rparr>"
      "final_checks obs p conf s (k\<lparr>rst := s'\<rparr>) = (k', dec)"
      "\<forall>t m. cooldown_until s = Some t \<and> t \<noteq> [] \<longrightarrow> cooldown_left now t \<noteq> Inr (Some m)"
proof -
  have s: "(let s0 = maybe_rollover_day now (rst k) in s0\<lparr>n_evaluated := n_evaluated s0 + 1\<rparr>) = s"
    by (simp add: s_def Let_def rollover_fields)
  show thesis
  proof (cases "kill_active s \<or> daily_loss_hit (cfg k) s \<or> drawdown_hit (cfg k) s")
    case True
    with assms(1) have "\<exists>w dec. decide_reject p w s (k\<lparr>rst := s\<rparr>) = (k', dec) \<and> d = Inr dec"
      unfolding evaluate_def Let_def s_def [symmetric] rollover_fields
      by (auto simp: s_def [symmetric] decide_reject_def split: if_split_asm)
    then show thesis by (auto intro!: rejected [of _ s] dest!: decide_reject_fields)
  next
    case False
    note ev = assms(1) [unfolded evaluate_def Let_def rollover_fields, folded s_def]
    show thesis
    proof (cases "float_of (dget_or p ''confidence'' (VInt 0))")
      case (Inl x)
      with ev False show thesis by (intro raised [of x]) auto
    next
      case (Inr conf)
      have out: thesis if "final_checks obs p conf s (k\<lparr>rst := s'\<rparr>) = (k', dec)" "d = Inr dec"
        "s' = s \<or> s' = s\<lparr>cooldown_until := None\<rparr>" "\<not> flt conf (min_confidence (cfg k))"
        "\<forall>t m. cooldown_until s = Some t \<and> t \<noteq> [] \<longrightarrow> cooldown_left now t \<noteq> Inr (Some m)" for dec s'
        using final_checks_fields [OF that(1)] that(2-5) False Inr that(1)
        by (auto intro: rejected [of _ s'] approved [of _ conf s'])
      have no: thesis if "decide_reject p w s (k\<lparr>rst := s\<rparr>) = (k', dec)" "d = Inr dec" for w dec
        using decide_reject_fields [OF that(1)] that(2) by (auto intro: rejected [of _ s])
      have same: "k\<lparr>rst := s\<rparr>\<lparr>rst := x\<rparr> = k\<lparr>rst := x\<rparr>" for x by simp
      from ev False Inr show thesis
        by (auto split: if_split_asm option.split_asm sum.split_asm prod.split_asm intro: out no)
    qed
  qed
qed

lemma flt_asym: "flt x y \<Longrightarrow> \<not> flt y x"
  by (cases x; cases y) (auto simp: Let_def min.commute)

lemma fmax_zero: "\<not> flt (fmax fzero x) fzero"
  using flt_asym [of fzero x] flt_irrefl [of fzero] by (simp add: fmax_def)

lemma streak_after_fields:
  assumes "streak_after now c pnl s = Inr s'"
  shows "n_approved s' = n_approved s" "n_rejected s' = n_rejected s" "n_evaluated s' = n_evaluated s"
    "drawdown_pct s' = drawdown_pct s" "daily_pnl_pct s' = daily_pnl_pct s" "current_day s' = current_day s"
    "0 \<le> consecutive_losses s \<Longrightarrow> 0 \<le> consecutive_losses s'" "kill_active s \<Longrightarrow> kill_active s'"
  using assms by (auto simp: streak_after_def Let_def rbind_Inr_iff split: if_split_asm)

lemma auto_kill_fields:
  "n_approved (auto_kill now c s) = n_approved s" "n_rejected (auto_kill now c s) = n_rejected s"
  "n_evaluated (auto_kill now c s) = n_evaluated s" "drawdown_pct (auto_kill now c s) = drawdown_pct s"
  "consecutive_losses (auto_kill now c s) = consecutive_losses s" "current_day (auto_kill now c s) = current_day s"
  "daily_loss_hit c' (auto_kill now c s) = daily_loss_hit c' s" "drawdown_hit c' (auto_kill now c s) = drawdown_hit c' s"
  "kill_active (auto_kill now c s) = (kill_active s \<or> daily_loss_hit c s \<or> drawdown_hit c s)"
  by (auto simp: auto_kill_def Let_def)

lemma mark_equity_fields:
  assumes "mark_equity c pnl equity s = Inr s'"
  shows "n_approved s' = n_approved s" "n_rejected s' = n_rejected s" "n_evaluated s' = n_evaluated s"
    "current_day s' = current_day s" "consecutive_losses s' = consecutive_losses s"
    "\<not> flt (drawdown_pct s) fzero \<Longrightarrow> \<not> flt (drawdown_pct s') fzero" "kill_active s' = kill_active s"
  using assms fmax_zero by (auto simp: mark_equity_def Let_def rbind_Inr_iff split: if_split_asm)

lemma record_pnl_fields:
  assumes "record_pnl now pnl equity k = Inr k'"
  shows "cfg k' = cfg k" "n_approved (rst k') = n_approved (rst k)" "n_rejected (rst k') = n_rejected (rst k)"
    "n_evaluated (rst k') = n_evaluated (rst k)" "current_day (rst k') = date_text now"
    "\<not> flt (drawdown_pct (rst k)) fzero \<Longrightarrow> \<not> flt (drawdown_pct (rst k')) fzero"
    "0 \<le> consecutive_losses (rst k) \<Longrightarrow> 0 \<le> consecutive_losses (rst k')"
    "kill_active (maybe_rollover_day now (rst k)) \<Longrightarrow> kill_active (rst k')"
    "daily_loss_hit (cfg k) (rst k') \<or> drawdown_hit (cfg k) (rst k') \<Longrightarrow> kill_active (rst k')"
    "daily_loss_hit (cfg k) (rst k') \<Longrightarrow> \<not> drawdown_hit (cfg k) (rst k')
      \<Longrightarrow> \<exists>t. kill_reason (rst k') = ''auto: daily_loss='' @ t"
proof -
  let ?s0 = "maybe_rollover_day now (rst k)"
  from assms obtain s1 s3 where m: "mark_equity (cfg k) pnl equity ?s0 = Inr s1"
    and st: "streak_after now (cfg k) pnl s1 = Inr s3" and k': "Inr (k\<lparr>rst := auto_kill now (cfg k) s3\<rparr>) = Inr k'"
    by (auto simp: record_pnl_def rbind_Inr_iff)
  note f = streak_after_fields [OF st] mark_equity_fields [OF m] and a = auto_kill_fields [where now = now and c = "cfg k" and s = s3]
  have ok: "\<not> flt (drawdown_pct s1) fzero" if "\<not> flt (drawdown_pct (rst k)) fzero"
    using mark_equity_fields(6) [OF m] that by (simp add: rollover_fields)
  from k' have r: "rst k' = auto_kill now (cfg k) s3" "cfg k' = cfg k" by auto
  show "cfg k' = cfg k" by (rule r)
  show "n_approved (rst k') = n_approved (rst k)" "n_rejected (rst k') = n_rejected (rst k)"
    "n_evaluated (rst k') = n_evaluated (rst k)" "current_day (rst k') = date_text now"
    by (simp_all add: r f a rollover_fields)
  show "\<not> flt (drawdown_pct (rst k')) fzero" if "\<not> flt (drawdown_pct (rst k)) fzero"
    using ok [OF that] by (simp add: r f a)
  show "0 \<le> consecutive_losses (rst k')" if "0 \<le> consecutive_losses (rst k)"
    using that by (simp add: r f a rollover_fields)
  show "kill_active (rst k')" if "kill_active (maybe_rollover_day now (rst k))"
    using that by (simp add: r f a)
  show "kill_active (rst k')" if "daily_loss_hit (cfg k) (rst k') \<or> drawdown_hit (cfg k) (rst k')"
    using that by (auto simp: r a)
  show "\<exists>t. kill_reason (rst k') = ''auto: daily_loss='' @ t"
    if "daily_loss_hit (cfg k) (rst k')" "\<not> drawdown_hit (cfg k) (rst k')"
    using that unfolding r a by (simp add: auto_kill_def)
qed

lemma evaluate_keeps_ok: "risk_ok k \<Longrightarrow> evaluate now obs p k = (k', d) \<Longrightarrow> risk_ok k'"
  by (erule evaluate_cases) (auto simp: risk_ok_def rollover_fields)

lemma risk_step_ok: "risk_ok k \<Longrightarrow> risk_step k op = Inr k' \<Longrightarrow> risk_ok k'"
proof (cases op)
  case (Evaluate now obs p)
  assume "risk_ok k" "risk_step k op = Inr k'"
  with Evaluate show ?thesis by (cases "evaluate now obs p k") (auto intro: evaluate_keeps_ok)
next
  case (Record now pnl equity)
  assume "risk_ok k" "risk_step k op = Inr k'"
  with Record show ?thesis using record_pnl_fields [of now pnl equity k k'] by (auto simp: risk_ok_def)
qed (auto simp: risk_ok_def update_vol_regime_def reset_kill_switch_def init_state_def fresh_state_def
    update_config_def fzero_def)

interpretation rk: machine risk_step risk_ok
  by unfold_locales (rule risk_step_ok)

subsection \<open>Properties\<close>

text \<open>C15: Through any sequence of evaluations, recorded results, volatility updates, trips, resets and
  configuration changes, approvals and rejections never outnumber the evaluations, the loss streak is
  never negative, and the drawdown is never below zero.\<close>

theorem risk_kernel_invariant:
  "risk_ok (foldl (try_step risk_step) (new_kernel now c) ops)"
  by (rule rk.tries_good) (simp add: new_kernel_def fresh_ok)

text \<open>A cooldown that does not block: its end cannot be read as an instant, or has come.\<close>

lemma sixty_divides: "\<exists>m. fdiv x (flit 60 0) = Inr m"
proof -
  have n: "flit 60 0 = Flt False 8444249301319680 (-47)" by code_simp
  show ?thesis unfolding n by (cases x) simp_all
qed

lemma cooldown_over:
  assumes "\<forall>m. cooldown_left now t \<noteq> Inr (Some m)" "fromisoformat (replace_all ''Z'' ''+00:00'' t) = Some d" "dt_offset d = Some off"
  shows "dt_local d - off \<le> now"
proof (rule ccontr)
  assume "\<not> dt_local d - off \<le> now"
  then show False
    using assms sixty_divides [of "total_seconds (dt_local d - off - now)"] by (auto simp: cooldown_left_def)
qed

text \<open>C16: A proposal is approved only when every gate is open after the change of day: no kill switch, neither
  loss limit reached, a confidence that is not below the minimum, no cooldown that ends after now, no veto of the
  observer; and the size is then scaled by the volatility regime, times the observer's factor when it asks to reduce.\<close>

theorem risk_approval_sound:
  assumes "evaluate now obs p k = (k', Inr d)" "approved d"
  shows "\<not> kill_active (maybe_rollover_day now (rst k))
    \<and> \<not> daily_loss_hit (cfg k) (maybe_rollover_day now (rst k))
    \<and> \<not> drawdown_hit (cfg k) (maybe_rollover_day now (rst k))
    \<and> (\<exists>conf. float_of (dget_or p ''confidence'' (VInt 0)) = Inr conf \<and> \<not> flt conf (min_confidence (cfg k)))
    \<and> (\<forall>t e off. cooldown_until (maybe_rollover_day now (rst k)) = Some t \<and> t \<noteq> []
          \<and> fromisoformat (replace_all ''Z'' ''+00:00'' t) = Some e \<and> dt_offset e = Some off \<longrightarrow> dt_local e - off \<le> now)
    \<and> (case ask_observer obs p of
         None \<Rightarrow> size_scale d = regime_scale (cfg k) (regime (rst k))
       | Some r \<Rightarrow> mr_action r \<noteq> ''REJECT''
           \<and> size_scale d = (if mr_action r = ''REDUCE'' then fmul (regime_scale (cfg k) (regime (rst k))) (mr_scale r)
                             else regime_scale (cfg k) (regime (rst k))))"
  using assms(1)
proof (cases rule: evaluate_cases)
  case (approved dec conf s')
  let ?s = "(maybe_rollover_day now (rst k))\<lparr>n_evaluated := n_evaluated (rst k) + 1\<rparr>"
  have same: "kill_active ?s = kill_active (maybe_rollover_day now (rst k))"
    "daily_loss_hit c ?s = daily_loss_hit c (maybe_rollover_day now (rst k))"
    "drawdown_hit c ?s = drawdown_hit c (maybe_rollover_day now (rst k))" for c
    by (simp_all add: daily_loss_hit_def drawdown_hit_def)
  have rg: "regime (rst (k\<lparr>rst := s'\<rparr>)) = regime (rst k)" "cfg (k\<lparr>rst := s'\<rparr>) = cfg k"
    using approved(9) by (auto simp: rollover_fields)
  from approved(1) have d: "dec = d" by simp
  have "case ask_observer obs p of
         None \<Rightarrow> size_scale d = regime_scale (cfg k) (regime (rst k))
       | Some r \<Rightarrow> mr_action r \<noteq> ''REJECT''
           \<and> size_scale d = (if mr_action r = ''REDUCE'' then fmul (regime_scale (cfg k) (regime (rst k))) (mr_scale r)
                             else regime_scale (cfg k) (regime (rst k)))"
    using approved(11) assms(2) unfolding final_checks_def Let_def rg d
    by (cases "ask_observer obs p") (auto split: if_split_asm dest!: decide_reject_fields)
  moreover have "cooldown_until (maybe_rollover_day now (rst k)) = Some t \<and> t \<noteq> []
      \<and> fromisoformat (replace_all ''Z'' ''+00:00'' t) = Some e \<and> dt_offset e = Some off \<longrightarrow> dt_local e - off \<le> now" for t e off
    using approved(12) cooldown_over [of now t e off] by auto
  ultimately show ?thesis using approved(4-8) unfolding same by blast
qed (use assms(2) in auto)

text \<open>C17: A loss that reaches the daily limit or the drawdown limit trips the kill switch, and every proposal
  evaluated later on the same day is rejected.\<close>

theorem limits_trip_the_switch:
  assumes "record_pnl now pnl equity k = Inr k'"
    and "daily_loss_hit (cfg k) (rst k') \<or> drawdown_hit (cfg k) (rst k')" "date_text later = date_text now"
  shows "kill_active (rst k') \<and> (\<exists>d. snd (evaluate later obs p k') = Inr d \<and> \<not> approved d)"
proof -
  note f = record_pnl_fields [OF assms(1)]
  from f(9) assms(2) have "kill_active (rst k')" by blast
  moreover from f(5) assms(3) have "maybe_rollover_day later (rst k') = rst k'"
    by (simp add: maybe_rollover_day_def)
  ultimately show ?thesis by (simp add: evaluate_def Let_def decide_reject_def)
qed

fun on_day :: "string \<Rightarrow> risk_op \<Rightarrow> bool" where
  "on_day d (Evaluate now obs p) = (date_text now = d)"
| "on_day d (Record now pnl equity) = (date_text now = d)"
| "on_day d (Volatility v) = True"
| "on_day d (Trip now why) = True"
| "on_day d Reset = False"
| "on_day d (Init now equity) = False"
| "on_day d (Patch f) = True"

lemma same_day_no_rollover: "current_day s = date_text now \<Longrightarrow> maybe_rollover_day now s = s"
  by (simp add: maybe_rollover_day_def)

lemma kill_kept:
  assumes "kill_active (rst k)" "current_day (rst k) = d" "on_day d op" "risk_step k op = Inr k'"
  shows "kill_active (rst k') \<and> current_day (rst k') = d"
proof (cases op)
  case (Evaluate now obs p)
  with assms show ?thesis
    by (auto simp: evaluate_def Let_def same_day_no_rollover decide_reject_def)
next
  case (Record now pnl equity)
  with assms show ?thesis
    using record_pnl_fields(5,8) [of now pnl equity k k'] by (simp add: same_day_no_rollover)
qed (use assms in \<open>auto simp: update_vol_regime_def update_config_def\<close>)

text \<open>C18: Once tripped, the kill switch holds for the rest of the day against everything but an explicit reset:
  no sequence of evaluations, recorded results, volatility updates, further trips and configuration changes
  releases it, and every proposal is rejected.\<close>

theorem kill_switch_holds:
  assumes "kill_active (rst k)" "current_day (rst k) = d" "list_all (on_day d) ops" "date_text now = d"
  shows "let k' = foldl (try_step risk_step) k ops
    in kill_active (rst k') \<and> (\<exists>dec. snd (evaluate now obs p k') = Inr dec \<and> \<not> approved dec)"
proof -
  have "kill_active (rst (foldl (try_step risk_step) k ops)) \<and> current_day (rst (foldl (try_step risk_step) k ops)) = d"
    using assms(1-3)
  proof (induction ops arbitrary: k)
    case (Cons op ops)
    then have "kill_active (rst (try_step risk_step k op)) \<and> current_day (rst (try_step risk_step k op)) = d"
      using kill_kept [of k d op] by (cases "risk_step k op") (simp_all add: try_step_def)
    with Cons show ?case by simp
  qed simp
  with assms(4) show ?thesis
    by (simp add: Let_def evaluate_def same_day_no_rollover decide_reject_def)
qed

text \<open>C19: A switch that was tripped by hand is lost overnight: when a later loss reaches the daily limit, its
  automatic reason overwrites the reason of the operator, and the change of day releases the switch
  although nobody reset it.\<close>

theorem manual_kill_lost:
  assumes "record_pnl now pnl equity (k\<lparr>rst := trip_kill_switch now why (rst k)\<rparr>) = Inr k'"
    and "daily_loss_hit (cfg k) (rst k')" "\<not> drawdown_hit (cfg k) (rst k')" "date_text later \<noteq> date_text now"
  shows "kill_active (rst k') \<and> \<not> kill_active (maybe_rollover_day later (rst k'))"
proof -
  note f = record_pnl_fields [OF assms(1), simplified]
  from f(10) assms(2,3) obtain t where "kill_reason (rst k') = ''auto: daily_loss='' @ t" by auto
  then have "contains (kill_reason (rst k')) ''daily_loss''" by simp
  moreover from f(9) assms(2) have "kill_active (rst k')" by blast
  ultimately show ?thesis using f(5) assms(4) by (simp add: maybe_rollover_day_def Let_def reset_kill_switch_def)
qed

lemma nan_evaluated:
  "\<exists>k' d. evaluate now None [(''confidence'', VStr ''nan'')] (new_kernel now risk_defaults) = (k', Inr d)
     \<and> approved d \<and> size_scale d = flit 1 0"
proof -
  have f: "float_of (VStr ''nan'') = Inr FNaN" by code_simp
  have n: "fle fzero (fmul (fneg (flit 30 3)) (flit 100 0)) = False" "fle (percent (flit 10 2)) fzero = False"
    by (simp_all add: percent_def flit_def float_eval)
  have l: "daily_loss_hit risk_defaults (fresh_state day (flit 10000 0)\<lparr>n_evaluated := 1\<rparr>) = False"
    "drawdown_hit risk_defaults (fresh_state day (flit 10000 0)\<lparr>n_evaluated := 1\<rparr>) = False" for day
    unfolding daily_loss_hit_def drawdown_hit_def fresh_state_def risk_defaults_def
      risk_state.simps risk_config.simps by (rule n)+
  have s: "starting_equity_usd risk_defaults = flit 10000 0" by (simp add: risk_defaults_def)
  have g: "dget_or [(''confidence'', VStr ''nan'')] ''confidence'' (VInt 0) = VStr ''nan''" by (simp add: dget_or_def)
  have x: "n_evaluated (fresh_state day (flit 10000 0)) + 1 = 1" "kill_active (fresh_state day (flit 10000 0)) = False"
    "cooldown_until (fresh_state day (flit 10000 0)) = None" "regime (fresh_state day (flit 10000 0)) = Vol_Normal" for day
    by (simp_all add: fresh_state_def)
  have r: "maybe_rollover_day now (fresh_state (date_text now) (flit 10000 0)) = fresh_state (date_text now) (flit 10000 0)"
    by (rule same_day_no_rollover) (simp add: fresh_state_def)
  have u: "cooldown_until (fresh_state day (flit 10000 0)\<lparr>n_evaluated := 1\<rparr>) = None"
    "kill_active (fresh_state day (flit 10000 0)\<lparr>n_evaluated := 1\<rparr>) = False"
    "regime (fresh_state day (flit 10000 0)\<lparr>n_evaluated := 1\<rparr>) = Vol_Normal" for day
    by (simp_all add: fresh_state_def)
  have v: "Vol_Normal = Vol_High \<longleftrightarrow> False" "Vol_Normal = Vol_Extreme \<longleftrightarrow> False" "flt FNaN y \<longleftrightarrow> False" for y
    by simp_all
  show ?thesis
    unfolding evaluate_def new_kernel_def risk_kernel.simps s r Let_def x u l g f sum.case if_False option.case
      final_checks_def ask_observer_def regime_scale_def v prod.case
    by (rule exI, rule exI, rule conjI, rule refl) (simp only: risk_decision.simps simp_thms)
qed

text \<open>A confidence that is not a number passes the confidence filter: a fresh kernel with the default limits
  approves a proposal whose confidence is the text \<open>nan\<close>, at full size.\<close>

theorem nan_confidence_approved:
  "\<exists>k' d. evaluate now None [(''confidence'', VStr ''nan'')] (new_kernel now risk_defaults) = (k', Inr d)
     \<and> approved d \<and> size_scale d = flit 1 0"
  by (rule nan_evaluated)

subsection \<open>Witnesses\<close>

text \<open>The literals of the witnesses, and what the operations give on them.\<close>

lemmas round_eval = fl_round_def half_even_def fl_exp_def fl_scale_def int_nbits

lemma demo_literals:
  "flit 400 0 = Flt False 7036874417766400 (-44)" "flit 10000 0 = Flt False 5497558138880000 (-39)"
  "flit 4 2 = Flt False 5764607523034235 (-57)" "flit 9600 0 = Flt False 5277655813324800 (-39)"
  "flit 30 3 = Flt False 8646911284551352 (-58)" "flit 10 2 = Flt False 7205759403792794 (-56)"
  "flit 100 0 = Flt False 7036874417766400 (-46)" "flit (Suc 0) 0 = Flt False 4503599627370496 (-52)"
  by (simp_all add: flit_def fl_of_dec_def round_eval)

definition demo_lost :: risk_kernel where
  "demo_lost = \<lparr>cfg = risk_defaults, rst = fresh_state (date_text 0) (flit 10000 0)\<rparr>"

lemma demo_sums:
  "fadd fzero (fneg (flit 400 0)) = fneg (flit 400 0)"
  "fsub (flit 10000 0) (flit 9600 0) = flit 400 0"
  unfolding demo_literals fsub_def fzero_def
  by (simp_all add: fl_int_def) (simp_all add: fl_of_scaled_def round_eval)

lemma demo_shares:
  "fdiv (fneg (flit 400 0)) (flit 10000 0) = Inr (fneg (flit 4 2))"
  "fdiv (flit 400 0) (flit 10000 0) = Inr (flit 4 2)"
  by (simp_all add: demo_literals round_eval)

lemma demo_percents: 
  "percent (Flt False 5764607523034235 (-57)) = Flt False 4503599627370496 (-50)"
  "percent (Flt True 5764607523034235 (-57)) = Flt True 4503599627370496 (-50)"
  "percent (Flt False 7205759403792794 (-56)) = Flt False 5629499534213120 (-49)"
  "fmul (Flt True 8646911284551352 (-58)) (Flt False 7036874417766400 (-46)) = Flt True 6755399441055744 (-51)"
  by (simp_all add: percent_def demo_literals round_eval)

lemma demo_order:
  "fmax (flit 10000 0) (flit 1 0) = flit 10000 0"
  "fmax fzero (percent (flit 4 2)) = percent (flit 4 2)"
  "fle (percent (fneg (flit 4 2))) (fmul (fneg (flit 30 3)) (flit 100 0)) = True"
  "fle (percent (flit 10 2)) (percent (flit 4 2)) = False"
  "flt fzero (flit 10000 0) = True" "flt (flit 10000 0) (flit 9600 0) = False"
  "flt (fneg (flit 400 0)) fzero = True"
  unfolding demo_literals fneg.simps not_False_eq_True
  by (simp_all add: demo_percents fmax_def demo_literals fle_def fzero_def fl_int_def del: fmul.simps)

definition demo_tripped :: risk_kernel where
  "demo_tripped = demo_lost\<lparr>rst := trip_kill_switch 0 ''operator'' (rst demo_lost)\<rparr>"

definition demo_marked :: risk_state where
  "demo_marked = (rst demo_tripped)
     \<lparr>daily_pnl_usd := fneg (flit 400 0), daily_pnl_pct := percent (fneg (flit 4 2)),
      current_equity := flit 9600 0, peak_equity := flit 10000 0, drawdown_pct := percent (flit 4 2)\<rparr>"

definition demo_hit :: risk_state where
  "demo_hit = demo_marked\<lparr>consecutive_losses := 1, last_loss_ts := Some (isoformat_utc 0)\<rparr>"

lemma demo_tripped_fields:
  "daily_pnl_usd (rst demo_tripped) = fzero" "peak_equity (rst demo_tripped) = flit 10000 0"
  "consecutive_losses (rst demo_tripped) = 0" "current_day (rst demo_tripped) = date_text 0"
  "cfg demo_tripped = risk_defaults" "kill_active (rst demo_tripped)"
  by (simp_all add: demo_tripped_def trip_kill_switch_def demo_lost_def fresh_state_def)

lemma demo_config: "starting_equity_usd risk_defaults = flit 10000 0" "consecutive_loss_threshold risk_defaults = 3"
  "max_daily_loss_pct risk_defaults = flit 30 3" "max_drawdown_pct risk_defaults = flit 10 2"
  by (simp_all add: risk_defaults_def)

lemma demo_limits: "daily_loss_hit risk_defaults demo_hit" "\<not> drawdown_hit risk_defaults demo_hit"
proof -
  have "daily_pnl_pct demo_hit = percent (fneg (flit 4 2))" "drawdown_pct demo_hit = percent (flit 4 2)"
    by (simp_all add: demo_hit_def demo_marked_def)
  then show "daily_loss_hit risk_defaults demo_hit" "\<not> drawdown_hit risk_defaults demo_hit"
    by (simp_all only: daily_loss_hit_def drawdown_hit_def demo_config demo_order not_False_eq_True)
qed

lemma demo_mark: "mark_equity risk_defaults (fneg (flit 400 0)) (flit 9600 0) (rst demo_tripped) = Inr demo_marked"
  unfolding mark_equity_def demo_tripped_fields demo_config Let_def demo_sums demo_order demo_shares rbind.simps
    if_True if_False demo_marked_def by (rule refl)

lemma demo_streak: "streak_after 0 risk_defaults (fneg (flit 400 0)) demo_marked = Inr demo_hit"
proof -
  have "consecutive_losses demo_marked = 0" by (simp add: demo_marked_def demo_tripped_fields)
  then show ?thesis
    unfolding streak_after_def demo_order if_True Let_def demo_config by (simp add: demo_hit_def)
qed

lemma demo_recorded:
  "record_pnl 0 (fneg (flit 400 0)) (flit 9600 0) demo_tripped = Inr (demo_tripped\<lparr>rst := auto_kill 0 risk_defaults demo_hit\<rparr>)"
  unfolding record_pnl_def same_day_no_rollover [OF demo_tripped_fields(4)] demo_tripped_fields demo_mark
    rbind.simps demo_streak by (rule refl)

definition next_day :: int where "next_day = 400 * us_per_day"

lemma next_day_text: "date_text next_day \<noteq> date_text 0"
  unfolding next_day_def by code_simp

lemma demo_hit_fields:
  "daily_loss_hit (cfg demo_tripped) (rst (demo_tripped\<lparr>rst := auto_kill 0 risk_defaults demo_hit\<rparr>))"
  "\<not> drawdown_hit (cfg demo_tripped) (rst (demo_tripped\<lparr>rst := auto_kill 0 risk_defaults demo_hit\<rparr>))"
  using demo_limits by (simp_all add: auto_kill_fields demo_tripped_fields)

theorem manual_kill_lost_witness:
  "\<exists>k'. record_pnl 0 (fneg (flit 400 0)) (flit 9600 0) (demo_lost\<lparr>rst := trip_kill_switch 0 ''operator'' (rst demo_lost)\<rparr>) = Inr k'
     \<and> kill_active (rst k') \<and> \<not> kill_active (maybe_rollover_day next_day (rst k'))"
proof -
  have c: "cfg demo_lost = cfg demo_tripped" by (simp add: demo_tripped_def)
  show ?thesis
    using manual_kill_lost [OF demo_recorded [unfolded demo_tripped_def]]
      demo_hit_fields [folded c, unfolded demo_tripped_def] next_day_text
      demo_recorded [unfolded demo_tripped_def] by blast
qed

theorem limits_trip_the_switch_witness:
  "\<exists>k'. record_pnl 0 (fneg (flit 400 0)) (flit 9600 0) demo_tripped = Inr k'
     \<and> kill_active (rst k') \<and> (\<exists>d. snd (evaluate 0 None [] k') = Inr d \<and> \<not> approved d)"
  using limits_trip_the_switch [OF demo_recorded disjI1 [OF demo_hit_fields(1)] refl, of None "[]"] demo_recorded by blast

theorem kill_switch_holds_witness:
  "\<exists>dec. snd (evaluate 0 None [] (foldl (try_step risk_step) demo_tripped [Evaluate 0 None [], Volatility fzero])) = Inr dec
     \<and> \<not> approved dec"
  using kill_switch_holds [OF demo_tripped_fields(6,4), of "[Evaluate 0 None [], Volatility fzero]" 0 None "[]"]
  by (simp add: Let_def)

theorem risk_approval_sound_witness:
  "\<exists>k' d. evaluate 0 None [(''confidence'', VStr ''nan'')] (new_kernel 0 risk_defaults) = (k', Inr d) \<and> approved d
     \<and> \<not> kill_active (maybe_rollover_day 0 (rst (new_kernel 0 risk_defaults)))"
proof -
  obtain k' d where "evaluate 0 None [(''confidence'', VStr ''nan'')] (new_kernel 0 risk_defaults) = (k', Inr d)" "approved d"
    using nan_evaluated [of 0] by blast
  with risk_approval_sound [OF this] show ?thesis by blast
qed

end
