(* ===== verification/Settlement.thy ===== *)
theory Settlement
  imports PyFloat
begin

section \<open>Settlement evidence\<close>

text \<open>
  \<^verbatim>\<open>senecio_polymarket/backend/settlement_contract.py\<close> and
  \<^verbatim>\<open>settlement_proof.py\<close>: which historical candle settles a prediction, the evidence that is
  frozen with it, its validation, and the gate that admits a settled row to the score. Instants are
  microseconds since the start of year 1, the clock is an argument, the public exchange is a
  function that returns candles or raises; the candles and rows are values of a JSON document.
\<close>

subsection \<open>Normal forms\<close>

definition candle_interval_ms :: int where "candle_interval_ms = 60000"
definition window_15m_s :: int where "window_15m_s = 900"
definition window_1h_s :: int where "window_1h_s = 3600"

definition allowed_public_exchanges :: "string list" where
  "allowed_public_exchanges = [''okx'', ''kraken'', ''gate'', ''mexc'', ''bitget'']"

text \<open>A text without an offset is read as UTC. The conversion of an instant next to the ends of the
  calendar overflows, which the code does not catch.\<close>

definition parse_utc :: "pyval \<Rightarrow> int option res" where
  "parse_utc v =
     (case fromisoformat (replace_all ''Z'' ''+00:00'' (py_str v)) of
        None \<Rightarrow> Inr None
      | Some d \<Rightarrow> rbind (to_utc (dt_local d) (case dt_offset d of None \<Rightarrow> 0 | Some off \<Rightarrow> off)) (\<lambda>u. Inr (Some u)))"

definition normalize_symbol :: "pyval \<Rightarrow> string" where
  "normalize_symbol v =
     (let text = strip (upper (py_str (por v (VStr []))))
      in if contains text ''/'' then text
         else if ends_with text ''USDT'' \<and> 4 < length text
           then take (length text - 4) text @ ''/USDT''
         else text)"

definition normalize_exchange :: "pyval \<Rightarrow> string option" where
  "normalize_exchange v =
     (let text = lower (strip (py_str (por v (VStr []))))
      in if text \<in> set allowed_public_exchanges then Some text else None)"

text \<open>\<^verbatim>\<open>int(instant.timestamp() * 1000)\<close>, in floats.\<close>

definition unix_epoch :: int where "unix_epoch = 719162 * us_per_day"

definition epoch_ms :: "int \<Rightarrow> int res" where
  "epoch_ms u = fl_trunc (fmul (total_seconds (u - unix_epoch)) (fl_of_int 1000))"

definition plus_seconds :: "int \<Rightarrow> int \<Rightarrow> int res" where
  "plus_seconds u sec = to_utc (u + sec * 1000000) 0"

definition target_epoch_ms :: "pyval \<Rightarrow> int \<Rightarrow> int option res" where
  "target_epoch_ms ts w =
     (if w \<noteq> window_15m_s \<and> w \<noteq> window_1h_s then Inr None
      else rbind (parse_utc ts) (\<lambda>origin.
        case origin of
          None \<Rightarrow> Inr None
        | Some u \<Rightarrow> rbind (plus_seconds u w) (\<lambda>t. rbind (epoch_ms t) (\<lambda>ms. Inr (Some ms)))))"

subsection \<open>Candles\<close>

definition candle_open :: "pyval \<Rightarrow> int res" where
  "candle_open c = rbind (item_at c 0) int_of"

definition candle_price :: "pyval \<Rightarrow> pyfloat res" where
  "candle_price c = rbind (item_at c 4) float_of"

definition admissible :: "int \<Rightarrow> pyval \<Rightarrow> bool res" where
  "admissible target c =
     (case rbind (candle_open c) (\<lambda>ms. rbind (candle_price c) (\<lambda>p. Inr (ms, p))) of
        Inl e \<Rightarrow> if caught e \<or> is_index_error e then Inr False else Inl e
      | Inr (ms, p) \<Rightarrow>
          Inr (\<not> (fle p fzero \<or> \<not> is_finite p) \<and> ms \<le> target \<and> target < ms + candle_interval_ms))"

text \<open>\<^verbatim>\<open>max(valid, key=lambda item: int(item[0]))\<close>: the first of the latest.\<close>

fun latest :: "pyval \<Rightarrow> pyval list \<Rightarrow> pyval" where
  "latest best [] = best"
| "latest best (c # cs) =
     (case (candle_open best, candle_open c) of
        (Inr a, Inr b) \<Rightarrow> latest (if a < b then c else best) cs
      | _ \<Rightarrow> latest best cs)"

definition select_containing_candle :: "pyval list \<Rightarrow> int \<Rightarrow> pyval option res" where
  "select_containing_candle candles target =
     rbind (filter_res (admissible target) candles) (\<lambda>valid.
       Inr (case valid of [] \<Rightarrow> None | c # cs \<Rightarrow> Some (latest c cs)))"

subsection \<open>Evidence\<close>

definition evidence_fields :: "string \<Rightarrow> string \<Rightarrow> int \<Rightarrow> int \<Rightarrow> int \<Rightarrow> pyfloat \<Rightarrow> int \<Rightarrow> pydict" where
  "evidence_fields source symbol w target open_ms price observed =
     [(''version'', VStr ''historical-price-evidence-v1''), (''source'', VStr source), (''symbol'', VStr symbol),
      (''window_seconds'', VInt w), (''target_epoch_ms'', VInt target), (''candle_open_epoch_ms'', VInt open_ms),
      (''candle_close_epoch_ms'', VInt (open_ms + candle_interval_ms)), (''candle_interval_ms'', VInt candle_interval_ms),
      (''target_offset_from_candle_open_ms'', VInt (target - open_ms)), (''price'', VFloat price),
      (''observed_at'', VStr (isoformat_utc observed)),
      (''selection_rule'', VStr ''ONE_MINUTE_CANDLE_CONTAINING_EXACT_TARGET''),
      (''maturity_rule'', VStr ''OBSERVED_AT_GTE_CANDLE_CLOSE_EPOCH_MS'')]"

text \<open>The evidence of the selected candle, once its interval has closed.\<close>

definition evidence_of_candle :: "int \<Rightarrow> pyval \<Rightarrow> string \<Rightarrow> string \<Rightarrow> int \<Rightarrow> int \<Rightarrow> pyval \<Rightarrow> pydict option res" where
  "evidence_of_candle now c source symbol w target observed_at =
     rbind (candle_open c) (\<lambda>open_ms. rbind (candle_price c) (\<lambda>price.
     rbind (if observed_at = VNone then Inr (Some now) else parse_utc observed_at) (\<lambda>obs.
       case obs of
         None \<Rightarrow> Inr None
       | Some u \<Rightarrow>
           rbind (epoch_ms u) (\<lambda>observed_ms.
             if observed_ms < open_ms + candle_interval_ms then Inr None
             else Inr (Some (evidence_fields source symbol w target open_ms price u))))))"

definition price_evidence_from_candles ::
  "int \<Rightarrow> pyval list \<Rightarrow> pyval \<Rightarrow> pyval \<Rightarrow> pyval \<Rightarrow> int \<Rightarrow> pyval \<Rightarrow> pydict option res" where
  "price_evidence_from_candles now candles exchange symbol ts w observed_at =
     rbind (target_epoch_ms ts w) (\<lambda>tm.
       case (normalize_exchange exchange, tm) of
         (Some source, Some target) \<Rightarrow>
           if normalize_symbol symbol = [] then Inr None
           else rbind (select_containing_candle candles target) (\<lambda>sel.
             case sel of
               None \<Rightarrow> Inr None
             | Some c \<Rightarrow> evidence_of_candle now c source (normalize_symbol symbol) w target observed_at)
       | _ \<Rightarrow> Inr None)"

text \<open>The public exchange: the candles from one interval before the target, or an exception, which is
  swallowed; anything falsy counts as no candles.\<close>

type_synonym exchange_api = "string \<Rightarrow> string \<Rightarrow> int \<Rightarrow> pyval list res"

definition fetch_historical_price_evidence ::
  "exchange_api \<Rightarrow> int \<Rightarrow> pyval \<Rightarrow> pyval \<Rightarrow> pyval \<Rightarrow> int \<Rightarrow> pydict option res" where
  "fetch_historical_price_evidence api now exchange symbol ts w =
     rbind (target_epoch_ms ts w) (\<lambda>tm.
       case (normalize_exchange exchange, tm) of
         (Some source, Some target) \<Rightarrow>
           if normalize_symbol symbol = [] then Inr None
           else (case api source (normalize_symbol symbol) (target - candle_interval_ms) of
               Inl _ \<Rightarrow> Inr None
             | Inr candles \<Rightarrow>
                 price_evidence_from_candles now candles (VStr source) (VStr (normalize_symbol symbol)) ts w VNone)
       | _ \<Rightarrow> Inr None)"

subsection \<open>Validation\<close>

text \<open>The six numbers of the evidence, in the order in which they are converted.\<close>

record evidence_numbers =
  ev_window :: int
  ev_target :: int
  ev_open :: int
  ev_close :: int
  ev_interval :: int
  ev_price :: pyfloat

definition evidence_numbers_of :: "pydict \<Rightarrow> evidence_numbers res" where
  "evidence_numbers_of d =
     rbind (int_of (dget d ''window_seconds'')) (\<lambda>w. rbind (int_of (dget d ''target_epoch_ms'')) (\<lambda>t.
     rbind (int_of (dget d ''candle_open_epoch_ms'')) (\<lambda>a. rbind (int_of (dget d ''candle_close_epoch_ms'')) (\<lambda>b.
     rbind (int_of (dget d ''candle_interval_ms'')) (\<lambda>i. rbind (float_of (dget d ''price'')) (\<lambda>p.
       Inr \<lparr>ev_window = w, ev_target = t, ev_open = a, ev_close = b, ev_interval = i, ev_price = p\<rparr>))))))"

definition numbers_ok :: "int \<Rightarrow> int \<Rightarrow> evidence_numbers \<Rightarrow> bool" where
  "numbers_ok w target n =
     (ev_window n = w \<and> ev_target n = target \<and> ev_interval n = candle_interval_ms
       \<and> ev_close n = ev_open n + ev_interval n \<and> ev_open n \<le> target \<and> target < ev_close n
       \<and> \<not> (fle (ev_price n) fzero \<or> \<not> is_finite (ev_price n)))"

definition validate_price_evidence :: "pyval \<Rightarrow> pyval \<Rightarrow> pyval \<Rightarrow> pyval \<Rightarrow> int \<Rightarrow> bool res" where
  "validate_price_evidence ev exchange symbol ts w =
     (case ev of
        VDict d \<Rightarrow>
          if \<not> py_eq (dget d ''version'') (VStr ''historical-price-evidence-v1'') then Inr False
          else rbind (target_epoch_ms ts w) (\<lambda>tm.
            case (normalize_exchange exchange, tm) of
              (Some source, Some target) \<Rightarrow>
                if normalize_symbol symbol = [] then Inr False
                else if \<not> py_eq (dget d ''source'') (VStr source)
                     \<or> \<not> py_eq (dget d ''symbol'') (VStr (normalize_symbol symbol)) then Inr False
                else (case evidence_numbers_of d of
                    Inl e \<Rightarrow> if caught e then Inr False else Inl e
                  | Inr n \<Rightarrow>
                      if \<not> numbers_ok w target n then Inr False
                      else rbind (parse_utc (dget d ''observed_at'')) (\<lambda>obs.
                        case obs of
                          None \<Rightarrow> Inr False
                        | Some u \<Rightarrow> rbind (epoch_ms u) (\<lambda>ms. Inr (ev_close n \<le> ms))))
            | _ \<Rightarrow> Inr False)
      | _ \<Rightarrow> Inr False)"

definition directional_outcome :: "pyval \<Rightarrow> pyval \<Rightarrow> pyval \<Rightarrow> string option res" where
  "directional_outcome direction origin later =
     (case rbind (float_of origin) (\<lambda>a. rbind (float_of later) (\<lambda>b. Inr (a, b))) of
        Inl e \<Rightarrow> if caught e then Inr None else Inl e
      | Inr (a, b) \<Rightarrow>
          if fle a fzero \<or> fle b fzero \<or> \<not> is_finite a \<or> \<not> is_finite b then Inr None
          else let dir = upper (py_str (por direction (VStr [])))
               in Inr (if dir = ''LONG'' then Some (if flt a b then ''WIN'' else ''LOSS'')
                       else if dir = ''SHORT'' then Some (if flt b a then ''WIN'' else ''LOSS'')
                       else None))"

subsection \<open>The proof gate\<close>

definition valid_outcomes :: "string list" where "valid_outcomes = [''WIN'', ''LOSS'']"

definition as_audit :: "pydict \<Rightarrow> pydict" where
  "as_audit row = as_dict (por (dget row ''audit'') (VDict []))"

text \<open>\<^verbatim>\<open>math.isclose\<close>.\<close>

definition isclose :: "pyfloat \<Rightarrow> pyfloat \<Rightarrow> pyfloat \<Rightarrow> pyfloat \<Rightarrow> bool" where
  "isclose rel tol a b =
     (if feq a b then True
      else if \<not> is_finite a \<or> \<not> is_finite b then False
      else let diff = fabs (fsub b a)
           in fle diff (fabs (fmul rel b)) \<or> fle diff (fabs (fmul rel a)) \<or> fle diff tol)"

definition origin_price_tol :: pyfloat where "origin_price_tol = flit 1 9"

definition price_matches :: "pyval \<Rightarrow> pyval \<Rightarrow> bool res" where
  "price_matches left right =
     (case rbind (float_of left) (\<lambda>a. rbind (float_of right) (\<lambda>b. Inr (a, b))) of
        Inl e \<Rightarrow> if caught e then Inr False else Inl e
      | Inr (a, b) \<Rightarrow> Inr (isclose origin_price_tol origin_price_tol a b))"

definition row_direction :: "pydict \<Rightarrow> string" where
  "row_direction row = upper (py_str (por (dget row ''prediction'') (VStr [])))"

text \<open>The instants of the row and of its origin witness, when they agree.\<close>

definition agreed_instant :: "pydict \<Rightarrow> pydict \<Rightarrow> int option res" where
  "agreed_instant row proof_dict =
     rbind (parse_utc (dget proof_dict ''timestamp'')) (\<lambda>a. rbind (parse_utc (dget row ''ts'')) (\<lambda>b.
       Inr (if a = b then b else None)))"

record row_prices =
  rp_origin :: pyfloat
  rp_row :: pyfloat
  rp_15m :: pyfloat
  rp_1h :: pyfloat

definition row_prices_of :: "pydict \<Rightarrow> pydict \<Rightarrow> pydict \<Rightarrow> row_prices res" where
  "row_prices_of row proof_dict dual =
     rbind (float_of (dget proof_dict ''price'')) (\<lambda>a. rbind (float_of (dget row ''price_now'')) (\<lambda>b.
     rbind (float_of (dget dual ''price_15m_later'')) (\<lambda>c. rbind (float_of (dget dual ''price_1h_later'')) (\<lambda>d.
       Inr \<lparr>rp_origin = a, rp_row = b, rp_15m = c, rp_1h = d\<rparr>))))"

definition smallest_price :: "row_prices \<Rightarrow> pyfloat" where
  "smallest_price p = fmin (fmin (fmin (rp_origin p) (rp_row p)) (rp_15m p)) (rp_1h p)"

text \<open>The fields of the dual outcome that do not depend on the evidence.\<close>

definition dual_ok :: "pydict \<Rightarrow> pydict \<Rightarrow> bool res" where
  "dual_ok row dual =
     (if \<not> py_eq (dget dual ''primary_window'') (VStr ''1h'') then Inr False
      else if \<not> py_eq (dget dual ''settlement_contract_version'') (VStr ''aud063-v1'') then Inr False
      else rbind (in_text_set (dget dual ''outcome_15m'') valid_outcomes) (\<lambda>a.
        if \<not> a then Inr False
        else rbind (in_text_set (dget dual ''outcome_1h'') valid_outcomes) (\<lambda>b.
          Inr (b \<and> py_eq (dget dual ''outcome_1h'') (dget row ''outcome'')))))"

text \<open>The evidence of both windows: validated, and at the prices of the dual outcome.\<close>

definition evidence_ok :: "pydict \<Rightarrow> string \<Rightarrow> row_prices \<Rightarrow> pydict \<Rightarrow> bool res" where
  "evidence_ok row source p dual =
     (case dget dual ''price_evidence_v1'' of
        VDict h \<Rightarrow>
          rbind (validate_price_evidence (dget h ''15m'') (VStr source) (VStr (normalize_symbol (dget row ''symbol'')))
                   (dget row ''ts'') window_15m_s) (\<lambda>v15.
            if \<not> v15 then Inr False
            else rbind (validate_price_evidence (dget h ''1h'') (VStr source) (VStr (normalize_symbol (dget row ''symbol'')))
                          (dget row ''ts'') window_1h_s) (\<lambda>v1.
              if \<not> v1 then Inr False
              else rbind (price_matches (VFloat (rp_15m p)) (dget (as_dict (dget h ''15m'')) ''price'')) (\<lambda>m15.
                if \<not> m15 then Inr False
                else price_matches (VFloat (rp_1h p)) (dget (as_dict (dget h ''1h'')) ''price''))))
      | _ \<Rightarrow> Inr False)"

text \<open>The settlement was observed after the hour was over, for the target the evidence names.\<close>

definition observation_ok :: "pydict \<Rightarrow> int \<Rightarrow> pydict \<Rightarrow> bool res" where
  "observation_ok row row_dt dual =
     (case dget dual ''settlement_observation_v1'' of
        VDict ob \<Rightarrow>
          if \<not> py_eq (dget ob ''version'') (VStr ''settlement-observation-v1'') then Inr False
          else rbind (parse_utc (dget ob ''observed_at'')) (\<lambda>obs.
            case obs of
              None \<Rightarrow> Inr False
            | Some u \<Rightarrow>
                rbind (plus_seconds row_dt window_1h_s) (\<lambda>due.
                  if u < due then Inr False
                  else rbind (target_epoch_ms (dget row ''ts'') window_1h_s) (\<lambda>t.
                    rbind (int_of (dget (as_dict (dget (as_dict (dget dual ''price_evidence_v1'')) ''1h''))
                             ''target_epoch_ms'')) (\<lambda>et. Inr (t = Some et)))))
      | _ \<Rightarrow> Inr False)"

definition outcomes_ok :: "string \<Rightarrow> row_prices \<Rightarrow> pydict \<Rightarrow> bool res" where
  "outcomes_ok direction p dual =
     rbind (directional_outcome (VStr direction) (VFloat (rp_origin p)) (VFloat (rp_15m p))) (\<lambda>a.
     rbind (directional_outcome (VStr direction) (VFloat (rp_origin p)) (VFloat (rp_1h p))) (\<lambda>b.
       Inr (case (a, b) of
          (Some x, Some y) \<Rightarrow> py_eq (dget dual ''outcome_15m'') (VStr x) \<and> py_eq (dget dual ''outcome_1h'') (VStr y)
        | _ \<Rightarrow> False)))"

fun and_then :: "bool res \<Rightarrow> bool res \<Rightarrow> bool res" where
  "and_then a b = rbind a (\<lambda>x. if x then b else Inr False)"

definition is_proof_qualified :: "pydict \<Rightarrow> bool res" where
  "is_proof_qualified row =
     and_then (in_text_set (dget row ''outcome'') valid_outcomes)
      (if row_direction row \<notin> {''LONG'', ''SHORT''} then Inr False
       else case (dget (as_audit row) ''origin_price_v1'', dget (as_audit row) ''outcomes_dual'') of
         (VDict op, VDict dual) \<Rightarrow>
           if \<not> py_eq (dget op ''version'') (VStr ''origin-price-v1'') then Inr False
           else rbind (agreed_instant row op) (\<lambda>dt.
             case dt of
               None \<Rightarrow> Inr False
             | Some row_dt \<Rightarrow>
                 (case normalize_exchange (dget row ''exchange_used'') of
                    None \<Rightarrow> Inr False
                  | Some source \<Rightarrow>
                      if normalize_exchange (dget op ''source'') \<noteq> Some source then Inr False
                      else if normalize_symbol (dget row ''symbol'') = [] then Inr False
                      else (case row_prices_of row op dual of
                          Inl e \<Rightarrow> if caught e then Inr False else Inl e
                        | Inr p \<Rightarrow>
                            if fle (smallest_price p) fzero then Inr False
                            else if \<not> isclose origin_price_tol origin_price_tol (rp_origin p) (rp_row p) then Inr False
                            else and_then (dual_ok row dual)
                              (and_then (evidence_ok row source p dual)
                                (and_then (observation_ok row row_dt dual)
                                  (outcomes_ok (row_direction row) p dual))))))
       | _ \<Rightarrow> Inr False)"

definition filter_proof_qualified :: "pydict list \<Rightarrow> pydict list res" where
  "filter_proof_qualified rows = filter_res is_proof_qualified rows"

record score =
  sc_rows :: "pydict list"
  sc_verified :: nat
  sc_wins :: nat
  sc_losses :: nat
  sc_win_rate_pct :: pyfloat

definition score_qualified_rows :: "pydict list \<Rightarrow> score res" where
  "score_qualified_rows rows =
     rbind (filter_proof_qualified rows) (\<lambda>v.
       let n = length v; w = length (filter (\<lambda>r. py_eq (dget r ''outcome'') (VStr ''WIN'')) v);
           l = length (filter (\<lambda>r. py_eq (dget r ''outcome'') (VStr ''LOSS'')) v)
       in Inr \<lparr>sc_rows = v, sc_verified = n, sc_wins = w, sc_losses = l,
               sc_win_rate_pct = (if v = [] then fzero else fmul (nat_ratio w n) (fl_of_int 100))\<rparr>)"

definition proof_status :: "pydict \<Rightarrow> string res" where
  "proof_status row =
     rbind (is_proof_qualified row) (\<lambda>b. Inr (if b then ''PROOF_QUALIFIED'' else ''RAW_UNVERIFIED''))"

subsection \<open>Selection\<close>

lemma latest_mem: "latest c cs \<in> set (c # cs)"
  by (induction cs arbitrary: c) (auto split: sum.split)

lemma admissible_True:
  assumes "admissible target c = Inr True"
  obtains ms p where "candle_open c = Inr ms" "candle_price c = Inr p" "\<not> fle p fzero" "is_finite p"
    "ms \<le> target" "target < ms + candle_interval_ms"
  using assms by (auto simp: admissible_def rbind_Inr_iff split: sum.split_asm if_split_asm)

lemma latest_greatest:
  assumes "\<forall>x \<in> set (c # cs). \<exists>m. candle_open x = Inr m" "x \<in> set (c # cs)"
    "candle_open x = Inr m" "candle_open (latest c cs) = Inr m'"
  shows "m \<le> m'"
  using assms
proof (induction cs arbitrary: c x m)
  case (Cons d cs)
  then obtain a b where ab: "candle_open c = Inr a" "candle_open d = Inr b" by force
  let ?best = "if a < b then d else c"
  have l: "latest c (d # cs) = latest ?best cs" by (simp add: ab)
  have ih: "candle_open z = Inr n \<Longrightarrow> z \<in> set (?best # cs) \<Longrightarrow> n \<le> m'" for z n
    using Cons.IH [of ?best z n] Cons.prems(1,4) l by auto
  from Cons.prems(2) consider "x \<in> set cs" | "x = c" | "x = d" by auto
  then show ?case
    using ih [of x m] ih [of ?best "max a b"] Cons.prems(3) ab by cases (auto split: if_split_asm)
qed auto

lemma select_containing:
  assumes "select_containing_candle candles target = Inr (Some c)"
  obtains ms p where "c \<in> set candles" "candle_open c = Inr ms" "candle_price c = Inr p" "\<not> fle p fzero" "is_finite p"
    "ms \<le> target" "target < ms + candle_interval_ms"
proof -
  from assms obtain vs where "filter_res (admissible target) candles = Inr vs"
    "(case vs of [] \<Rightarrow> None | c # cs \<Rightarrow> Some (latest c cs)) = Some c"
    by (auto simp: select_containing_candle_def rbind_Inr_iff)
  moreover from this(2) obtain v vs' where "vs = v # vs'" by (cases vs) auto
  ultimately obtain v vs where "filter_res (admissible target) candles = Inr (v # vs)" "c = latest v vs" by simp
  with filter_res_mem latest_mem [of v vs] have "c \<in> set candles" "admissible target c = Inr True" by metis+
  then show thesis using that by (auto elim: admissible_True)
qed

subsection \<open>Instants\<close>

lemma to_utc_range: "to_utc a b = Inr u \<Longrightarrow> 0 \<le> u \<and> u < max_instant"
  by (auto simp: to_utc_def Let_def split: if_split_asm)

lemma parse_utc_range: "parse_utc v = Inr (Some u) \<Longrightarrow> 0 \<le> u \<and> u < max_instant"
  by (auto simp: parse_utc_def rbind_Inr_iff dest: to_utc_range split: option.split_asm)

lemma replace_none:
  assumes "\<forall>c \<in> set s. c \<noteq> z"
  shows "replace_all [z] new s = s"
  using assms by (induction s) (subst replace_all.simps, simp)+

lemma parse_utc_isoformat:
  assumes "0 \<le> u" "u < max_instant"
  shows "parse_utc (VStr (isoformat_utc u)) = Inr (Some u)"
proof -
  have "replace_all ''Z'' ''+00:00'' (isoformat_utc u) = isoformat_utc u"
    by (rule replace_none) (use isoformat_no_z [OF assms] in blast)
  with assms show ?thesis by (simp add: parse_utc_def fromisoformat_isoformat to_utc_def)
qed

subsection \<open>Evidence that was frozen validates\<close>

lemma target_window: "target_epoch_ms ts w = Inr (Some t) \<Longrightarrow> w = window_15m_s \<or> w = window_1h_s"
  by (auto simp: target_epoch_ms_def split: if_split_asm)

lemma evidence_validates:
  assumes "target_epoch_ms ts w = Inr (Some target)" "normalize_exchange ex = Some source" "normalize_symbol sy \<noteq> []"
    and "open_ms \<le> target" "target < open_ms + candle_interval_ms" "\<not> fle p fzero" "is_finite p"
    and "0 \<le> u" "u < max_instant" "epoch_ms u = Inr ms" "open_ms + candle_interval_ms \<le> ms"
  shows "validate_price_evidence (VDict (evidence_fields source (normalize_symbol sy) w target open_ms p u)) ex sy ts w = Inr True"
  using assms parse_utc_isoformat [OF assms(8,9)]
  by (simp add: validate_price_evidence_def evidence_fields_def dget_def evidence_numbers_of_def numbers_ok_def)

lemma evidence_of_candle_cases:
  assumes "evidence_of_candle now c source sy w target oa = Inr (Some d)" "0 \<le> now" "now < max_instant"
  obtains a p u ms where "candle_open c = Inr a" "candle_price c = Inr p" "0 \<le> u" "u < max_instant" "epoch_ms u = Inr ms"
    "a + candle_interval_ms \<le> ms" "d = evidence_fields source sy w target a p u"
proof -
  from assms(1) obtain a p obs where f: "candle_open c = Inr a" "candle_price c = Inr p"
    "(if oa = VNone then Inr (Some now) else parse_utc oa) = Inr obs"
    and r: "(case obs of None \<Rightarrow> Inr None
        | Some u \<Rightarrow> rbind (epoch_ms u) (\<lambda>observed_ms.
            if observed_ms < a + candle_interval_ms then Inr None
            else Inr (Some (evidence_fields source sy w target a p u)))) = Inr (Some d)"
    unfolding evidence_of_candle_def rbind_Inr_iff by blast
  from r obtain u ms where g: "obs = Some u" "epoch_ms u = Inr ms" "\<not> ms < a + candle_interval_ms"
    "d = evidence_fields source sy w target a p u"
    by (cases obs) (auto simp: rbind_Inr_iff split: if_split_asm)
  have "0 \<le> u \<and> u < max_instant"
    using f(3) g(1) assms(2,3) parse_utc_range [of oa u] by (cases "oa = VNone") auto
  with f g show thesis by (intro that) auto
qed

lemma price_evidence_cases:
  assumes "price_evidence_from_candles now candles ex sy ts w oa = Inr (Some d)"
  obtains source target c where "normalize_exchange ex = Some source" "target_epoch_ms ts w = Inr (Some target)"
    "normalize_symbol sy \<noteq> []" "select_containing_candle candles target = Inr (Some c)"
    "evidence_of_candle now c source (normalize_symbol sy) w target oa = Inr (Some d)"
proof -
  from assms obtain tm where tm: "target_epoch_ms ts w = Inr tm"
    and r: "(case (normalize_exchange ex, tm) of
         (Some source, Some target) \<Rightarrow>
           if normalize_symbol sy = [] then Inr None
           else rbind (select_containing_candle candles target) (\<lambda>sel.
             case sel of None \<Rightarrow> Inr None
             | Some c \<Rightarrow> evidence_of_candle now c source (normalize_symbol sy) w target oa)
       | _ \<Rightarrow> Inr None) = Inr (Some d)"
    unfolding price_evidence_from_candles_def rbind_Inr_iff by blast
  from r obtain source target sel where "normalize_exchange ex = Some source" "tm = Some target" "normalize_symbol sy \<noteq> []"
    "select_containing_candle candles target = Inr sel"
    "(case sel of None \<Rightarrow> Inr None
       | Some c \<Rightarrow> evidence_of_candle now c source (normalize_symbol sy) w target oa) = Inr (Some d)"
    by (cases "normalize_exchange ex"; cases tm; cases "normalize_symbol sy = []") (auto simp: rbind_Inr_iff)
  with tm show thesis by (cases sel) (auto intro: that)
qed

lemma normalize_exchange_again: "normalize_exchange ex = Some source \<Longrightarrow> normalize_exchange (VStr source) = Some source"
proof -
  assume "normalize_exchange ex = Some source"
  then have "source \<in> set allowed_public_exchanges" by (auto simp: normalize_exchange_def Let_def split: if_split_asm)
  moreover have "list_all (\<lambda>s. normalize_exchange (VStr s) = Some s) allowed_public_exchanges" by code_simp
  ultimately show ?thesis by (simp add: list_all_iff)
qed

subsection \<open>Properties\<close>

lemma upper_char_idem [simp]: "upper_char (upper_char c) = upper_char c"
proof -
  have "(n - 32) mod 256 = n - 32" if "n \<le> 122" for n :: nat using that by simp
  then show ?thesis by (auto simp: upper_char_def Let_def)
qed

lemma upper_idem [simp]: "upper (upper s) = upper s"
  by (simp add: upper_def)

lemma upper_fixed: "upper s = s \<longleftrightarrow> (\<forall>c \<in> set s. upper_char c = c)"
  by (auto simp: upper_def list_all_iff intro: map_idI) (metis map_eq_conv list.map_id id_apply)

lemma strip_set: "set (strip s) \<subseteq> set s"
  by (auto simp: strip_def rstrip_def lstrip_def dest!: set_dropWhileD)

lemma strip_ends: "strip s \<noteq> [] \<Longrightarrow> \<not> is_space (hd (strip s)) \<and> \<not> is_space (last (strip s))"
proof -
  assume ne: "strip s \<noteq> []"
  let ?b = "dropWhile is_space (rev (dropWhile is_space s))"
  have r: "strip s = rev ?b" by (simp add: strip_def rstrip_def lstrip_def)
  with ne have b: "?b \<noteq> []" by simp
  then have l: "\<not> is_space (last (strip s))" using hd_dropWhile [of is_space] by (simp add: r last_rev)
  have "last ?b = last (rev (dropWhile is_space s))"
    using b by (metis dropWhile_eq_Nil_conv last_appendR takeWhile_dropWhile_id)
  moreover have "dropWhile is_space s \<noteq> []" using b by (metis dropWhile.simps(1) rev.simps(1))
  ultimately have "hd (strip s) = hd (dropWhile is_space s)" using b by (simp add: r hd_rev last_rev)
  with \<open>dropWhile is_space s \<noteq> []\<close> hd_dropWhile [of is_space s] l show ?thesis by simp
qed

lemma contains_append: "contains (a @ t @ b) t"
proof (induction a)
  case Nil
  have "starts_with (t @ b) t" by simp
  then show ?case by (cases "t @ b") (auto simp del: starts_with.simps)
qed (simp del: starts_with.simps)

lemma normalize_symbol_again: "normalize_symbol (VStr (normalize_symbol v)) = normalize_symbol v"
proof -
  define t where "t = strip (upper (py_str (por v (VStr []))))"
  have up: "upper t = t"
    using strip_set [of "upper (py_str (por v (VStr [])))"] unfolding t_def upper_fixed by (auto simp: upper_def)
  have st: "strip t = t" using strip_ends by (cases "t = []") (auto simp: t_def intro!: strip_id)
  have again: "normalize_symbol (VStr x) = (if contains x ''/'' then x
         else if ends_with x ''USDT'' \<and> 4 < length x then take (length x - 4) x @ ''/USDT'' else x)"
    if "upper x = x" "strip x = x" for x
    using that by (cases "x = []") (simp_all add: normalize_symbol_def Let_def por_def)
  have n: "normalize_symbol v = (if contains t ''/'' then t
         else if ends_with t ''USDT'' \<and> 4 < length t then take (length t - 4) t @ ''/USDT'' else t)"
    by (simp add: normalize_symbol_def Let_def t_def)
  consider "normalize_symbol v = t" | "normalize_symbol v = take (length t - 4) t @ ''/USDT''" "4 < length t"
    using n by (auto split: if_split_asm)
  then show ?thesis
  proof cases
    case 1
    with again [OF up st] n show ?thesis by simp
  next
    case 2
    let ?x = "take (length t - 4) t @ ''/USDT''"
    have "upper ?x = ?x" using up by (auto simp: upper_fixed upper_char_def dest: in_set_takeD)
    moreover from 2(2) have "t \<noteq> []" by auto
    then have "\<not> is_space (hd t)" using strip_ends [of "upper (py_str (por v (VStr [])))"] unfolding t_def by blast
    then have "strip ?x = ?x" using 2(2) by (intro strip_id) (auto simp: is_space_def hd_append)
    moreover have "contains ?x ''/''" using contains_append [of _ "''/''" "''USDT''"] by simp
    ultimately show ?thesis using again [of ?x] 2(1) by simp
  qed
qed

lemma fetched_cases:
  assumes "fetch_historical_price_evidence api now ex sy ts w = Inr (Some d)" "0 \<le> now" "now < max_instant"
  obtains source target a p u where "normalize_exchange ex = Some source" "target_epoch_ms ts w = Inr (Some target)"
    "normalize_symbol sy \<noteq> []" "d = evidence_fields source (normalize_symbol sy) w target a p u"
    "validate_price_evidence (VDict d) ex sy ts w = Inr True"
proof -
  from assms(1) obtain tm where "target_epoch_ms ts w = Inr tm"
    and r: "(case (normalize_exchange ex, tm) of
         (Some source, Some target) \<Rightarrow>
           if normalize_symbol sy = [] then Inr None
           else (case api source (normalize_symbol sy) (target - candle_interval_ms) of
               Inl _ \<Rightarrow> Inr None
             | Inr candles \<Rightarrow>
                 price_evidence_from_candles now candles (VStr source) (VStr (normalize_symbol sy)) ts w VNone)
       | _ \<Rightarrow> Inr None) = Inr (Some d)"
    unfolding fetch_historical_price_evidence_def rbind_Inr_iff by blast
  then obtain source candles where ex: "normalize_exchange ex = Some source"
    and ev: "price_evidence_from_candles now candles (VStr source) (VStr (normalize_symbol sy)) ts w VNone = Inr (Some d)"
    by (cases "normalize_exchange ex"; cases tm) (auto split: if_split_asm sum.split_asm)
  from price_evidence_cases [OF ev] obtain source' target c where
    e: "normalize_exchange (VStr source) = Some source'" "target_epoch_ms ts w = Inr (Some target)" "normalize_symbol sy \<noteq> []"
    "select_containing_candle candles target = Inr (Some c)"
    "evidence_of_candle now c source' (normalize_symbol sy) w target VNone = Inr (Some d)"
    unfolding normalize_symbol_again by blast
  from evidence_of_candle_cases [OF e(5) assms(2,3)] obtain a p u ms where
    f: "candle_open c = Inr a" "candle_price c = Inr p" "0 \<le> u" "u < max_instant" "epoch_ms u = Inr ms"
    "a + candle_interval_ms \<le> ms" "d = evidence_fields source' (normalize_symbol sy) w target a p u" .
  from select_containing [OF e(4)] f(1,2) have "\<not> fle p fzero" "is_finite p" "a \<le> target" "target < a + candle_interval_ms"
    by auto
  with evidence_validates [OF e(2) ex e(3)] f e(1) normalize_exchange_again [OF ex] have
    "validate_price_evidence (VDict d) ex sy ts w = Inr True" by simp
  moreover have "source' = source" using e(1) normalize_exchange_again [OF ex] by simp
  ultimately show thesis using that [OF ex e(2,3)] f(7) by simp
qed

text \<open>C20: The evidence that is fetched from the public exchange validates for the same exchange, symbol, timestamp
  and window, whatever candles the exchange returns.\<close>

theorem fetched_evidence_validates:
  assumes "fetch_historical_price_evidence api now ex sy ts w = Inr (Some d)" "0 \<le> now" "now < max_instant"
  shows "validate_price_evidence (VDict d) ex sy ts w = Inr True"
  using assms by (rule fetched_cases)

lemma validated_evidence:
  assumes "validate_price_evidence ev ex sy ts w = Inr True"
  obtains d target n u ms where "ev = VDict d" "target_epoch_ms ts w = Inr (Some target)" "evidence_numbers_of d = Inr n"
    "numbers_ok w target n" "parse_utc (dget d ''observed_at'') = Inr (Some u)" "epoch_ms u = Inr ms" "ev_close n \<le> ms"
proof -
  from assms obtain d where d: "ev = VDict d" by (cases ev) (auto simp: validate_price_evidence_def)
  from assms [unfolded d validate_price_evidence_def] obtain target where t: "target_epoch_ms ts w = Inr (Some target)"
    and r: "(case evidence_numbers_of d of
        Inl e \<Rightarrow> if caught e then Inr False else Inl e
      | Inr n \<Rightarrow>
          if \<not> numbers_ok w target n then Inr False
          else rbind (parse_utc (dget d ''observed_at'')) (\<lambda>obs.
            case obs of None \<Rightarrow> Inr False | Some u \<Rightarrow> rbind (epoch_ms u) (\<lambda>ms. Inr (ev_close n \<le> ms)))) = Inr True"
    by (cases "normalize_exchange ex") (auto simp: rbind_Inr_iff split: if_split_asm option.split_asm)
  from r obtain n obs where n: "evidence_numbers_of d = Inr n" "numbers_ok w target n" "parse_utc (dget d ''observed_at'') = Inr obs"
    and r: "(case obs of None \<Rightarrow> Inr False | Some u \<Rightarrow> rbind (epoch_ms u) (\<lambda>ms. Inr (ev_close n \<le> ms))) = Inr True"
    by (cases "evidence_numbers_of d") (auto simp: rbind_Inr_iff split: if_split_asm)
  from r obtain u ms where "obs = Some u" "epoch_ms u = Inr ms" "ev_close n \<le> ms"
    by (cases obs) (auto simp: rbind_Inr_iff)
  with d t n that show thesis by blast
qed

lemma and_then_True: "and_then a b = Inr True \<longleftrightarrow> a = Inr True \<and> b = Inr True"
  by (cases a) auto

lemma qualified_opened:
  assumes "is_proof_qualified row = Inr True"
  obtains op dual row_dt source p where "in_text_set (dget row ''outcome'') valid_outcomes = Inr True"
    "row_direction row \<in> {''LONG'', ''SHORT''}"
    "dget (as_audit row) ''origin_price_v1'' = VDict op" "dget (as_audit row) ''outcomes_dual'' = VDict dual"
    "agreed_instant row op = Inr (Some row_dt)" "normalize_exchange (dget row ''exchange_used'') = Some source"
    "row_prices_of row op dual = Inr p" "\<not> fle (smallest_price p) fzero"
    "isclose origin_price_tol origin_price_tol (rp_origin p) (rp_row p)"
    "dual_ok row dual = Inr True" "evidence_ok row source p dual = Inr True" "observation_ok row row_dt dual = Inr True"
    "outcomes_ok (row_direction row) p dual = Inr True"
proof -
  note q = assms [unfolded is_proof_qualified_def and_then_True]
  from q obtain op dual where o: "dget (as_audit row) ''origin_price_v1'' = VDict op"
    "dget (as_audit row) ''outcomes_dual'' = VDict dual"
    by (cases "dget (as_audit row) ''origin_price_v1''"; cases "dget (as_audit row) ''outcomes_dual''")
      (auto split: if_split_asm)
  from q [unfolded o prod.case pyval.case] obtain row_dt source where
    d: "agreed_instant row op = Inr (Some row_dt)" "normalize_exchange (dget row ''exchange_used'') = Some source"
    by (auto simp: rbind_Inr_iff split: if_split_asm option.split_asm)
  from q [unfolded o prod.case pyval.case d rbind.simps option.case] obtain p where p: "row_prices_of row op dual = Inr p"
    by (cases "row_prices_of row op dual") (auto split: if_split_asm)
  from q [unfolded o prod.case pyval.case d rbind.simps option.case p sum.case and_then_True] o d p that
  show thesis by (auto split: if_split_asm simp: and_then_True simp del: and_then.simps)
qed

text \<open>C21: A row that the gate admits carries the outcome that its direction and its prices imply: the price after one
  hour is, within the tolerance, the positive close of a one-minute candle that contains the target
  instant, and the evidence was observed after that candle had closed.\<close>

theorem qualified_row_sound:
  assumes "is_proof_qualified row = Inr True"
  shows "\<exists>out op dual h e p target n u ms. dget row ''outcome'' = VStr out \<and> out \<in> {''WIN'', ''LOSS''}
    \<and> dget (as_audit row) ''origin_price_v1'' = VDict op \<and> dget (as_audit row) ''outcomes_dual'' = VDict dual
    \<and> dget dual ''price_evidence_v1'' = VDict h \<and> dget h ''1h'' = VDict e
    \<and> row_prices_of row op dual = Inr p
    \<and> directional_outcome (VStr (row_direction row)) (VFloat (rp_origin p)) (VFloat (rp_1h p)) = Inr (Some out)
    \<and> target_epoch_ms (dget row ''ts'') window_1h_s = Inr (Some target) \<and> evidence_numbers_of e = Inr n
    \<and> ev_open n \<le> target \<and> target < ev_open n + candle_interval_ms
    \<and> isclose origin_price_tol origin_price_tol (rp_1h p) (ev_price n) \<and> \<not> fle (ev_price n) fzero
    \<and> parse_utc (dget e ''observed_at'') = Inr (Some u) \<and> epoch_ms u = Inr ms \<and> ev_open n + candle_interval_ms \<le> ms"
proof -
  from qualified_opened [OF assms] obtain op dual row_dt source p where q:
    "in_text_set (dget row ''outcome'') valid_outcomes = Inr True"
    "dget (as_audit row) ''origin_price_v1'' = VDict op" "dget (as_audit row) ''outcomes_dual'' = VDict dual"
    "row_prices_of row op dual = Inr p" "dual_ok row dual = Inr True" "evidence_ok row source p dual = Inr True"
    "outcomes_ok (row_direction row) p dual = Inr True" by metis
  from q(1) obtain out where out: "dget row ''outcome'' = VStr out" "out \<in> {''WIN'', ''LOSS''}"
    by (cases "dget row ''outcome''") (auto simp: valid_outcomes_def)
  from q(6) obtain h where h: "dget dual ''price_evidence_v1'' = VDict h"
    by (cases "dget dual ''price_evidence_v1''") (auto simp: evidence_ok_def)
  from q(6) obtain v where v: "validate_price_evidence (dget h ''1h'') (VStr source) (VStr (normalize_symbol (dget row ''symbol'')))
      (dget row ''ts'') window_1h_s = Inr True" "price_matches (VFloat (rp_1h p)) (dget (as_dict (dget h ''1h'')) ''price'') = Inr True"
    by (auto simp: evidence_ok_def h rbind_Inr_iff split: if_split_asm)
  from validated_evidence [OF v(1)] obtain e target n u ms where e: "dget h ''1h'' = VDict e"
    "target_epoch_ms (dget row ''ts'') window_1h_s = Inr (Some target)" "evidence_numbers_of e = Inr n"
    "numbers_ok window_1h_s target n" "parse_utc (dget e ''observed_at'') = Inr (Some u)" "epoch_ms u = Inr ms" "ev_close n \<le> ms" .
  from e(3) have "float_of (dget e ''price'') = Inr (ev_price n)" by (auto simp: evidence_numbers_of_def rbind_Inr_iff)
  with v(2) e(1) have close: "isclose origin_price_tol origin_price_tol (rp_1h p) (ev_price n)"
    by (simp add: price_matches_def)
  from q(5) out have "dget dual ''outcome_1h'' = VStr out"
    by (auto simp: dual_ok_def rbind_Inr_iff split: if_split_asm)
  with q(7) have dir: "directional_outcome (VStr (row_direction row)) (VFloat (rp_origin p)) (VFloat (rp_1h p)) = Inr (Some out)"
    by (auto simp: outcomes_ok_def rbind_Inr_iff split: option.split_asm)
  from e(4) e(7) have "ev_open n \<le> target" "target < ev_open n + candle_interval_ms" "\<not> fle (ev_price n) fzero"
    "ev_open n + candle_interval_ms \<le> ms"
    by (auto simp: numbers_ok_def)
  with out q(2-4) h e dir close show ?thesis by blast
qed

text \<open>The score counts qualified rows only, each exactly once and in order, and every one of them as a win or as a
  loss.\<close>

theorem score_counts_qualified:
  assumes "score_qualified_rows rows = Inr s"
  shows "sc_rows s = filter (\<lambda>r. is_proof_qualified r = Inr True) rows \<and> sc_verified s = length (sc_rows s)
    \<and> sc_wins s + sc_losses s = sc_verified s"
proof -
  have flt: "filter_res p xs = Inr ys \<Longrightarrow> ys = filter (\<lambda>x. p x = Inr True) xs" for p :: "pydict \<Rightarrow> bool res" and xs ys
    by (induction xs arbitrary: ys) (auto simp: rbind_Inr_iff)
  from assms have s: "filter_proof_qualified rows = Inr (sc_rows s)" "sc_verified s = length (sc_rows s)"
    "sc_wins s = length (filter (\<lambda>r. py_eq (dget r ''outcome'') (VStr ''WIN'')) (sc_rows s))"
    "sc_losses s = length (filter (\<lambda>r. py_eq (dget r ''outcome'') (VStr ''LOSS'')) (sc_rows s))"
    by (auto simp: score_qualified_rows_def rbind_Inr_iff Let_def)
  from s(1) flt have f: "sc_rows s = filter (\<lambda>r. is_proof_qualified r = Inr True) rows"
    by (simp add: filter_proof_qualified_def)
  have "py_eq (dget r ''outcome'') (VStr ''LOSS'') = (\<not> py_eq (dget r ''outcome'') (VStr ''WIN''))"
    if "r \<in> set (sc_rows s)" for r
  proof -
    from that f have "is_proof_qualified r = Inr True" by simp
    then have "in_text_set (dget r ''outcome'') valid_outcomes = Inr True" by (rule qualified_opened)
    then show ?thesis by (cases "dget r ''outcome''") (auto simp: valid_outcomes_def)
  qed
  then have "filter (\<lambda>r. py_eq (dget r ''outcome'') (VStr ''LOSS'')) (sc_rows s)
      = filter (\<lambda>r. \<not> py_eq (dget r ''outcome'') (VStr ''WIN'')) (sc_rows s)"
    by (intro filter_cong) auto
  with s f show ?thesis
    using sum_length_filter_compl [of "\<lambda>r. py_eq (dget r ''outcome'') (VStr ''WIN'')" "sc_rows s"] by simp
qed

subsection \<open>Witnesses\<close>

lemmas round_by_simp = fl_round_def half_even_def fl_exp_def fl_scale_def int_nbits

lemma demo_numbers:
  "fl_of_int 100 = Flt False 7036874417766400 (-46)" "fl_of_int 128 = Flt False 4503599627370496 (-45)"
  by (simp_all add: fl_of_int_def round_by_simp)

lemma demo_seconds:
  "total_seconds 900000000 = Flt False 7916483719987200 (-43)" "total_seconds 3600000000 = Flt False 7916483719987200 (-41)"
  "total_seconds 7200000000 = Flt False 7916483719987200 (-40)"
  by (simp_all add: total_seconds_def round_by_simp)

lemma demo_millis:
  "epoch_ms (unix_epoch + 900000000) = Inr 900000" "epoch_ms (unix_epoch + 3600000000) = Inr 3600000"
  "epoch_ms (unix_epoch + 7200000000) = Inr 7200000"
  by (simp_all add: epoch_ms_def demo_seconds fl_of_int_def round_by_simp fl_int_def)

lemma demo_range: "0 \<le> unix_epoch" "unix_epoch < max_instant" "0 \<le> unix_epoch + 7200000000" "unix_epoch + 7200000000 < max_instant"
  by (simp_all add: unix_epoch_def max_instant_def us_per_day_def)

lemma demo_plus: "plus_seconds unix_epoch window_15m_s = Inr (unix_epoch + 900000000)"
  "plus_seconds unix_epoch window_1h_s = Inr (unix_epoch + 3600000000)"
  by (simp_all add: plus_seconds_def to_utc_def window_15m_s_def window_1h_s_def unix_epoch_def max_instant_def us_per_day_def)

definition demo_ts :: pyval where "demo_ts = VStr (isoformat_utc unix_epoch)"

lemma demo_targets: "target_epoch_ms demo_ts window_15m_s = Inr (Some 900000)" "target_epoch_ms demo_ts window_1h_s = Inr (Some 3600000)"
  by (simp_all add: target_epoch_ms_def demo_ts_def parse_utc_isoformat [OF demo_range(1,2)] demo_plus demo_millis)

definition demo_evidence :: "int \<Rightarrow> int \<Rightarrow> pydict" where
  "demo_evidence w target = evidence_fields ''okx'' (normalize_symbol (VStr ''BTC/USDT'')) w target target (fl_of_int 128) (unix_epoch + 7200000000)"

lemma demo_names: "normalize_exchange (VStr ''okx'') = Some ''okx''" "normalize_symbol (VStr ''BTC/USDT'') = ''BTC/USDT''"
  by code_simp+

lemma demo_price: "\<not> fle (fl_of_int 128) fzero" "is_finite (fl_of_int 128)" "\<not> fle (fl_of_int 100) fzero" "is_finite (fl_of_int 100)"
  "flt (fl_of_int 100) (fl_of_int 128)" "feq (fl_of_int 128) (fl_of_int 128)" "feq (fl_of_int 100) (fl_of_int 100)"
  by (simp_all add: demo_numbers fle_def fzero_def fl_int_def)

lemma demo_evidence_valid:
  "validate_price_evidence (VDict (demo_evidence window_15m_s 900000)) (VStr ''okx'') (VStr ''BTC/USDT'') demo_ts window_15m_s = Inr True"
  "validate_price_evidence (VDict (demo_evidence window_1h_s 3600000)) (VStr ''okx'') (VStr ''BTC/USDT'') demo_ts window_1h_s = Inr True"
proof -
  show "validate_price_evidence (VDict (demo_evidence window_15m_s 900000)) (VStr ''okx'') (VStr ''BTC/USDT'') demo_ts window_15m_s = Inr True"
    unfolding demo_evidence_def
    by (rule evidence_validates [OF demo_targets(1) demo_names(1) _ _ _ demo_price(1,2) demo_range(3,4) demo_millis(3)])
      (simp_all add: demo_names candle_interval_ms_def)
  show "validate_price_evidence (VDict (demo_evidence window_1h_s 3600000)) (VStr ''okx'') (VStr ''BTC/USDT'') demo_ts window_1h_s = Inr True"
    unfolding demo_evidence_def
    by (rule evidence_validates [OF demo_targets(2) demo_names(1) _ _ _ demo_price(1,2) demo_range(3,4) demo_millis(3)])
      (simp_all add: demo_names candle_interval_ms_def)
qed

definition demo_dual :: pydict where
  "demo_dual =
     [(''primary_window'', VStr ''1h''), (''settlement_contract_version'', VStr ''aud063-v1''),
      (''price_15m_later'', VInt 128), (''price_1h_later'', VInt 128), (''outcome_15m'', VStr ''WIN''), (''outcome_1h'', VStr ''WIN''),
      (''price_evidence_v1'', VDict [(''15m'', VDict (demo_evidence window_15m_s 900000)), (''1h'', VDict (demo_evidence window_1h_s 3600000))]),
      (''settlement_observation_v1'', VDict [(''version'', VStr ''settlement-observation-v1''),
         (''observed_at'', VStr (isoformat_utc (unix_epoch + 7200000000)))])]"

definition demo_origin :: pydict where
  "demo_origin = [(''version'', VStr ''origin-price-v1''), (''timestamp'', demo_ts), (''source'', VStr ''okx''), (''price'', VInt 100)]"

definition demo_row :: pydict where
  "demo_row =
     [(''outcome'', VStr ''WIN''), (''prediction'', VStr ''LONG''), (''ts'', demo_ts), (''exchange_used'', VStr ''okx''),
      (''symbol'', VStr ''BTC/USDT''), (''price_now'', VInt 100),
      (''audit'', VDict [(''origin_price_v1'', VDict demo_origin), (''outcomes_dual'', VDict demo_dual)])]"

lemma demo_fields:
  "dget demo_row ''outcome'' = VStr ''WIN''" "row_direction demo_row = ''LONG''" "dget demo_row ''ts'' = demo_ts"
  "dget demo_row ''exchange_used'' = VStr ''okx''" "dget demo_row ''symbol'' = VStr ''BTC/USDT''" "dget demo_row ''price_now'' = VInt 100"
  "dget (as_audit demo_row) ''origin_price_v1'' = VDict demo_origin" "dget (as_audit demo_row) ''outcomes_dual'' = VDict demo_dual"
  "dget demo_origin ''version'' = VStr ''origin-price-v1''" "dget demo_origin ''timestamp'' = demo_ts"
  "dget demo_origin ''source'' = VStr ''okx''" "dget demo_origin ''price'' = VInt 100"
  "dget demo_dual ''price_15m_later'' = VInt 128" "dget demo_dual ''price_1h_later'' = VInt 128"
  by (simp_all add: demo_row_def demo_origin_def demo_dual_def dget_def as_audit_def row_direction_def por_def upper_def upper_char_def)

lemma demo_prices: "row_prices_of demo_row demo_origin demo_dual =
    Inr \<lparr>rp_origin = fl_of_int 100, rp_row = fl_of_int 100, rp_15m = fl_of_int 128, rp_1h = fl_of_int 128\<rparr>"
  by (simp add: row_prices_of_def demo_fields float_of_int_def demo_price Let_def)

lemma demo_close: "isclose origin_price_tol origin_price_tol (fl_of_int 128) (fl_of_int 128)"
  "isclose origin_price_tol origin_price_tol (fl_of_int 100) (fl_of_int 100)"
  by (simp_all add: isclose_def demo_price)

abbreviation "demo_p \<equiv> \<lparr>rp_origin = fl_of_int 100, rp_row = fl_of_int 100, rp_15m = fl_of_int 128, rp_1h = fl_of_int 128\<rparr>"

lemma demo_smallest: "\<not> fle (smallest_price demo_p) fzero"
  using demo_price flt_irrefl [of "fl_of_int 100"] by (simp add: smallest_price_def fmin_def)

lemma demo_dual_ok: "dual_ok demo_row demo_dual = Inr True"
  unfolding dual_ok_def demo_fields by (simp add: demo_dual_def dget_def valid_outcomes_def)

lemma demo_directional: "directional_outcome (VStr ''LONG'') (VFloat (fl_of_int 100)) (VFloat (fl_of_int 128)) = Inr (Some ''WIN'')"
  by (simp add: directional_outcome_def demo_price por_def upper_def upper_char_def)

lemma demo_outcomes_ok: "outcomes_ok ''LONG'' demo_p demo_dual = Inr True"
  by (simp add: outcomes_ok_def demo_directional) (simp add: demo_dual_def dget_def)

lemma demo_evidence_ok: "evidence_ok demo_row ''okx'' demo_p demo_dual = Inr True"
proof -
  let ?h = "[(''15m'', VDict (demo_evidence window_15m_s 900000)), (''1h'', VDict (demo_evidence window_1h_s 3600000))]"
  have h: "dget demo_dual ''price_evidence_v1'' = VDict ?h" "dget ?h ''15m'' = VDict (demo_evidence window_15m_s 900000)"
    "dget ?h ''1h'' = VDict (demo_evidence window_1h_s 3600000)"
    by (simp_all add: demo_dual_def dget_def)
  have p: "dget (demo_evidence w t) ''price'' = VFloat (fl_of_int 128)" for w t
    by (simp add: demo_evidence_def evidence_fields_def dget_def)
  show ?thesis
    unfolding evidence_ok_def h pyval.case demo_fields demo_names demo_evidence_valid as_dict.simps p
    by (simp add: price_matches_def demo_close)
qed

lemma demo_observation_ok: "observation_ok demo_row unix_epoch demo_dual = Inr True"
proof -
  have o: "dget demo_dual ''settlement_observation_v1'' = VDict [(''version'', VStr ''settlement-observation-v1''),
         (''observed_at'', VStr (isoformat_utc (unix_epoch + 7200000000)))]"
    and t: "dget (as_dict (dget (as_dict (dget demo_dual ''price_evidence_v1'')) ''1h'')) ''target_epoch_ms'' = VInt 3600000"
    by (simp_all add: demo_dual_def dget_def demo_evidence_def evidence_fields_def)
  show ?thesis
    unfolding observation_ok_def o pyval.case t demo_fields demo_plus demo_targets
    by (simp add: dget_def parse_utc_isoformat [OF demo_range(3,4)])
qed

lemma demo_qualified: "is_proof_qualified demo_row = Inr True"
proof -
  have a: "agreed_instant demo_row demo_origin = Inr (Some unix_epoch)"
    unfolding agreed_instant_def demo_fields by (simp add: demo_ts_def parse_utc_isoformat [OF demo_range(1,2)])
  show ?thesis
    unfolding is_proof_qualified_def demo_fields prod.case pyval.case a rbind.simps option.case demo_names demo_prices sum.case
    by (simp add: valid_outcomes_def demo_smallest demo_close demo_dual_ok demo_evidence_ok demo_observation_ok demo_outcomes_ok)
qed

theorem qualified_row_sound_witness:
  "\<exists>op dual p. dget (as_audit demo_row) ''origin_price_v1'' = VDict op \<and> dget (as_audit demo_row) ''outcomes_dual'' = VDict dual
    \<and> row_prices_of demo_row op dual = Inr p
    \<and> directional_outcome (VStr ''LONG'') (VFloat (rp_origin p)) (VFloat (rp_1h p)) = Inr (Some ''WIN'')"
  using qualified_row_sound [OF demo_qualified] unfolding demo_fields by blast

theorem score_counts_qualified_witness:
  "\<exists>s. score_qualified_rows [demo_row, []] = Inr s \<and> sc_rows s = [demo_row] \<and> sc_wins s + sc_losses s = 1"
proof -
  have e: "is_proof_qualified [] = Inr False" by (simp add: is_proof_qualified_def dget_def)
  obtain s where s: "score_qualified_rows [demo_row, []] = Inr s"
    by (simp add: score_qualified_rows_def filter_proof_qualified_def demo_qualified e Let_def)
  with score_counts_qualified [OF s] show ?thesis by (simp add: demo_qualified e)
qed

definition demo_candle :: pyval where
  "demo_candle = VList [VInt 3600000, VInt 100, VInt 130, VInt 99, VInt 128, VInt 7]"

lemma demo_fetch: "\<exists>d. fetch_historical_price_evidence (\<lambda>_ _ _. Inr [demo_candle]) (unix_epoch + 7200000000)
    (VStr ''okx'') (VStr ''BTC/USDT'') demo_ts window_1h_s = Inr (Some d)"
proof -
  have c: "candle_open demo_candle = Inr 3600000" "candle_price demo_candle = Inr (fl_of_int 128)"
    by (simp_all add: candle_open_def candle_price_def demo_candle_def float_of_int_def demo_price)
  have "admissible 3600000 demo_candle = Inr True" by (simp add: admissible_def c demo_price candle_interval_ms_def)
  then have "select_containing_candle [demo_candle] 3600000 = Inr (Some demo_candle)" by (simp add: select_containing_candle_def)
  then show ?thesis
    by (simp add: fetch_historical_price_evidence_def demo_names demo_targets price_evidence_from_candles_def
      evidence_of_candle_def c demo_millis candle_interval_ms_def)
qed

theorem fetched_evidence_validates_witness:
  "\<exists>d. validate_price_evidence (VDict d) (VStr ''okx'') (VStr ''BTC/USDT'') demo_ts window_1h_s = Inr True"
  using demo_fetch fetched_evidence_validates [OF _ demo_range(3,4)] by blast

end
