(* ===== verification/PaperJournal.thy ===== *)
theory PaperJournal
  imports Resilience PyFloat "HOL-Library.AList"
begin

section \<open>The paper execution journal\<close>

text \<open>
  \<^verbatim>\<open>research/rea_engines/paper_execution_contract.py\<close>: the paper engine that writes every
  event to a hash-chained journal before it advances its state, and its recovery from a checkpoint
  and the journal. SHA-256 is a parameter. The files are not modelled; the texts written and read
  are, and each append has an outcome: written, a stale head, a failing device, a lock that another
  writer holds. The dictionary of events is in insertion order, so it is also the journal.
\<close>

subsection \<open>Helpers\<close>

definition genesis_hash :: string where "genesis_hash = replicate 64 CHR ''0''"

definition supported_events :: "string list" where
  "supported_events =
     [''ORDER_REGISTERED'', ''FILL_APPLIED'', ''ORDER_CANCELLED'', ''ORDER_EXPIRED'', ''SNAPSHOT_RECONCILED'',
      ''DIVERGENCE_RESOLVED'']"

definition terminal_words :: "string list" where "terminal_words = [''CANCELLED'', ''EXPIRED'']"

text \<open>\<^verbatim>\<open>except (ValueError, TypeError) as exc: raise ContractError(str(exc))\<close>.\<close>

fun rewrap_paper :: "'a res \<Rightarrow> 'a res" where
  "rewrap_paper (Inr x) = Inr x"
| "rewrap_paper (Inl e) = (if caught e then Inl (PaperError (exc_msg e)) else Inl e)"

definition paper_decimal :: "pyval \<Rightarrow> string \<Rightarrow> bool \<Rightarrow> bool \<Rightarrow> dec res" where
  "paper_decimal v name pos nonneg = rewrap_paper (as_decimal v name pos nonneg)"

definition paper_sha :: "(string \<Rightarrow> string) \<Rightarrow> pyval \<Rightarrow> string" where
  "paper_sha sha v = sha (canon False v)"

definition nonempty :: "pyval \<Rightarrow> string \<Rightarrow> string res" where
  "nonempty v name =
     (case v of
        VStr s \<Rightarrow> if strip s = [] then Inl (PaperError (name @ '' must be a non-empty string'')) else Inr (strip s)
      | _ \<Rightarrow> Inl (PaperError (name @ '' must be a non-empty string'')))"

subsection \<open>The engine\<close>

record risk_limits =
  max_inventory :: dec
  max_fill_qty :: dec

definition mk_risk_limits :: "pyval \<Rightarrow> pyval \<Rightarrow> risk_limits res" where
  "mk_risk_limits inv0 qty =
     rbind (paper_decimal inv0 ''max_inventory'' True False) (\<lambda>i.
     rbind (paper_decimal qty ''max_fill_qty'' True False) (\<lambda>q. Inr \<lparr>max_inventory = i, max_fill_qty = q\<rparr>))"

definition limits_payload :: "risk_limits \<Rightarrow> pyval" where
  "limits_payload l =
     VDict [(''max_inventory'', VStr (dec_str (max_inventory l))), (''max_fill_qty'', VStr (dec_str (max_fill_qty l)))]"

record engine =
  en_state :: paper_state
  en_limits :: risk_limits
  en_statuses :: "(string \<times> string) list"
  en_seq :: int
  en_head :: string
  en_last_ts :: "string option"
  en_blocked :: "string option"
  en_issues :: "string list"
  en_events :: "(string \<times> pydict) list"
  en_fills :: "(string \<times> pydict) list"

definition new_engine :: "paper_state \<Rightarrow> risk_limits \<Rightarrow> engine" where
  "new_engine st limits =
     \<lparr>en_state = st, en_limits = limits, en_statuses = [], en_seq = 0, en_head = genesis_hash, en_last_ts = None,
      en_blocked = None, en_issues = [], en_events = [], en_fills = []\<rparr>"

definition engine_order :: "engine \<Rightarrow> pyval \<Rightarrow> paper_order res" where
  "engine_order e oid =
     rbind (nonempty oid ''order_id'') (\<lambda>key.
       case filter (\<lambda>od. p_id od = key) (ps_orders (en_state e)) of
         [od] \<Rightarrow> Inr od
       | _ \<Rightarrow> Inl (PaperError (''unknown order_id: '' @ key)))"

definition status_of :: "engine \<Rightarrow> paper_order \<Rightarrow> string" where
  "status_of e od = (case map_of (en_statuses e) (p_id od) of Some s \<Rightarrow> s | None \<Rightarrow> p_status od)"

definition engine_status :: "engine \<Rightarrow> pyval \<Rightarrow> string res" where
  "engine_status e oid = rbind (engine_order e oid) (\<lambda>od. Inr (status_of e od))"

definition engine_remaining :: "engine \<Rightarrow> pyval \<Rightarrow> dec res" where
  "engine_remaining e oid = rbind (engine_order e oid) (\<lambda>od. Inr (p_remaining od))"

definition check_unblocked :: "engine \<Rightarrow> unit res" where
  "check_unblocked e =
     (case en_blocked e of
        None \<Rightarrow> Inr ()
      | Some r \<Rightarrow> Inl (PaperError (''engine is blocked pending explicit divergence resolution: '' @ r)))"

definition event_timestamp :: "pyval \<Rightarrow> string res" where
  "event_timestamp ts = rewrap (\<lambda>m. PaperError (''invalid event timestamp: '' @ m)) (normalize_timestamp ts)"

definition check_event_time :: "engine \<Rightarrow> pyval \<Rightarrow> string res" where
  "check_event_time e ts =
     rbind (event_timestamp ts) (\<lambda>t.
       if (case en_last_ts e of None \<Rightarrow> False | Some l \<Rightarrow> t < l)
       then Inl (PaperError ''event timestamp must not move backwards'') else Inr t)"

text \<open>The event recorded under an id, when it is the same event; the sequence number of a fill is ignored.\<close>

definition existing_event ::
    "engine \<Rightarrow> string \<Rightarrow> string \<Rightarrow> string \<Rightarrow> pydict \<Rightarrow> string list \<Rightarrow> pydict option res" where
  "existing_event e eid etype ts payload ignored =
     (case map_of (en_events e) eid of
        None \<Rightarrow> Inr None
      | Some prior \<Rightarrow>
          let keep = filter (\<lambda>(k, v). k \<notin> set ignored)
          in if dget prior ''event_type'' \<noteq> VStr etype \<or> dget prior ''timestamp'' \<noteq> VStr ts
                \<or> canon False (VDict (keep (as_dict (dget prior ''payload'')))) \<noteq> canon False (VDict (keep payload))
             then Inl (PaperError (''event_id conflict: '' @ eid @ '' was reused with a different payload''))
             else Inr (Some prior))"

subsection \<open>Reconciliation\<close>

definition snapshot_item :: "pyval \<Rightarrow> snapshot_order res" where
  "snapshot_item item =
     rbind (subscript item ''order_id'') (\<lambda>a. rbind (subscript item ''side'') (\<lambda>b.
     rbind (subscript item ''remaining_qty'') (\<lambda>c. mk_snapshot_order a b c)))"

fun snapshot_items :: "snapshot_order list \<Rightarrow> pyval list \<Rightarrow> snapshot_order list res" where
  "snapshot_items acc [] = Inr acc"
| "snapshot_items acc (x # xs) =
     rbind (snapshot_item x) (\<lambda>so.
       if so_id so \<in> set (map so_id acc) then Inl (PaperError ''snapshot contains duplicate open order IDs'')
       else snapshot_items (acc @ [so]) xs)"

definition observed_seq :: "pyval \<Rightarrow> int res" where
  "observed_seq v =
     (case v of
        VInt i \<Rightarrow> if i < 0 then Inl (PaperError ''snapshot last_event_seq must be a non-negative integer'') else Inr i
      | _ \<Rightarrow> Inl (PaperError ''snapshot last_event_seq must be a non-negative integer''))"

definition make_reconciliation_report :: "engine \<Rightarrow> pydict \<Rightarrow> reconciliation res" where
  "make_reconciliation_report e p =
     rbind (paper_decimal (dget p ''tolerance'') ''tolerance'' False True) (\<lambda>tol.
     rbind (paper_decimal (dget p ''cash'') ''snapshot cash'' False True) (\<lambda>cash1.
     rbind (paper_decimal (dget p ''inventory_qty'') ''snapshot inventory_qty'' False True) (\<lambda>inv1.
     rbind (observed_seq (dget p ''last_event_seq'')) (\<lambda>seq1.
     rbind (iterate (dget p ''open_orders'')) (\<lambda>items.
     rbind (snapshot_items [] items) (\<lambda>theirs.
       let st = en_state e;
           ours = filter (\<lambda>od. open_status (p_status od) \<and> p_id od \<notin> fst ` set (en_statuses e)) (ps_orders st);
           issues = total_issues tol (ps_cash st) cash1 (ps_inv st) inv1 (ps_seq st) seq1 @ order_issues tol ours theirs
       in Inr \<lparr>rr_matched = (issues = []), rr_issues = issues, rr_local = ps_seq st, rr_observed = seq1\<rparr>))))))"

subsection \<open>The reducer\<close>

datatype outcome = No_Result | Filled fill_application | Reported reconciliation

record candidate =
  cd_state :: paper_state
  cd_statuses :: "(string \<times> string) list"
  cd_blocked :: "string option"
  cd_issues :: "string list"
  cd_result :: outcome

text \<open>The candidate that changes nothing.\<close>

definition unchanged :: "engine \<Rightarrow> candidate" where
  "unchanged e =
     \<lparr>cd_state = en_state e, cd_statuses = en_statuses e, cd_blocked = en_blocked e, cd_issues = en_issues e,
      cd_result = No_Result\<rparr>"

definition reduce_registration :: "engine \<Rightarrow> pydict \<Rightarrow> candidate res" where
  "reduce_registration e p =
     (if \<not> keys_are p [''order_id'', ''client_order_id'', ''side'', ''quantity'']
        then Inl (PaperError ''ORDER_REGISTERED payload fields do not match schema'')
      else if list_ex (\<lambda>od. dget p ''order_id'' = VStr (p_id od) \<or> dget p ''client_order_id'' = VStr (p_client od))
                (ps_orders (en_state e))
        then Inl (PaperError ''order registration ID conflict'')
      else rbind (register_order (en_state e) (dget p ''order_id'') (dget p ''client_order_id'') (dget p ''side'')
                    (dget p ''quantity'')) (\<lambda>st. Inr ((unchanged e)\<lparr>cd_state := st\<rparr>)))"

definition payload_order :: "engine \<Rightarrow> pydict \<Rightarrow> paper_order option" where
  "payload_order e p = find (\<lambda>od. dget p ''order_id'' = VStr (p_id od)) (ps_orders (en_state e))"

text \<open>\<^verbatim>\<open>except ResilienceError as exc\<close>.\<close>

fun rewrap_fill :: "'a res \<Rightarrow> 'a res" where
  "rewrap_fill (Inl (ResilienceError m)) = Inl (PaperError (''fill validation failed: '' @ m))"
| "rewrap_fill m = m"

definition reduce_fill :: "(string \<Rightarrow> string) \<Rightarrow> engine \<Rightarrow> pydict \<Rightarrow> pyval \<Rightarrow> candidate res" where
  "reduce_fill sha e p ts =
     (if \<not> keys_are p [''fill_id'', ''order_id'', ''side'', ''quantity'', ''price'', ''fee'', ''spread_cost'',
                        ''slippage_cost'', ''timestamp'', ''fill_seq'']
        then Inl (PaperError ''FILL_APPLIED payload fields do not match schema'')
      else (case payload_order e p of
          None \<Rightarrow> Inl (PaperError ''fill references an unknown order'')
        | Some od \<Rightarrow>
            if p_id od \<in> fst ` set (en_statuses e)
              then Inl (PaperError ''fill references terminal cancelled/expired order'')
            else rbind (paper_decimal (dget p ''quantity'') ''quantity'' True False) (\<lambda>qty.
              if dlt (max_fill_qty (en_limits e)) qty
                then Inl (PaperError ''fill quantity exceeds max_fill_qty risk limit'')
              else if dget p ''side'' = VStr ''buy'' \<and> dlt (max_inventory (en_limits e)) (dadd (ps_inv (en_state e)) qty)
                then Inl (PaperError ''buy fill would exceed max_inventory risk limit'')
              else if \<not> py_eq (dget p ''fill_seq'') (VInt (ps_seq (en_state e) + 1))
                then Inl (PaperError ''journal fill sequence is not the next state sequence'')
              else if \<not> py_eq (dget p ''timestamp'') ts
                then Inl (PaperError ''fill payload timestamp must match journal envelope timestamp'')
              else rbind (mk_fill_event (dget p ''fill_id'') (dget p ''order_id'') (dget p ''side'') (dget p ''quantity'')
                            (dget p ''price'') (dget p ''fee'') (dget p ''spread_cost'') (dget p ''slippage_cost'')
                            (dget p ''timestamp'') (dget p ''fill_seq'')) (\<lambda>ev.
                   rbind (rewrap_fill (apply_fill sha (en_state e) ev)) (\<lambda>(st, a).
                     if \<not> fa_applied a
                     then Inl (PaperError ''journal contains a duplicate fill record instead of a no-op command'')
                     else Inr ((unchanged e)\<lparr>cd_state := st, cd_result := Filled a\<rparr>))))))"

definition reduce_terminal :: "string \<Rightarrow> engine \<Rightarrow> pydict \<Rightarrow> candidate res" where
  "reduce_terminal etype e p =
     (if \<not> keys_are p [''order_id'', ''remaining_qty'', ''reason'']
        then Inl (PaperError (etype @ '' payload fields do not match schema''))
      else (case payload_order e p of
          None \<Rightarrow> Inl (PaperError (etype @ '' references an unknown order''))
        | Some od \<Rightarrow>
            if p_status od = ''FILLED'' \<or> p_id od \<in> fst ` set (en_statuses e)
              then Inl (PaperError (etype @ '' references an already terminal order''))
            else rbind (paper_decimal (dget p ''remaining_qty'') ''remaining_qty'' False True) (\<lambda>r.
              if \<not> deq r (p_remaining od)
                then Inl (PaperError (etype @ '' remaining quantity does not match state''))
              else rbind (nonempty (dget p ''reason'') ''reason'') (\<lambda>_.
                Inr ((unchanged e)\<lparr>cd_statuses :=
                  AList.update (p_id od) (if etype = ''ORDER_CANCELLED'' then ''CANCELLED'' else ''EXPIRED'')
                    (en_statuses e)\<rparr>)))))"

definition reduce_snapshot :: "engine \<Rightarrow> pydict \<Rightarrow> pyval \<Rightarrow> candidate res" where
  "reduce_snapshot e p seq =
     (if \<not> keys_are p [''cash'', ''inventory_qty'', ''open_orders'', ''last_event_seq'', ''tolerance'']
        then Inl (PaperError ''SNAPSHOT_RECONCILED payload fields do not match schema'')
      else rbind (make_reconciliation_report e p) (\<lambda>r.
        Inr (if rr_matched r then (unchanged e)\<lparr>cd_result := Reported r\<rparr>
             else (unchanged e)\<lparr>cd_issues := rr_issues r,
                    cd_blocked := Some (''reconciliation divergence at journal seq '' @ py_str seq),
                    cd_result := Reported r\<rparr>)))"

definition is_blocked :: "engine \<Rightarrow> bool" where
  "is_blocked e = (case en_blocked e of None \<Rightarrow> False | Some r \<Rightarrow> r \<noteq> [])"

definition reduce_resolution :: "engine \<Rightarrow> pydict \<Rightarrow> candidate res" where
  "reduce_resolution e p =
     (if \<not> keys_are p [''approval_ref'', ''reason'', ''action'', ''prior_discrepancies'']
          \<or> dget p ''action'' \<noteq> VStr ''retain_local_paper_state''
        then Inl (PaperError ''DIVERGENCE_RESOLVED payload/action invalid'')
      else if \<not> is_blocked e then Inl (PaperError ''DIVERGENCE_RESOLVED without active divergence'')
      else rbind (nonempty (dget p ''approval_ref'') ''approval_ref'') (\<lambda>_.
           rbind (nonempty (dget p ''reason'') ''reason'') (\<lambda>_.
             if \<not> py_eq (dget p ''prior_discrepancies'') (VList (map VStr (en_issues e)))
             then Inl (PaperError ''divergence resolution does not cite current discrepancies'')
             else Inr ((unchanged e)\<lparr>cd_blocked := None\<rparr>))))"

definition reduce_record :: "(string \<Rightarrow> string) \<Rightarrow> engine \<Rightarrow> pydict \<Rightarrow> candidate res" where
  "reduce_record sha e r =
     (case (dget r ''payload'', dget r ''event_type'') of
        (VDict p, VStr etype) \<Rightarrow>
          if (case (en_last_ts e, dget r ''timestamp'') of (Some l, VStr t) \<Rightarrow> t < l | _ \<Rightarrow> False)
            then Inl (PaperError ''journal event timestamp moved backwards'')
          else if is_blocked e \<and> etype \<noteq> ''DIVERGENCE_RESOLVED''
            then Inl (PaperError ''journal contains a state-changing event while divergence block is active'')
          else if etype = ''ORDER_REGISTERED'' then reduce_registration e p
          else if etype = ''FILL_APPLIED'' then reduce_fill sha e p (dget r ''timestamp'')
          else if etype = ''ORDER_CANCELLED'' \<or> etype = ''ORDER_EXPIRED'' then reduce_terminal etype e p
          else if etype = ''SNAPSHOT_RECONCILED'' then reduce_snapshot e p (dget r ''journal_seq'')
          else if etype = ''DIVERGENCE_RESOLVED'' then reduce_resolution e p
          else Inl (PaperError (''unsupported event type '' @ etype))
      | (VDict p, v) \<Rightarrow> Inl (PaperError (''unsupported event type '' @ py_str v))
      | _ \<Rightarrow> Inl (PaperError ''journal event payload must be an object''))"

subsection \<open>Recording an event\<close>

datatype append_outcome = Written | Stale_Head | Lock_Held string | Device_Failed string

definition append_record :: "append_outcome \<Rightarrow> engine \<Rightarrow> engine \<times> unit res" where
  "append_record io e =
     (case io of
        Written \<Rightarrow> (e, Inr ())
      | Stale_Head \<Rightarrow>
          (e\<lparr>en_blocked := Some ''journal writer conflict: durable journal changed since this engine loaded''\<rparr>,
           Inl (PaperError ''journal writer conflict/stale head; reload via recover() before continuing''))
      | Lock_Held m \<Rightarrow> (e, Inl (PaperError m))
      | Device_Failed m \<Rightarrow>
          (e\<lparr>en_blocked := Some (''journal durability failure: '' @ m)\<rparr>,
           Inl (PaperError (''journal durability failure; in-memory state was not advanced: '' @ m))))"

definition event_base :: "engine \<Rightarrow> string \<Rightarrow> string \<Rightarrow> string \<Rightarrow> pydict \<Rightarrow> pydict" where
  "event_base e eid etype ts payload =
     [(''journal_seq'', VInt (en_seq e + 1)), (''event_id'', VStr eid), (''event_type'', VStr etype),
      (''timestamp'', VStr ts), (''payload'', VDict payload), (''prev_sha256'', VStr (en_head e))]"

definition event_record :: "(string \<Rightarrow> string) \<Rightarrow> engine \<Rightarrow> string \<Rightarrow> string \<Rightarrow> string \<Rightarrow> pydict \<Rightarrow> pydict" where
  "event_record sha e eid etype ts payload =
     event_base e eid etype ts payload @ [(''event_sha256'', VStr (paper_sha sha (VDict (event_base e eid etype ts payload))))]"

text \<open>The assignments after a record: the candidate, the time, the position, the indices.\<close>

definition without_seq :: "pydict \<Rightarrow> pydict" where
  "without_seq p = filter (\<lambda>(k, v). k \<noteq> ''fill_seq'') p"

fun text_of :: "pyval \<Rightarrow> string" where
  "text_of (VStr s) = s"
| "text_of v = []"

text \<open>A number that equals the position; a float or a boolean is read as the integer it equals.\<close>

fun int_in :: "pyval \<Rightarrow> int" where
  "int_in (VInt i) = i"
| "int_in (VBool b) = (if b then 1 else 0)"
| "int_in (VFloat x) = (case fl_trunc x of Inr i \<Rightarrow> i | Inl _ \<Rightarrow> 0)"
| "int_in (VDec d) = int_of_dec d"
| "int_in v = 0"

definition commit_record :: "engine \<Rightarrow> pydict \<Rightarrow> candidate \<Rightarrow> engine" where
  "commit_record e r c =
     e\<lparr>en_state := cd_state c, en_statuses := cd_statuses c, en_blocked := cd_blocked c, en_issues := cd_issues c,
       en_last_ts := Some (text_of (dget r ''timestamp'')), en_seq := int_in (dget r ''journal_seq''),
       en_head := text_of (dget r ''event_sha256''),
       en_events := AList.update (text_of (dget r ''event_id'')) r (en_events e),
       en_fills := (if dget r ''event_type'' = VStr ''FILL_APPLIED''
                    then AList.update (text_of (dget (as_dict (dget r ''payload'')) ''fill_id''))
                           (without_seq (as_dict (dget r ''payload''))) (en_fills e)
                    else en_fills e)\<rparr>"

definition repeated_fill :: "engine \<Rightarrow> pyval \<Rightarrow> fill_application res" where
  "repeated_fill e oid =
     rbind (engine_order e oid) (\<lambda>od.
       Inr \<lparr>fa_applied = False, fa_duplicate = True, fa_status = status_of e od, fa_remaining = p_remaining od\<rparr>)"

text \<open>What \<^verbatim>\<open>_record\<close> does before it writes: a repetition with its result, or the record and its candidate.\<close>

definition prepare_record ::
    "(string \<Rightarrow> string) \<Rightarrow> engine \<Rightarrow> pyval \<Rightarrow> string \<Rightarrow> pyval \<Rightarrow> pydict \<Rightarrow> bool \<Rightarrow> (outcome + pydict \<times> candidate) res" where
  "prepare_record sha e eid0 etype ts0 payload allow =
     rbind (nonempty eid0 ''event_id'') (\<lambda>eid.
     rbind (event_timestamp ts0) (\<lambda>ts.
       if etype \<notin> set supported_events then Inl (PaperError (''unsupported event_type: '' @ etype))
       else rbind (existing_event e eid etype ts payload (if etype = ''FILL_APPLIED'' then [''fill_seq''] else [])) (\<lambda>prior.
         case prior of
           Some _ \<Rightarrow>
             if etype = ''FILL_APPLIED''
               then rbind (repeated_fill e (dget payload ''order_id'')) (\<lambda>a. Inr (Inl (Filled a)))
             else if etype = ''SNAPSHOT_RECONCILED''
               then rbind (make_reconciliation_report e payload) (\<lambda>r. Inr (Inl (Reported r)))
             else Inr (Inl No_Result)
         | None \<Rightarrow>
             rbind (if allow then Inr () else check_unblocked e) (\<lambda>_.
             rbind (check_event_time e (VStr ts)) (\<lambda>t.
               let r = event_record sha e eid etype t payload
               in rbind (reduce_record sha e r) (\<lambda>c. Inr (Inr (r, c))))))))"

definition record_event ::
    "(string \<Rightarrow> string) \<Rightarrow> append_outcome \<Rightarrow> engine \<Rightarrow> pyval \<Rightarrow> string \<Rightarrow> pyval \<Rightarrow> pydict \<Rightarrow> bool
      \<Rightarrow> engine \<times> (bool \<times> outcome) res" where
  "record_event sha io e eid etype ts payload allow =
     (case prepare_record sha e eid etype ts payload allow of
        Inl x \<Rightarrow> (e, Inl x)
      | Inr (Inl out) \<Rightarrow> (e, Inr (False, out))
      | Inr (Inr (r, c)) \<Rightarrow>
          (case append_record io e of
             (e', Inl x) \<Rightarrow> (e', Inl x)
           | (e', Inr _) \<Rightarrow> (commit_record e' r c, Inr (True, cd_result c))))"

subsection \<open>The commands\<close>

definition side_word :: "pyval \<Rightarrow> string" where
  "side_word v = lower (strip (py_str v))"

text \<open>A command that validates its arguments and then records an event.\<close>

definition with_payload :: "engine \<Rightarrow> 'a res \<Rightarrow> ('a \<Rightarrow> engine \<times> 'b res) \<Rightarrow> engine \<times> 'b res" where
  "with_payload e m f = (case m of Inl x \<Rightarrow> (e, Inl x) | Inr a \<Rightarrow> f a)"

fun recorded :: "engine \<times> (bool \<times> outcome) res \<Rightarrow> engine \<times> bool res" where
  "recorded (e, m) = (e, rbind m (\<lambda>(b, out). Inr b))"

definition registration_payload :: "pyval \<Rightarrow> pyval \<Rightarrow> pyval \<Rightarrow> pyval \<Rightarrow> pyval \<Rightarrow> (string \<times> pydict) res" where
  "registration_payload ts oid client side0 quantity =
     rbind (event_timestamp ts) (\<lambda>t.
     rbind (nonempty oid ''order_id'') (\<lambda>o1.
     rbind (nonempty client ''client_order_id'') (\<lambda>c1.
       if side_word side0 \<notin> {''buy'', ''sell''} then Inl (PaperError ''side must be buy or sell'')
       else rbind (paper_decimal quantity ''quantity'' True False) (\<lambda>q.
         Inr (t, [(''order_id'', VStr o1), (''client_order_id'', VStr c1), (''side'', VStr (side_word side0)),
                  (''quantity'', VStr (dec_str q))])))))"

definition engine_register ::
    "(string \<Rightarrow> string) \<Rightarrow> append_outcome \<Rightarrow> engine \<Rightarrow> pyval \<Rightarrow> pyval \<Rightarrow> pyval \<Rightarrow> pyval \<Rightarrow> pyval \<Rightarrow> pyval
      \<Rightarrow> engine \<times> bool res" where
  "engine_register sha io e eid ts oid client side0 quantity =
     with_payload e (registration_payload ts oid client side0 quantity) (\<lambda>(t, p).
       recorded (record_event sha io e eid ''ORDER_REGISTERED'' (VStr t) p False))"

definition fill_payload ::
    "pyval \<Rightarrow> pyval \<Rightarrow> pyval \<Rightarrow> pyval \<Rightarrow> pyval \<Rightarrow> pyval \<Rightarrow> pyval \<Rightarrow> pyval \<Rightarrow> pyval \<Rightarrow> (string \<times> pydict) res" where
  "fill_payload ts fid oid side0 quantity price fee spread slip =
     rbind (event_timestamp ts) (\<lambda>t.
     rbind (nonempty fid ''fill_id'') (\<lambda>f1.
     rbind (nonempty oid ''order_id'') (\<lambda>o1.
     rbind (paper_decimal quantity ''quantity'' True False) (\<lambda>q.
     rbind (paper_decimal price ''price'' True False) (\<lambda>p.
     rbind (paper_decimal fee ''fee'' False True) (\<lambda>fv.
     rbind (paper_decimal spread ''spread_cost'' False True) (\<lambda>sv.
     rbind (paper_decimal slip ''slippage_cost'' False True) (\<lambda>lv.
       Inr (t, [(''fill_id'', VStr f1), (''order_id'', VStr o1), (''side'', VStr (side_word side0)),
                (''quantity'', VStr (dec_str q)), (''price'', VStr (dec_str p)), (''fee'', VStr (dec_str fv)),
                (''spread_cost'', VStr (dec_str sv)), (''slippage_cost'', VStr (dec_str lv)),
                (''timestamp'', VStr t)])))))))))"

text \<open>A fill that was delivered before, under its event id or its fill id, and its result.\<close>

definition known_fill :: "engine \<Rightarrow> string \<Rightarrow> string \<Rightarrow> pydict \<Rightarrow> fill_application option res" where
  "known_fill e eid t p =
     rbind (existing_event e eid ''FILL_APPLIED'' t p [''fill_seq'']) (\<lambda>prior.
       case prior of
         Some _ \<Rightarrow> rbind (repeated_fill e (dget p ''order_id'')) (\<lambda>a. Inr (Some a))
       | None \<Rightarrow>
           (case map_of (en_fills e) (text_of (dget p ''fill_id'')) of
              None \<Rightarrow> Inr None
            | Some q \<Rightarrow>
                if canon False (VDict q) \<noteq> canon False (VDict p)
                then Inl (PaperError ''fill_id conflict: ID reused with a different payload'')
                else rbind (repeated_fill e (dget p ''order_id'')) (\<lambda>a. Inr (Some a))))"

text \<open>The gates of a new fill.\<close>

definition fill_allowed :: "engine \<Rightarrow> pydict \<Rightarrow> unit res" where
  "fill_allowed e p =
     rbind (check_unblocked e) (\<lambda>_.
       if dget p ''side'' \<notin> {VStr ''buy'', VStr ''sell''} then Inl (PaperError ''fill side must be buy or sell'')
       else rbind (paper_decimal (dget p ''quantity'') ''quantity'' True False) (\<lambda>q.
         if dlt (max_fill_qty (en_limits e)) q then Inl (PaperError ''fill quantity exceeds max_fill_qty risk limit'')
         else rbind (engine_order e (dget p ''order_id'')) (\<lambda>od.
           if status_of e od \<in> set terminal_words
             then Inl (PaperError ''fill received for terminal cancelled/expired order'')
           else if dget p ''side'' = VStr ''buy'' \<and> dlt (max_inventory (en_limits e)) (dadd (ps_inv (en_state e)) q)
             then Inl (PaperError ''buy fill would exceed max_inventory risk limit'')
           else Inr ())))"

definition fill_result :: "engine \<Rightarrow> pydict \<Rightarrow> outcome \<Rightarrow> fill_application res" where
  "fill_result e p out =
     (case out of
        Filled a \<Rightarrow> Inr a
      | _ \<Rightarrow> rbind (engine_order e (dget p ''order_id'')) (\<lambda>od.
               Inr \<lparr>fa_applied = True, fa_duplicate = False, fa_status = status_of e od, fa_remaining = p_remaining od\<rparr>))"

definition engine_fill ::
    "(string \<Rightarrow> string) \<Rightarrow> append_outcome \<Rightarrow> engine \<Rightarrow> pyval \<Rightarrow> pyval \<Rightarrow> pyval \<Rightarrow> pyval \<Rightarrow> pyval \<Rightarrow> pyval \<Rightarrow> pyval \<Rightarrow> pyval
      \<Rightarrow> pyval \<Rightarrow> pyval \<Rightarrow> engine \<times> fill_application res" where
  "engine_fill sha io e eid0 fid oid side0 quantity price fee spread slip ts =
     with_payload e (fill_payload ts fid oid side0 quantity price fee spread slip) (\<lambda>(t, p).
     with_payload e (nonempty eid0 ''event_id'') (\<lambda>eid.
     with_payload e (known_fill e eid t p) (\<lambda>known.
       case known of
         Some a \<Rightarrow> (e, Inr a)
       | None \<Rightarrow>
           with_payload e (fill_allowed e p) (\<lambda>_.
             case record_event sha io e (VStr eid) ''FILL_APPLIED'' (VStr t)
                    (p @ [(''fill_seq'', VInt (ps_seq (en_state e) + 1))]) False of
               (e', m) \<Rightarrow> (e', rbind m (\<lambda>(b, out). fill_result e' p out))))))"

definition terminal_payload :: "engine \<Rightarrow> pyval \<Rightarrow> pyval \<Rightarrow> pyval \<Rightarrow> pyval \<Rightarrow> (string \<times> paper_order \<times> pydict \<times> string) res" where
  "terminal_payload e eid ts oid why =
     rbind (event_timestamp ts) (\<lambda>t.
     rbind (engine_order e oid) (\<lambda>od.
     rbind (nonempty why ''reason'') (\<lambda>r.
     rbind (nonempty eid ''event_id'') (\<lambda>key.
       Inr (t, od, [(''order_id'', VStr (p_id od)), (''remaining_qty'', VStr (dec_str (p_remaining od))), (''reason'', VStr r)],
            key)))))"

definition terminal_transition ::
    "(string \<Rightarrow> string) \<Rightarrow> append_outcome \<Rightarrow> engine \<Rightarrow> string \<Rightarrow> pyval \<Rightarrow> pyval \<Rightarrow> pyval \<Rightarrow> pyval \<Rightarrow> engine \<times> bool res" where
  "terminal_transition sha io e etype eid ts oid why =
     with_payload e (terminal_payload e eid ts oid why) (\<lambda>(t, od, p, key).
     with_payload e (existing_event e key etype t p []) (\<lambda>prior.
       case prior of
         Some _ \<Rightarrow> (e, Inr False)
       | None \<Rightarrow>
           with_payload e (check_unblocked e) (\<lambda>_.
             if status_of e od \<in> set terminal_words \<or> p_status od = ''FILLED''
             then (e, Inl (PaperError ''cannot cancel/expire an already terminal order''))
             else recorded (record_event sha io e (VStr key) etype (VStr t) p False))))"

definition cancel_order ::
    "(string \<Rightarrow> string) \<Rightarrow> append_outcome \<Rightarrow> engine \<Rightarrow> pyval \<Rightarrow> pyval \<Rightarrow> pyval \<Rightarrow> pyval \<Rightarrow> engine \<times> bool res" where
  "cancel_order sha io e = terminal_transition sha io e ''ORDER_CANCELLED''"

definition expire_order ::
    "(string \<Rightarrow> string) \<Rightarrow> append_outcome \<Rightarrow> engine \<Rightarrow> pyval \<Rightarrow> pyval \<Rightarrow> pyval \<Rightarrow> pyval \<Rightarrow> engine \<times> bool res" where
  "expire_order sha io e = terminal_transition sha io e ''ORDER_EXPIRED''"

definition snapshot_payload :: "execution_snapshot \<Rightarrow> dec \<Rightarrow> pydict" where
  "snapshot_payload obs tol =
     [(''cash'', VStr (dec_str (es_cash obs))), (''inventory_qty'', VStr (dec_str (es_inv obs))),
      (''open_orders'', VList (map (\<lambda>so. VDict [(''order_id'', VStr (so_id so)), (''side'', VStr (so_side so)),
                                 (''remaining_qty'', VStr (dec_str (so_remaining so)))]) (sort_key so_id (es_orders obs)))),
      (''last_event_seq'', VInt (es_seq obs)), (''tolerance'', VStr (dec_str tol))]"

definition engine_reconcile ::
    "(string \<Rightarrow> string) \<Rightarrow> append_outcome \<Rightarrow> engine \<Rightarrow> execution_snapshot \<Rightarrow> pyval \<Rightarrow> pyval \<Rightarrow> pyval \<Rightarrow> engine \<times> outcome res" where
  "engine_reconcile sha io e obs eid ts tolerance =
     with_payload e (rbind (event_timestamp ts) (\<lambda>t.
         rbind (paper_decimal tolerance ''tolerance'' False True) (\<lambda>tol. Inr (t, snapshot_payload obs tol)))) (\<lambda>(t, p).
       case record_event sha io e eid ''SNAPSHOT_RECONCILED'' (VStr t) p False of
         (e', m) \<Rightarrow> (e', rbind m (\<lambda>(b, out). Inr out)))"

definition resolution_payload :: "engine \<Rightarrow> pyval \<Rightarrow> pyval \<Rightarrow> pyval \<Rightarrow> pyval \<Rightarrow> (string \<times> pydict \<times> string) res" where
  "resolution_payload e eid ts ref why =
     rbind (event_timestamp ts) (\<lambda>t.
     rbind (nonempty ref ''approval_ref'') (\<lambda>a.
     rbind (nonempty why ''reason'') (\<lambda>r.
     rbind (nonempty eid ''event_id'') (\<lambda>key.
       Inr (t, [(''approval_ref'', VStr a), (''reason'', VStr r), (''action'', VStr ''retain_local_paper_state''),
                (''prior_discrepancies'', VList (map VStr (en_issues e)))], key)))))"

definition resolve_divergence ::
    "(string \<Rightarrow> string) \<Rightarrow> append_outcome \<Rightarrow> engine \<Rightarrow> pyval \<Rightarrow> pyval \<Rightarrow> pyval \<Rightarrow> pyval \<Rightarrow> engine \<times> bool res" where
  "resolve_divergence sha io e eid ts ref why =
     with_payload e (resolution_payload e eid ts ref why) (\<lambda>(t, p, key).
     with_payload e (existing_event e key ''DIVERGENCE_RESOLVED'' t p []) (\<lambda>prior.
       case prior of
         Some _ \<Rightarrow> (e, Inr False)
       | None \<Rightarrow>
           if en_blocked e = None
           then (e, Inl (PaperError ''cannot resolve divergence when engine is not blocked''))
           else recorded (record_event sha io e (VStr key) ''DIVERGENCE_RESOLVED'' (VStr t) p True)))"

subsection \<open>Checkpoint and recovery\<close>

definition engine_payload :: "engine \<Rightarrow> pyval" where
  "engine_payload e =
     VDict [(''state'', to_payload (en_state e)),
            (''terminal_statuses'', VList (map (\<lambda>(oid, s). VDict [(''order_id'', VStr oid), (''status'', VStr s)])
                                       (sort_key fst (en_statuses e)))),
            (''journal_seq'', VInt (en_seq e)), (''journal_head'', VStr (en_head e)),
            (''last_timestamp'', opt_str (en_last_ts e)), (''blocked_reason'', opt_str (en_blocked e)),
            (''discrepancies'', VList (map VStr (en_issues e))), (''risk_limits'', limits_payload (en_limits e))]"

definition checkpoint_envelope :: "(string \<Rightarrow> string) \<Rightarrow> engine \<Rightarrow> pyval" where
  "checkpoint_envelope sha e =
     VDict [(''schema_version'', VInt 1), (''state_sha256'', VStr (paper_sha sha (engine_payload e))),
            (''engine_state'', engine_payload e)]"

text \<open>The text that is written, and the digest that is returned.\<close>

definition engine_checkpoint :: "(string \<Rightarrow> string) \<Rightarrow> engine \<Rightarrow> (string \<times> string) res" where
  "engine_checkpoint sha e =
     (if (case en_blocked e of Some r \<Rightarrow> starts_with r ''journal '' | None \<Rightarrow> False)
      then Inl (PaperError ''cannot checkpoint while journal integrity/durability is uncertain; restart through fail-closed recovery'')
      else Inr (canon False (checkpoint_envelope sha e) @ [CHR 10], paper_sha sha (engine_payload e)))"

definition journal_text :: "engine \<Rightarrow> string" where
  "journal_text e = concat (map (\<lambda>(k, r). canon False (VDict r) @ [CHR 10]) (en_events e))"

text \<open>\<^verbatim>\<open>bytes.splitlines\<close> of a text whose only line ends are newlines.\<close>

fun split_lines :: "string \<Rightarrow> string \<Rightarrow> string list" where
  "split_lines acc [] = (if acc = [] then [] else [acc])"
| "split_lines acc (c # s) = (if c = CHR 10 then acc # split_lines [] s else split_lines (acc @ [c]) s)"

fun parse_lines :: "string list \<Rightarrow> pyval list option" where
  "parse_lines [] = Some []"
| "parse_lines (l # ls) =
     (case (json_loads l, parse_lines ls) of (Some v, Some vs) \<Rightarrow> Some (v # vs) | _ \<Rightarrow> None)"

definition record_keys :: "string list" where
  "record_keys = [''journal_seq'', ''event_id'', ''event_type'', ''timestamp'', ''payload'', ''prev_sha256'', ''event_sha256'']"

text \<open>One record of the journal at its position, after the ids and the digest of its predecessors.\<close>

definition check_record :: "(string \<Rightarrow> string) \<Rightarrow> int \<Rightarrow> string list \<Rightarrow> string \<Rightarrow> pyval \<Rightarrow> pydict res" where
  "check_record sha n ids previous v =
     (case v of
        VDict r \<Rightarrow>
          if \<not> keys_are r record_keys then Inl (PaperError ''journal record fields do not match schema'')
          else if \<not> py_eq (dget r ''journal_seq'') (VInt n) then Inl (PaperError ''journal sequence gap or reorder'')
          else rbind (nonempty (dget r ''event_id'') ''event_id'') (\<lambda>_.
            if text_of (dget r ''event_id'') \<in> set ids then Inl (PaperError ''journal contains duplicate event_id'')
            else rbind (in_text_set (dget r ''event_type'') supported_events) (\<lambda>ok.
              if \<not> ok then Inl (PaperError ''journal contains unknown event type'')
              else rbind (rewrap (\<lambda>m. PaperError (''invalid journal timestamp: '' @ m)) (normalize_timestamp (dget r ''timestamp''))) (\<lambda>t.
                if dget r ''timestamp'' \<noteq> VStr t then Inl (PaperError ''journal timestamp is not canonically normalized'')
                else if dget r ''prev_sha256'' \<noteq> VStr previous then Inl (PaperError ''journal hash chain predecessor mismatch'')
                else rbind (case json_err (VDict (dpop r ''event_sha256'')) of Some x \<Rightarrow> Inl x | None \<Rightarrow> Inr ()) (\<lambda>_.
                  if dget r ''event_sha256'' \<noteq> VStr (paper_sha sha (VDict (dpop r ''event_sha256'')))
                  then Inl (PaperError ''journal event hash mismatch'')
                  else Inr r))))
      | _ \<Rightarrow> Inl (PaperError ''journal record fields do not match schema''))"

fun check_records :: "(string \<Rightarrow> string) \<Rightarrow> int \<Rightarrow> string list \<Rightarrow> string \<Rightarrow> pyval list \<Rightarrow> pydict list res" where
  "check_records sha n ids previous [] = Inr []"
| "check_records sha n ids previous (v # vs) =
     rbind (check_record sha n ids previous v) (\<lambda>r.
     rbind (check_records sha (n + 1) (text_of (dget r ''event_id'') # ids) (text_of (dget r ''event_sha256'')) vs) (\<lambda>rs.
       Inr (r # rs)))"

definition read_journal :: "(string \<Rightarrow> string) \<Rightarrow> string \<Rightarrow> pydict list res" where
  "read_journal sha content =
     (if content \<noteq> [] \<and> last content \<noteq> CHR 10
        then Inl (PaperError ''journal has an incomplete/truncated trailing record; recovery fails closed'')
      else (case parse_lines (split_lines [] content) of
              None \<Rightarrow> Inl (PaperError ''journal contains invalid JSON/UTF-8: '')
            | Some vs \<Rightarrow> check_records sha 1 [] genesis_hash vs))"

text \<open>Replay: every record through the reducer, and the checkpoint compared where it was taken.\<close>

definition same_payload :: "engine \<Rightarrow> pyval \<Rightarrow> bool" where
  "same_payload e cp = (canon False (engine_payload e) = canon False cp)"

definition replay_one :: "(string \<Rightarrow> string) \<Rightarrow> engine \<Rightarrow> pydict \<Rightarrow> engine res" where
  "replay_one sha e r =
     rbind (check_event_time e (dget r ''timestamp'')) (\<lambda>_.
     rbind (reduce_record sha e r) (\<lambda>c. Inr (commit_record e r c)))"

fun replay_all :: "(string \<Rightarrow> string) \<Rightarrow> int \<Rightarrow> pyval \<Rightarrow> engine \<Rightarrow> pydict list \<Rightarrow> engine res" where
  "replay_all sha anchor cp e [] = Inr e"
| "replay_all sha anchor cp e (r # rs) =
     rbind (replay_one sha e r) (\<lambda>e'.
       if en_seq e' = anchor \<and> \<not> same_payload e' cp
       then Inl (PaperError ''checkpoint state does not match replayed journal prefix'')
       else replay_all sha anchor cp e' rs)"

definition checkpoint_keys :: "string list" where
  "checkpoint_keys =
     [''state'', ''terminal_statuses'', ''journal_seq'', ''journal_head'', ''last_timestamp'', ''blocked_reason'',
      ''discrepancies'', ''risk_limits'']"

text \<open>The document of a checkpoint: its shape, schema and checksum.\<close>

definition checkpoint_document :: "(string \<Rightarrow> string) \<Rightarrow> string \<Rightarrow> pydict res" where
  "checkpoint_document sha content =
     (case json_loads content of
        None \<Rightarrow> Inl (PaperError ''cannot read checkpoint: '')
      | Some (VDict env) \<Rightarrow>
          if \<not> keys_are env [''schema_version'', ''state_sha256'', ''engine_state'']
            then Inl (PaperError ''checkpoint envelope fields do not match schema'')
          else if \<not> py_eq (dget env ''schema_version'') (VInt 1)
            then Inl (PaperError ''unsupported paper engine checkpoint schema'')
          else (case dget env ''engine_state'' of
              VDict cp \<Rightarrow>
                if \<not> keys_are cp checkpoint_keys then Inl (PaperError ''checkpoint engine-state fields do not match schema'')
                else rbind (case json_err (VDict cp) of Some x \<Rightarrow> Inl x | None \<Rightarrow> Inr ()) (\<lambda>_.
                  if dget env ''state_sha256'' \<noteq> VStr (paper_sha sha (VDict cp))
                  then Inl (PaperError ''checkpoint checksum mismatch'') else Inr cp)
            | _ \<Rightarrow> Inl (PaperError ''checkpoint engine-state fields do not match schema''))
      | _ \<Rightarrow> Inl (PaperError ''checkpoint envelope fields do not match schema''))"

text \<open>\<^verbatim>\<open>except (ValueError, TypeError, KeyError)\<close> around the paper state of the checkpoint.\<close>

fun rewrap_state :: "'a res \<Rightarrow> 'a res" where
  "rewrap_state (Inr x) = Inr x"
| "rewrap_state (Inl (KeyError m)) = Inl (PaperError (''invalid checkpoint PaperState: '' @ m))"
| "rewrap_state (Inl e) = (if caught e then Inl (PaperError (''invalid checkpoint PaperState: '' @ exc_msg e)) else Inl e)"

definition checkpoint_seq :: "pyval \<Rightarrow> int res" where
  "checkpoint_seq v =
     (case v of
        VInt i \<Rightarrow> if i < 0 then Inl (PaperError ''checkpoint journal_seq invalid'') else Inr i
      | _ \<Rightarrow> Inl (PaperError ''checkpoint journal_seq invalid''))"

definition recover ::
    "(string \<Rightarrow> string) \<Rightarrow> string \<Rightarrow> string \<Rightarrow> pyval \<Rightarrow> pyval \<Rightarrow> risk_limits \<Rightarrow> engine res" where
  "recover sha checkpoint journal expected_source expected_config limits =
     rbind (checkpoint_document sha checkpoint) (\<lambda>cp.
     rbind (nonempty expected_source ''expected_source_sha256'') (\<lambda>src.
     rbind (nonempty expected_config ''expected_config_sha256'') (\<lambda>cfg.
     rbind (rewrap_state (from_payload (dget cp ''state''))) (\<lambda>st.
       if ps_source st \<noteq> lower src then Inl (PaperError ''checkpoint source hash mismatch'')
       else if ps_config st \<noteq> lower cfg then Inl (PaperError ''checkpoint config hash mismatch'')
       else if \<not> py_eq (dget cp ''risk_limits'') (limits_payload limits)
         then Inl (PaperError ''checkpoint risk limits mismatch'')
       else rbind (checkpoint_seq (dget cp ''journal_seq'')) (\<lambda>anchor.
         rbind (read_journal sha journal) (\<lambda>records.
           if int (length records) < anchor then Inl (PaperError ''checkpoint points beyond the durable journal'')
           else if \<not> py_eq (dget cp ''journal_head'')
                       (if anchor = 0 then VStr genesis_hash else dget (records ! nat (anchor - 1)) ''event_sha256'')
             then Inl (PaperError ''checkpoint/journal anchor mismatch'')
           else rbind (initial_state (VDec (ps_start st)) (VStr (lower src)) (VStr (lower cfg))) (\<lambda>starting.
             let e = new_engine starting limits
             in if anchor = 0 \<and> \<not> same_payload e (VDict cp)
                then Inl (PaperError ''genesis checkpoint state does not match initial state'')
                else rbind (replay_all sha anchor (VDict cp) e records) (\<lambda>e'.
                  if anchor = 0 \<and> \<not> same_payload e' (VDict cp)
                  then Inl (PaperError ''genesis checkpoint state does not match initial state'')
                  else Inr e'))))))))"

subsection \<open>Steps of the engine\<close>

datatype engine_command =
    C_Register pyval pyval pyval pyval pyval pyval
  | C_Fill pyval pyval pyval pyval pyval pyval pyval pyval pyval pyval
  | C_Cancel pyval pyval pyval pyval
  | C_Expire pyval pyval pyval pyval
  | C_Reconcile execution_snapshot pyval pyval pyval
  | C_Resolve pyval pyval pyval pyval

fun engine_step :: "(string \<Rightarrow> string) \<Rightarrow> engine \<Rightarrow> append_outcome \<times> engine_command \<Rightarrow> engine" where
  "engine_step sha e (io, C_Register eid ts oid client side0 q) = fst (engine_register sha io e eid ts oid client side0 q)"
| "engine_step sha e (io, C_Fill eid fid oid side0 q p fee spread slip ts) =
     fst (engine_fill sha io e eid fid oid side0 q p fee spread slip ts)"
| "engine_step sha e (io, C_Cancel eid ts oid why) = fst (cancel_order sha io e eid ts oid why)"
| "engine_step sha e (io, C_Expire eid ts oid why) = fst (expire_order sha io e eid ts oid why)"
| "engine_step sha e (io, C_Reconcile obs eid ts tol) = fst (engine_reconcile sha io e obs eid ts tol)"
| "engine_step sha e (io, C_Resolve eid ts ref why) = fst (resolve_divergence sha io e eid ts ref why)"

text \<open>What a command can do to the engine: nothing, a block after a failed append, or one new record.\<close>

definition advances :: "(string \<Rightarrow> string) \<Rightarrow> append_outcome \<Rightarrow> engine \<Rightarrow> engine \<Rightarrow> bool" where
  "advances sha io e e' =
     (e' = e \<or> (io \<noteq> Written \<and> e' = fst (append_record io e))
      \<or> (io = Written \<and> (\<exists>eid etype ts p allow r c. prepare_record sha e eid etype ts p allow = Inr (Inr (r, c))
           \<and> (allow \<longrightarrow> etype = ''DIVERGENCE_RESOLVED'') \<and> tidy (VDict p) \<and> e' = commit_record e r c)))"

lemma advances_same [simp]: "advances sha io e e"
  by (simp add: advances_def)

lemma record_event_advances:
  assumes "tidy (VDict p)" "allow \<longrightarrow> etype = ''DIVERGENCE_RESOLVED''"
  shows "advances sha io e (fst (record_event sha io e eid etype ts p allow))"
proof (cases "prepare_record sha e eid etype ts p allow")
  case (Inr x)
  show ?thesis
  proof (cases x)
    case (Inr y)
    then obtain r c where "prepare_record sha e eid etype ts p allow = Inr (Inr (r, c))"
      using \<open>prepare_record sha e eid etype ts p allow = Inr x\<close> by (cases y) auto
    note new = this
    show ?thesis
    proof (cases "io = Written")
      case True
      then have "fst (record_event sha io e eid etype ts p allow) = commit_record e r c"
        by (simp add: record_event_def new append_record_def)
      with new True assms show ?thesis unfolding advances_def by blast
    next
      case False
      then have "fst (record_event sha io e eid etype ts p allow) = fst (append_record io e)"
        by (cases io) (simp_all add: record_event_def new append_record_def)
      with False show ?thesis unfolding advances_def by blast
    qed
  qed (use Inr in \<open>simp add: record_event_def\<close>)
qed (simp add: record_event_def)

lemma with_payload_advances:
  assumes "\<And>a. m = Inr a \<Longrightarrow> advances sha io e (fst (f a))"
  shows "advances sha io e (fst (with_payload e m f))"
  using assms by (cases m) (simp_all add: with_payload_def)

lemma fst_recorded: "fst (recorded x) = fst x"
  by (cases x) simp

lemma tidy_payloads:
  "registration_payload ts oid client side0 q = Inr (t, p) \<Longrightarrow> tidy (VDict p)"
  "fill_payload ts fid oid side0 q pr fee spread slip = Inr (t, p) \<Longrightarrow> tidy (VDict (p @ [(''fill_seq'', VInt n)]))"
  "terminal_payload e eid ts oid why = Inr (t, od, p, key) \<Longrightarrow> tidy (VDict p)"
  "resolution_payload e eid ts ref why = Inr (t, p, key) \<Longrightarrow> tidy (VDict p)"
  by (auto simp: registration_payload_def fill_payload_def terminal_payload_def resolution_payload_def rbind_Inr_iff
      list_all_iff split: if_split_asm)

lemma tidy_snapshot: "tidy (VDict (snapshot_payload obs tol))"
  by (auto simp: snapshot_payload_def list_all_iff)

lemma fst_case_pair: "fst (case x of (a, b) \<Rightarrow> (a, g a b)) = fst x"
  by (cases x) simp

lemma engine_step_advances: "advances sha io e (engine_step sha e (io, c))"
proof (cases c)
  case (C_Register eid ts oid client side0 q)
  then show ?thesis
    by (auto simp: engine_register_def fst_recorded intro!: with_payload_advances record_event_advances dest: tidy_payloads(1) simp del: tidy.simps)
next
  case (C_Fill eid fid oid side0 q p fee spread slip ts)
  then show ?thesis
    by (auto simp: engine_fill_def fst_case_pair intro!: with_payload_advances record_event_advances split: option.split simp del: tidy.simps)
      (erule tidy_payloads(2))
next
  case (C_Reconcile obs eid ts tol)
  then show ?thesis
    by (auto simp: engine_reconcile_def fst_case_pair rbind_Inr_iff tidy_snapshot intro!: with_payload_advances record_event_advances simp del: tidy.simps)
next
  case (C_Resolve eid ts ref why)
  then show ?thesis
    by (auto simp: resolve_divergence_def fst_recorded intro!: with_payload_advances record_event_advances
        split: option.split dest: tidy_payloads(4) simp del: tidy.simps)
next
  case (C_Cancel eid ts oid why)
  then show ?thesis
    by (auto simp: cancel_order_def terminal_transition_def fst_recorded
      intro!: with_payload_advances record_event_advances split: option.split simp del: tidy.simps) (erule tidy_payloads(3))
next
  case (C_Expire eid ts oid why)
  then show ?thesis
    by (auto simp: expire_order_def terminal_transition_def fst_recorded
      intro!: with_payload_advances record_event_advances split: option.split simp del: tidy.simps) (erule tidy_payloads(3))
qed

subsection \<open>A new record\<close>

lemma update_new: "map_of al k = None \<Longrightarrow> AList.update k v al = al @ [(k, v)]"
  by (induction al) (auto split: if_split_asm)

lemma event_record_fields:
  "dget (event_record sha e eid etype ts p) ''journal_seq'' = VInt (en_seq e + 1)"
  "dget (event_record sha e eid etype ts p) ''event_id'' = VStr eid"
  "dget (event_record sha e eid etype ts p) ''event_type'' = VStr etype"
  "dget (event_record sha e eid etype ts p) ''timestamp'' = VStr ts"
  "dget (event_record sha e eid etype ts p) ''payload'' = VDict p"
  "dget (event_record sha e eid etype ts p) ''prev_sha256'' = VStr (en_head e)"
  "dget (event_record sha e eid etype ts p) ''event_sha256'' = VStr (paper_sha sha (VDict (event_base e eid etype ts p)))"
  by (simp_all add: event_record_def event_base_def dget_def)

lemma prepare_new:
  assumes "prepare_record sha e eid0 etype ts0 p allow = Inr (Inr (r, c))"
  obtains eid t where "nonempty eid0 ''event_id'' = Inr eid" "normalize_timestamp (VStr t) = Inr t" "etype \<in> set supported_events"
    "map_of (en_events e) eid = None" "check_event_time e (VStr t) = Inr t" "r = event_record sha e eid etype t p"
    "reduce_record sha e r = Inr c" "allow \<or> en_blocked e = None"
proof -
  from assms obtain eid ts prior where s: "nonempty eid0 ''event_id'' = Inr eid" "etype \<in> set supported_events"
    "existing_event e eid etype ts p (if etype = ''FILL_APPLIED'' then [''fill_seq''] else []) = Inr prior"
    and r: "(case prior of
           Some _ \<Rightarrow>
             if etype = ''FILL_APPLIED''
               then rbind (repeated_fill e (dget p ''order_id'')) (\<lambda>a. Inr (Inl (Filled a)))
             else if etype = ''SNAPSHOT_RECONCILED''
               then rbind (make_reconciliation_report e p) (\<lambda>r. Inr (Inl (Reported r)))
             else Inr (Inl No_Result)
         | None \<Rightarrow>
             rbind (if allow then Inr () else check_unblocked e) (\<lambda>_.
             rbind (check_event_time e (VStr ts)) (\<lambda>t.
               let r = event_record sha e eid etype t p
               in rbind (reduce_record sha e r) (\<lambda>c. Inr (Inr (r, c)))))) = Inr (Inr (r, c))"
    unfolding prepare_record_def opened by (elim exE conjE) (rule that; simp)
  from r have n: "prior = None" by (cases prior) (auto simp: rbind_Inr_iff split: if_split_asm)
  with s(3) have m: "map_of (en_events e) eid = None"
    by (auto simp: existing_event_def Let_def split: option.split_asm if_split_asm)
  from r n obtain t where t: "check_event_time e (VStr ts) = Inr t" "r = event_record sha e eid etype t p"
    "reduce_record sha e r = Inr c" "(if allow then Inr () else check_unblocked e) = Inr ()"
    by (auto simp: rbind_Inr_iff Let_def)
  from t(1) obtain t0 where "normalize_timestamp (VStr ts) = Inr t0" "t0 = t"
    and late: "\<not> (case en_last_ts e of None \<Rightarrow> False | Some l \<Rightarrow> t < l)"
    by (auto simp: check_event_time_def event_timestamp_def rbind_Inr_iff rewrap_Inr_iff split: if_split_asm)
  then have i: "normalize_timestamp (VStr t) = Inr t" using normalize_timestamp_idem by blast
  then have "check_event_time e (VStr t) = Inr t" using late by (simp add: check_event_time_def event_timestamp_def)
  moreover have "allow \<or> en_blocked e = None" using t(4) by (auto simp: check_unblocked_def split: option.split_asm if_split_asm)
  ultimately show thesis using that s(1,2) m i t(2,3) by blast
qed

text \<open>Replaying the record gives the engine that wrote it, and the journal grows by that record.\<close>

lemma prepare_replays:
  assumes "prepare_record sha e eid0 etype ts0 p allow = Inr (Inr (r, c))"
  shows "replay_one sha e r = Inr (commit_record e r c)"
    and "map snd (en_events (commit_record e r c)) = map snd (en_events e) @ [r]"
    and "en_seq (commit_record e r c) = en_seq e + 1"
  using assms by (elim prepare_new; simp add: replay_one_def event_record_fields commit_record_def update_new)+

subsection \<open>What a candidate does to the paper state\<close>

lemma reduce_state:
  assumes "reduce_record sha e r = Inr c"
  obtains (same) "cd_state c = en_state e"
  | (moved) pc where "paper_step sha (en_state e) pc = Inr (cd_state c)" "cd_statuses c = en_statuses e"
proof -
  from assms obtain p etype where r: "dget r ''payload'' = VDict p" "dget r ''event_type'' = VStr etype"
    by (auto simp: reduce_record_def split: pyval.split_asm)
  note s = assms [unfolded reduce_record_def r prod.case pyval.case]
  consider (reg) "reduce_registration e p = Inr c" | (fill) "reduce_fill sha e p (dget r ''timestamp'') = Inr c"
    | (other) "reduce_terminal etype e p = Inr c \<or> reduce_snapshot e p (dget r ''journal_seq'') = Inr c \<or> reduce_resolution e p = Inr c"
    using s by (auto split: if_split_asm)
  then show thesis
  proof cases
    case reg
    then obtain st where "register_order (en_state e) (dget p ''order_id'') (dget p ''client_order_id'') (dget p ''side'')
        (dget p ''quantity'') = Inr st" "c = (unchanged e)\<lparr>cd_state := st\<rparr>"
      by (auto simp: reduce_registration_def rbind_Inr_iff split: if_split_asm)
    then show thesis
      using moved [of "Submit (dget p ''order_id'') (dget p ''client_order_id'') (dget p ''side'') (dget p ''quantity'')"]
      by (simp add: unchanged_def)
  next
    case fill
    then obtain ev x where ev: "mk_fill_event (dget p ''fill_id'') (dget p ''order_id'') (dget p ''side'') (dget p ''quantity'')
            (dget p ''price'') (dget p ''fee'') (dget p ''spread_cost'') (dget p ''slippage_cost'')
            (dget p ''timestamp'') (dget p ''fill_seq'') = Inr ev"
      "rewrap_fill (apply_fill sha (en_state e) ev) = Inr x"
      "(case x of (st, a) \<Rightarrow> if \<not> fa_applied a
             then Inl (PaperError ''journal contains a duplicate fill record instead of a no-op command'')
             else Inr ((unchanged e)\<lparr>cd_state := st, cd_result := Filled a\<rparr>)) = Inr c"
      by (auto simp: reduce_fill_def rbind_Inr_iff split: if_split_asm option.split_asm)
    have "rewrap_fill m = Inr y \<Longrightarrow> m = Inr y" for m :: "(paper_state \<times> fill_application) res" and y
      by (cases m rule: rewrap_fill.cases) auto
    with ev have "apply_fill sha (en_state e) ev = Inr x" by blast
    with ev show thesis
      using moved [of "Deliver (dget p ''fill_id'') (dget p ''order_id'') (dget p ''side'') (dget p ''quantity'')
            (dget p ''price'') (dget p ''fee'') (dget p ''spread_cost'') (dget p ''slippage_cost'')
            (dget p ''timestamp'') (dget p ''fill_seq'')"]
      by (cases x) (auto simp: unchanged_def split: if_split_asm)
  next
    case other
    then have "cd_state c = en_state e"
      by (auto simp: reduce_terminal_def reduce_snapshot_def reduce_resolution_def unchanged_def rbind_Inr_iff
          split: if_split_asm option.split_asm)
    then show thesis by (rule same)
  qed
qed

lemma reduce_run_ok: "paper_run_ok (en_state e) \<Longrightarrow> reduce_record sha e r = Inr c \<Longrightarrow> paper_run_ok (cd_state c)"
  by (erule reduce_state) (auto intro: paper_step_run_ok)

lemma append_fields [simp]:
  "en_state (fst (append_record io e)) = en_state e" "en_statuses (fst (append_record io e)) = en_statuses e"
  "en_events (fst (append_record io e)) = en_events e" "en_seq (fst (append_record io e)) = en_seq e"
  "en_head (fst (append_record io e)) = en_head e" "en_limits (fst (append_record io e)) = en_limits e"
  by (cases io; simp add: append_record_def)+

subsection \<open>The chain of digests\<close>

definition record_base :: "string \<Rightarrow> pydict \<Rightarrow> pydict" where
  "record_base previous r =
     [(''journal_seq'', dget r ''journal_seq''), (''event_id'', dget r ''event_id''), (''event_type'', dget r ''event_type''),
      (''timestamp'', dget r ''timestamp''), (''payload'', dget r ''payload''), (''prev_sha256'', VStr previous)]"

definition record_cover :: "string \<Rightarrow> pydict \<Rightarrow> string" where
  "record_cover previous r = canon False (VDict (record_base previous r))"

definition record_body :: "pydict \<Rightarrow> pyval list" where
  "record_body r = map (\<lambda>k. key_sorted (dget r k)) [''journal_seq'', ''event_id'', ''event_type'', ''timestamp'', ''payload'']"

definition record_valid :: "pydict \<Rightarrow> bool" where
  "record_valid r = list_all (\<lambda>k. tidy (dget r k)) [''journal_seq'', ''event_id'', ''event_type'', ''timestamp'', ''payload'']"

interpretation jc: hash_chain sha record_cover record_body record_valid for sha :: "string \<Rightarrow> string"
proof unfold_locales
  fix r r' p q
  assume v: "record_valid r" "record_valid r'" and c: "record_cover p r = record_cover q r'"
  have d: "distinct (map fst (record_base p r))" "distinct (map fst (record_base q r'))" by (simp_all add: record_base_def)
  have "tidy (VDict (record_base p r))" "tidy (VDict (record_base q r'))"
    using v by (simp_all add: record_valid_def record_base_def)
  from canon_inj [OF this] c have "key_sorted (VDict (record_base p r)) = key_sorted (VDict (record_base q r'))"
    by (simp add: record_cover_def)
  then have "map_option key_sorted (map_of (record_base p r) k) = map_option key_sorted (map_of (record_base q r') k)" for k
    using key_sorted_lookup [OF d(1), of k] key_sorted_lookup [OF d(2), of k] by simp
  from this [of "''journal_seq''"] this [of "''event_id''"] this [of "''event_type''"] this [of "''timestamp''"]
    this [of "''payload''"] this [of "''prev_sha256''"]
  show "p = q \<and> record_body r = record_body r'" by (simp add: record_base_def record_body_def)
qed

text \<open>What holds of an engine and its journal: positions, ids, digests, and the paper state.\<close>

definition journal_ok :: "(string \<Rightarrow> string) \<Rightarrow> engine \<Rightarrow> bool" where
  "journal_ok sha e =
     (en_seq e = int (length (en_events e)) \<and> distinct (map fst (en_events e))
      \<and> list_all record_valid (map snd (en_events e))
      \<and> en_head e = chain_from (jc.link sha) genesis_hash (map snd (en_events e))
      \<and> paper_run_ok (en_state e))"

lemma prepare_ok:
  assumes "journal_ok sha e" "prepare_record sha e eid etype ts p allow = Inr (Inr (r, c))" "tidy (VDict p)"
  shows "journal_ok sha (commit_record e r c)"
  using assms(2)
proof (rule prepare_new)
  fix id t
  assume p: "map_of (en_events e) id = None" "r = event_record sha e id etype t p" "reduce_record sha e r = Inr c"
  have ev: "en_events (commit_record e r c) = en_events e @ [(id, r)]"
    by (simp add: commit_record_def p(2) event_record_fields update_new p(1))
  have new: "id \<notin> fst ` set (en_events e)" using p(1) by (metis map_of_eq_None_iff)
  have v: "record_valid r" using assms(3) by (simp add: record_valid_def p(2) event_record_fields)
  have "record_cover (en_head e) r = canon False (VDict (event_base e id etype t p))"
    unfolding record_cover_def record_base_def p(2) event_record_fields event_base_def ..
  then have h: "en_head (commit_record e r c) = jc.link sha (en_head e) r"
    by (simp add: commit_record_def p(2) event_record_fields jc.link_def paper_sha_def)
  have "paper_run_ok (en_state (commit_record e r c))"
    using reduce_run_ok [OF _ p(3)] assms(1) by (simp add: commit_record_def journal_ok_def)
  moreover have "en_seq (commit_record e r c) = en_seq e + 1"
    by (simp add: commit_record_def p(2) event_record_fields)
  ultimately show ?thesis
    using assms(1) new v by (simp add: journal_ok_def ev h chain_from_append)
qed

lemma step_journal_ok: "journal_ok sha e \<Longrightarrow> journal_ok sha (engine_step sha e c)"
proof -
  assume ok: "journal_ok sha e"
  obtain io cmd where c: "c = (io, cmd)" by (cases c)
  from engine_step_advances [of sha io e cmd] show ?thesis
    unfolding advances_def c using ok prepare_ok [OF ok] by (auto simp: journal_ok_def)
qed

interpretation je: counted_machine "\<lambda>e c. Inr (engine_step sha e c)" "journal_ok sha" en_seq for sha
proof unfold_locales
  fix e c e'
  assume "journal_ok sha e" and s: "Inr (engine_step sha e c) = Inr e'"
  then show "journal_ok sha e'" using step_journal_ok [of sha e c] by simp
  obtain io cmd where c: "c = (io, cmd)" by (cases c)
  from engine_step_advances [of sha io e cmd] prepare_replays(3) [of sha e] s
  show "en_seq e' = en_seq e \<or> en_seq e' = en_seq e + 1"
    unfolding advances_def c by fastforce
qed

lemma try_total: "foldl (try_step (\<lambda>e c. Inr (f e c))) e cs = foldl f e cs"
  by (induction cs arbitrary: e) (simp_all add: try_step_def)

lemma new_engine_ok: "paper_run_ok st \<Longrightarrow> journal_ok sha (new_engine st limits)"
  by (simp add: journal_ok_def new_engine_def)

lemma engine_run_ok: "paper_run_ok st \<Longrightarrow> journal_ok sha (foldl (engine_step sha) (new_engine st limits) cs)"
  using je.tries_good [OF new_engine_ok, of st sha limits cs] by (simp add: try_total)

subsection \<open>Orders that are terminal\<close>

lemma find_order_replace:
  "p_id od \<noteq> oid \<Longrightarrow> find_order oid (replace_order od ods) = find_order oid ods"
  by (induction ods) (auto simp: find_order_def replace_order_def)

lemma payload_order_find: "payload_order e p = Some od \<Longrightarrow> dget p ''order_id'' = VStr (p_id od) \<and> od \<in> set (ps_orders (en_state e))"
  by (auto simp: payload_order_def dest: find_Some_set)

lemma mk_fill_event_order: "mk_fill_event f1 (VStr i) s1 q p c1 c2 c3 t n = Inr ev \<Longrightarrow> fe_order ev = i"
  by (auto simp: mk_fill_event_def opened Let_def)

lemma register_keeps_orders:
  assumes "paper_ok st" "register_order st oid client side0 q = Inr st'" "find_order i (ps_orders st) = Some od"
  shows "find_order i (ps_orders st') = Some od"
  using assms(1,2) by (cases rule: register_order_cases) (use assms(3) in \<open>simp_all add: find_order_def find_append\<close>)

lemma fill_other_orders:
  assumes "paper_ok st" "fill_fine ev" "apply_fill sha st ev = Inr (st', a)" "fe_order ev \<noteq> i"
  shows "find_order i (ps_orders st') = find_order i (ps_orders st)"
  using assms(3)
proof (cases rule: apply_fill_new)
  case (new od)
  then have od: "od \<in> set (ps_orders st)" "p_id od = fe_order ev" by (auto dest: find_order_in)
  from apply_new_fill_parts [OF assms(1,2) od(1) new(3)] show ?thesis
    by cases (use od assms(4) in \<open>simp add: find_order_replace\<close>)
qed simp

lemma reduce_fill_parts:
  assumes "reduce_fill sha e p ts = Inr c"
  obtains od ev st a where "payload_order e p = Some od" "p_id od \<notin> fst ` set (en_statuses e)" "fill_fine ev"
    "fe_order ev = p_id od" "apply_fill sha (en_state e) ev = Inr (st, a)" "c = (unchanged e)\<lparr>cd_state := st, cd_result := Filled a\<rparr>"
proof -
  from assms obtain od where od: "payload_order e p = Some od" "p_id od \<notin> fst ` set (en_statuses e)"
    by (auto simp: reduce_fill_def split: if_split_asm option.split_asm)
  with assms obtain ev x where ev: "mk_fill_event (dget p ''fill_id'') (dget p ''order_id'') (dget p ''side'') (dget p ''quantity'')
            (dget p ''price'') (dget p ''fee'') (dget p ''spread_cost'') (dget p ''slippage_cost'')
            (dget p ''timestamp'') (dget p ''fill_seq'') = Inr ev"
      "rewrap_fill (apply_fill sha (en_state e) ev) = Inr x"
      "(case x of (st, a) \<Rightarrow> if \<not> fa_applied a
             then Inl (PaperError ''journal contains a duplicate fill record instead of a no-op command'')
             else Inr ((unchanged e)\<lparr>cd_state := st, cd_result := Filled a\<rparr>)) = Inr c"
    by (auto simp: reduce_fill_def rbind_Inr_iff split: if_split_asm)
  have "rewrap_fill m = Inr y \<Longrightarrow> m = Inr y" for m :: "(paper_state \<times> fill_application) res" and y
    by (cases m rule: rewrap_fill.cases) auto
  with ev(2) have ap: "apply_fill sha (en_state e) ev = Inr x" by blast
  obtain st a where x: "x = (st, a)" by (cases x)
  have "fe_order ev = p_id od" using ev(1) payload_order_find [OF od(1)] mk_fill_event_order by metis
  with od ev(3) ap x show thesis
    by (intro that [OF od mk_fill_event_fine [OF ev(1)]]) (auto split: if_split_asm)
qed

lemma status_lookup: "oid \<in> fst ` set al \<longleftrightarrow> map_of al oid \<noteq> None"
  by (metis map_of_eq_None_iff)

lemma reduce_frozen:
  assumes "paper_ok (en_state e)" "reduce_record sha e r = Inr c" "map_of (en_statuses e) oid = Some s"
    and "find_order oid (ps_orders (en_state e)) = Some od"
  shows "map_of (cd_statuses c) oid = Some s \<and> find_order oid (ps_orders (cd_state c)) = Some od"
proof -
  from assms(2) obtain p etype where r: "dget r ''payload'' = VDict p" "dget r ''event_type'' = VStr etype"
    by (auto simp: reduce_record_def split: pyval.split_asm)
  note s = assms(2) [unfolded reduce_record_def r prod.case pyval.case]
  consider (reg) "reduce_registration e p = Inr c" | (fill) "reduce_fill sha e p (dget r ''timestamp'') = Inr c"
    | (ended) "reduce_terminal etype e p = Inr c"
    | (other) "reduce_snapshot e p (dget r ''journal_seq'') = Inr c \<or> reduce_resolution e p = Inr c"
    using s by (auto split: if_split_asm)
  then show ?thesis
  proof cases
    case reg
    then obtain st where "register_order (en_state e) (dget p ''order_id'') (dget p ''client_order_id'') (dget p ''side'')
        (dget p ''quantity'') = Inr st" "c = (unchanged e)\<lparr>cd_state := st\<rparr>"
      by (auto simp: reduce_registration_def rbind_Inr_iff split: if_split_asm)
    with register_keeps_orders [OF assms(1) this(1) assms(4)] assms(3) show ?thesis by (simp add: unchanged_def)
  next
    case fill
    then obtain od' ev st a where f: "payload_order e p = Some od'" "p_id od' \<notin> fst ` set (en_statuses e)" "fill_fine ev"
      "fe_order ev = p_id od'" "apply_fill sha (en_state e) ev = Inr (st, a)" "c = (unchanged e)\<lparr>cd_state := st, cd_result := Filled a\<rparr>"
      by (rule reduce_fill_parts)
    from f(2,4) assms(3) have "fe_order ev \<noteq> oid" by (auto simp: status_lookup)
    with fill_other_orders [OF assms(1) f(3,5)] f(6) assms(3,4) show ?thesis by (simp add: unchanged_def)
  next
    case ended
    then obtain od' where od': "payload_order e p = Some od'" "p_id od' \<notin> fst ` set (en_statuses e)"
      by (auto simp: reduce_terminal_def split: if_split_asm option.split_asm)
    with ended have "cd_statuses c = AList.update (p_id od') (if etype = ''ORDER_CANCELLED'' then ''CANCELLED'' else ''EXPIRED'')
        (en_statuses e) \<and> cd_state c = en_state e"
      by (auto simp: reduce_terminal_def rbind_Inr_iff unchanged_def split: if_split_asm)
    moreover from od'(2) assms(3) have "p_id od' \<noteq> oid" by (auto simp: status_lookup)
    ultimately show ?thesis using assms(3,4) by (simp add: update_conv')
  next
    case other
    then show ?thesis
      using assms(3,4) by (auto simp: reduce_snapshot_def reduce_resolution_def unchanged_def rbind_Inr_iff split: if_split_asm)
  qed
qed

lemma step_frozen:
  assumes "journal_ok sha e" "map_of (en_statuses e) oid = Some s" "find_order oid (ps_orders (en_state e)) = Some od"
  shows "map_of (en_statuses (engine_step sha e (io, cmd))) oid = Some s
    \<and> find_order oid (ps_orders (en_state (engine_step sha e (io, cmd)))) = Some od"
proof -
  have pk: "paper_ok (en_state e)" using assms(1) by (simp add: journal_ok_def paper_run_ok_def)
  from engine_step_advances [of sha io e cmd] show ?thesis
    unfolding advances_def
  proof (elim disjE conjE exE)
    fix eid etype ts p allow r cd
    assume p: "prepare_record sha e eid etype ts p allow = Inr (Inr (r, cd))" "engine_step sha e (io, cmd) = commit_record e r cd"
    from p(1) have "reduce_record sha e r = Inr cd" by (rule prepare_new) blast
    from reduce_frozen [OF pk this assms(2,3)] show ?thesis by (simp add: p(2) commit_record_def)
  qed (use assms in simp_all)
qed

subsection \<open>Properties\<close>

lemma journal_replays:
  assumes "list_all (\<lambda>(io, c). io = Written \<or> (\<exists>m. io = Lock_Held m)) cs"
    and "e = foldl (engine_step sha) (new_engine st limits) cs"
  shows "run_steps (replay_one sha) (new_engine st limits) (map snd (en_events e)) = Inr e"
  using assms
proof (induction cs arbitrary: e rule: rev_induct)
  case Nil
  then show ?case by (simp add: new_engine_def)
next
  case (snoc x cs)
  obtain io c where x: "x = (io, c)" by (cases x)
  define f where "f = foldl (engine_step sha) (new_engine st limits) cs"
  have ih: "run_steps (replay_one sha) (new_engine st limits) (map snd (en_events f)) = Inr f"
    using snoc.IH [OF _ f_def] snoc.prems(1) by simp
  from snoc.prems have e: "e = engine_step sha f (io, c)" and io: "io = Written \<or> (\<exists>m. io = Lock_Held m)"
    by (simp_all add: f_def x)
  then have "fst (append_record io f) = f" by (auto simp: append_record_def)
  with engine_step_advances [of sha io f c] consider "e = f"
    | eid etype ts p allow r d where "prepare_record sha f eid etype ts p allow = Inr (Inr (r, d))" "e = commit_record f r d"
    unfolding advances_def e by metis
  then show ?case
  proof cases
    case 2
    from prepare_replays [OF 2(1)] ih show ?thesis by (simp add: 2(2) run_steps_snoc)
  qed (use ih in simp)
qed

text \<open>C22: The journal rebuilds the engine: whatever commands were given, accepted or refused, with every append
  written or refused because another writer holds the lock, running the records from the genesis state
  through the reducer gives the live engine back, field for field.\<close>

theorem journal_replays_engine:
  assumes "list_all (\<lambda>(io, c). io = Written \<or> (\<exists>m. io = Lock_Held m)) cs"
    and "e = foldl (engine_step sha) (new_engine st limits) cs"
  shows "run_steps (replay_one sha) (new_engine st limits) (map snd (en_events e)) = Inr e"
  using assms by (rule journal_replays)

text \<open>C23: The head of the chain identifies the journal: two engines that recorded the same number of events and
  have the same head recorded the same events with the same contents in the same order, or the hash function collides on
  the very texts that were hashed into the two chains at some position, which are then different texts with one digest.\<close>

theorem head_identifies_journal:
  assumes "paper_run_ok st" "paper_run_ok st'" "e = foldl (engine_step sha) (new_engine st limits) cs"
    and "e' = foldl (engine_step sha) (new_engine st' limits') cs'" "en_seq e = en_seq e'" "en_head e = en_head e'"
  shows "map (record_body \<circ> snd) (en_events e) = map (record_body \<circ> snd) (en_events e')
    \<or> (\<exists>i < length (en_events e).
         let t = chain_texts record_cover sha genesis_hash (map snd (en_events e)) ! i;
             t' = chain_texts record_cover sha genesis_hash (map snd (en_events e')) ! i
         in t \<noteq> t' \<and> sha t = sha t')"
proof -
  have ok: "journal_ok sha e" "journal_ok sha e'" using assms(1-4) engine_run_ok by auto
  then have "length (map snd (en_events e)) = length (map snd (en_events e'))"
    using assms(5) by (simp add: journal_ok_def)
  from jc.same_end_same_log [OF this, of sha genesis_hash genesis_hash] ok assms(6) show ?thesis
    unfolding Let_def by (auto simp: journal_ok_def jc.collision_def)
qed

text \<open>C24: Through any commands and append outcomes, the paper state keeps its invariant, the sequence number counts
  the records and never falls, no event id occurs twice, and an order that was cancelled or expired stays
  as it is: neither its terminal status nor a field of the order changes.\<close>

theorem engine_invariant:
  assumes "paper_run_ok st" "e = foldl (engine_step sha) (new_engine st limits) cs"
    and "e' = foldl (engine_step sha) e ds"
  shows "paper_run_ok (en_state e') \<and> en_seq e' = int (length (en_events e')) \<and> distinct (map fst (en_events e'))
    \<and> en_seq e \<le> en_seq e'
    \<and> (\<forall>oid s od. map_of (en_statuses e) oid = Some s \<longrightarrow> find_order oid (ps_orders (en_state e)) = Some od
        \<longrightarrow> map_of (en_statuses e') oid = Some s \<and> find_order oid (ps_orders (en_state e')) = Some od)"
proof -
  have ok: "journal_ok sha e" "journal_ok sha e'"
    using assms engine_run_ok [OF assms(1), of sha limits cs] engine_run_ok [OF assms(1), of sha limits "cs @ ds"] by auto
  have "en_seq e \<le> en_seq e'"
    using je.tries_seq [OF ok(1), of ds] by (simp add: try_total assms(3))
  moreover have "map_of (en_statuses (foldl (engine_step sha) g ds)) oid = Some s
      \<and> find_order oid (ps_orders (en_state (foldl (engine_step sha) g ds))) = Some od"
    if "journal_ok sha g" "map_of (en_statuses g) oid = Some s" "find_order oid (ps_orders (en_state g)) = Some od" for g oid s od
    using that
  proof (induction ds arbitrary: g)
    case (Cons d ds)
    obtain io c where "d = (io, c)" by (cases d)
    with step_frozen [OF Cons.prems, of io c] step_journal_ok [OF Cons.prems(1), of d] Cons.IH show ?case by simp
  qed simp
  ultimately show ?thesis using ok by (simp add: journal_ok_def assms(3))
qed

lemma resolve_step:
  assumes "engine_step sha e (Written, C_Resolve eid ts ref why) = e'" "e' \<noteq> e"
  obtains key t p r c where "en_blocked e \<noteq> None" "e' = commit_record e r c"
    "prepare_record sha e (VStr key) ''DIVERGENCE_RESOLVED'' (VStr t) p True = Inr (Inr (r, c))"
proof -
  from assms obtain t p key where r: "en_blocked e \<noteq> None"
    "fst (record_event sha Written e (VStr key) ''DIVERGENCE_RESOLVED'' (VStr t) p True) = e'"
    by (auto simp: resolve_divergence_def with_payload_def fst_recorded split: sum.split_asm option.split_asm if_split_asm)
  with assms(2) obtain r' c where "prepare_record sha e (VStr key) ''DIVERGENCE_RESOLVED'' (VStr t) p True = Inr (Inr (r', c))"
    "e' = commit_record e r' c"
    by (auto simp: record_event_def append_record_def split: sum.split_asm)
  with r(1) show thesis by (intro that)
qed

lemma resolution_without_block:
  assumes "dget r ''payload'' = VDict p" "dget r ''event_type'' = VStr ''DIVERGENCE_RESOLVED''" "\<not> is_blocked e"
  shows "\<exists>x. reduce_record sha e r = Inl x"
  using assms by (simp add: reduce_record_def reduce_resolution_def)

text \<open>C25: A resolution that unblocks the engine after a failed append poisons the journal: the record is written, the
  engine goes on, but the journal no longer replays, because on replay there is no divergence to resolve.\<close>

theorem resolution_of_failure_unrecoverable:
  assumes "list_all (\<lambda>(io, c). io = Written \<or> (\<exists>m. io = Lock_Held m)) cs"
    and "e = foldl (engine_step sha) (new_engine st limits) cs" "en_blocked e = None"
    and "e1 = engine_step sha e (Device_Failed m, c)" "e2 = engine_step sha e1 (Written, C_Resolve eid ts ref why)" "e2 \<noteq> e1"
  shows "en_blocked e2 = None \<and> (\<exists>x. run_steps (replay_one sha) (new_engine st limits) (map snd (en_events e2)) = Inl x)"
proof -
  from resolve_step [OF assms(5) [symmetric] assms(6)] obtain key t p r d where b: "en_blocked e1 \<noteq> None"
    and e2: "e2 = commit_record e1 r d"
    and pr: "prepare_record sha e1 (VStr key) ''DIVERGENCE_RESOLVED'' (VStr t) p True = Inr (Inr (r, d))" .
  from engine_step_advances [of sha "Device_Failed m" e c] b assms(3) have e1: "e1 = fst (append_record (Device_Failed m) e)"
    unfolding advances_def assms(4) [symmetric] by auto
  from pr obtain id t' where r: "r = event_record sha e1 id ''DIVERGENCE_RESOLVED'' t' p" "reduce_record sha e1 r = Inr d"
    by (rule prepare_new)
  have rf: "dget r ''payload'' = VDict p" "dget r ''event_type'' = VStr ''DIVERGENCE_RESOLVED''"
    by (simp_all add: r(1) event_record_fields)
  from r(2) rf have "reduce_resolution e1 p = Inr d" by (simp add: reduce_record_def split: if_split_asm)
  then have "cd_blocked d = None" by (auto simp: reduce_resolution_def rbind_Inr_iff split: if_split_asm)
  then have un: "en_blocked e2 = None" by (simp add: e2 commit_record_def)
  obtain x where "reduce_record sha e r = Inl x"
    using resolution_without_block [OF rf, of e sha] assms(3) by (auto simp: is_blocked_def)
  then have "\<exists>x. replay_one sha e r = Inl x" by (cases "check_event_time e (dget r ''timestamp'')") (simp_all add: replay_one_def)
  moreover have "map snd (en_events e2) = map snd (en_events e) @ [r]"
    using prepare_replays(2) [OF pr] by (simp add: e2 e1)
  ultimately have "\<exists>x. run_steps (replay_one sha) (new_engine st limits) (map snd (en_events e2)) = Inl x"
    using journal_replays [OF assms(1,2)] by (auto simp: run_steps_snoc)
  with un show ?thesis by blast
qed

lemma scaled_int:
  assumes "m * a = nat \<bar>n\<bar> * (b :: nat)" "b \<noteq> 0" "s = (n < 0) \<or> m = 0" "a \<noteq> 0"
  shows "(if s then - int (m * a div b) else int (m * a div b)) = n"
proof -
  have "m * a div b = nat \<bar>n\<bar>" using assms(1,2) by simp
  moreover have "n = 0" if "m = 0" using assms(1,2) that by simp
  ultimately show ?thesis using assms(3) by auto
qed

lemma py_eq_int_in:
  assumes "py_eq v (VInt n)"
  shows "int_in v = n"
proof (cases v)
  case (VFloat x)
  then obtain s m e where x: "x = Flt s m e" using assms by (cases x) (auto simp: py_eq.simps)
  from assms have q: "m * 2 ^ nat e = nat \<bar>n\<bar> * 2 ^ nat (- e)" "s = (n < 0) \<or> m = 0" by (simp_all add: VFloat x py_eq.simps)
  from scaled_int [OF q(1) _ q(2)] show ?thesis by (simp only: VFloat x int_in.simps fl_trunc.simps sum.case fl_int_def) simp
next
  case (VDec d)
  have "(if dneg d then - int (dcoef d * 10 ^ nat (dexp d) div 10 ^ nat (- dexp d)) else int (dcoef d * 10 ^ nat (dexp d) div 10 ^ nat (- dexp d))) = n"
    using scaled_int [of "dcoef d" "10 ^ nat (dexp d)" n "10 ^ nat (- dexp d)" "dneg d"] assms by (simp add: VDec py_eq.simps)
  then show ?thesis by (cases "0 \<le> dexp d") (auto simp: VDec int_of_dec_def Let_def split: if_split_asm)
qed (use assms in \<open>auto simp: py_eq.simps split: if_split_asm\<close>)

lemma check_records_last:
  assumes "check_records sha n ids previous vs = Inr rs" "rs \<noteq> []"
  shows "int_in (dget (last rs) ''journal_seq'') = n + int (length rs) - 1"
  using assms
proof (induction vs arbitrary: n ids previous rs)
  case (Cons v vs)
  then obtain r rs' where r: "check_record sha n ids previous v = Inr r"
    "check_records sha (n + 1) (text_of (dget r ''event_id'') # ids) (text_of (dget r ''event_sha256'')) vs = Inr rs'" "rs = r # rs'"
    by (auto simp: rbind_Inr_iff)
  have "py_eq (dget r ''journal_seq'') (VInt n)"
    using r(1) by (auto simp: check_record_def rbind_Inr_iff split: pyval.split_asm if_split_asm)
  with Cons.IH [OF r(2)] py_eq_int_in r(3) show ?case by (cases "rs' = []") auto
qed simp

lemma replay_one_fields: "replay_one sha e r = Inr e' \<Longrightarrow> en_seq e' = int_in (dget r ''journal_seq'')"
  by (auto simp: replay_one_def rbind_Inr_iff commit_record_def)

lemma replay_all_fields:
  assumes "replay_all sha anchor cp e rs = Inr e'" "rs \<noteq> []"
  shows "en_seq e' = int_in (dget (last rs) ''journal_seq'')"
  using assms
proof (induction rs arbitrary: e)
  case (Cons r rs)
  then obtain f where f: "replay_one sha e r = Inr f" "replay_all sha anchor cp f rs = Inr e'"
    by (auto simp: rbind_Inr_iff split: if_split_asm)
  show ?case
  proof (cases rs)
    case Nil
    with f replay_one_fields [OF f(1)] show ?thesis by simp
  qed (use f(2) Cons.IH in auto)
qed simp

lemma replay_all_ok: "replay_all sha anchor cp e rs = Inr e' \<Longrightarrow> paper_run_ok (en_state e) \<Longrightarrow> paper_run_ok (en_state e')"
proof (induction rs arbitrary: e)
  case (Cons r rs)
  then obtain f where f: "replay_one sha e r = Inr f" "replay_all sha anchor cp f rs = Inr e'"
    by (auto simp: rbind_Inr_iff split: if_split_asm)
  from f(1) Cons.prems(2) have "paper_run_ok (en_state f)"
    by (auto simp: replay_one_def rbind_Inr_iff commit_record_def dest: reduce_run_ok)
  with f(2) Cons.IH show ?case by blast
qed simp

lemma tidy_engine_payload: "paper_run_ok (en_state e) \<Longrightarrow> tidy (engine_payload e)"
proof -
  assume "paper_run_ok (en_state e)"
  then have "tidy (to_payload (en_state e))" by (simp add: tidy_payload paper_run_ok_def)
  moreover have "tidy (opt_str x)" for x by (cases x) simp_all
  moreover have "tidy (VList (map (\<lambda>(oid, s). VDict [(''order_id'', VStr oid), (''status'', VStr s)]) al))" for al
    by (auto simp: list_all_iff)
  moreover have "tidy (VList (map VStr xs))" for xs by (simp add: list_all_iff)
  ultimately show ?thesis by (simp add: engine_payload_def limits_payload_def del: tidy.simps(3))
qed

lemma same_payload_seq:
  assumes "paper_run_ok (en_state e)" "paper_run_ok (en_state f)" "same_payload e cp" "same_payload f cp"
  shows "en_seq e = en_seq f"
proof -
  define d where "d = (\<lambda>e. as_dict (engine_payload e))"
  have dd: "engine_payload g = VDict (d g)" "distinct (map fst (d g))" "map_of (d g) ''journal_seq'' = Some (VInt (en_seq g))" for g
    by (simp_all add: d_def engine_payload_def)
  from canon_inj [OF tidy_engine_payload [OF assms(1)] tidy_engine_payload [OF assms(2)]] assms(3,4)
  have "key_sorted (engine_payload e) = key_sorted (engine_payload f)" by (simp add: same_payload_def)
  then have "map_option key_sorted (map_of (d e) k) = map_option key_sorted (map_of (d f) k)" for k
    unfolding dd(1) using key_sorted_lookup [OF dd(2)] by (metis key_sorted.simps(2) pyval.inject(7))
  from this [of "''journal_seq''"] show ?thesis by (simp add: dd(3))
qed

text \<open>A checkpoint taken before the first event is of no use afterwards: recovery from it succeeds only while the
  journal is empty, although recovery is meant to replay the records that follow the checkpoint.\<close>

theorem genesis_checkpoint_unusable:
  assumes "recover sha checkpoint journal source config limits = Inr e"
    and "checkpoint_document sha checkpoint = Inr cp" "dget cp ''journal_seq'' = VInt 0"
  shows "read_journal sha journal = Inr []"
proof -
  have z: "checkpoint_seq (VInt 0) = Inr 0" by (simp add: checkpoint_seq_def)
  from assms(1) have "\<exists>rs starting. read_journal sha journal = Inr rs \<and> (\<exists>a b c. initial_state a b c = Inr starting)
      \<and> same_payload (new_engine starting limits) (VDict cp)
      \<and> replay_all sha 0 (VDict cp) (new_engine starting limits) rs = Inr e \<and> same_payload e (VDict cp)"
    unfolding recover_def assms(2,3) rbind.simps z
    by (auto simp: rbind_Inr_iff Let_def split: if_split_asm)
  then obtain rs starting a b c where rs: "read_journal sha journal = Inr rs" and i: "initial_state a b c = Inr starting"
    and s0: "same_payload (new_engine starting limits) (VDict cp)"
    and ra: "replay_all sha 0 (VDict cp) (new_engine starting limits) rs = Inr e" and s1: "same_payload e (VDict cp)" by blast
  have ok: "paper_run_ok (en_state (new_engine starting limits))"
    using initial_state_run_ok [OF i] by (simp add: new_engine_def)
  from same_payload_seq [OF ok replay_all_ok [OF ra ok] s0 s1] have "en_seq e = 0" by (simp add: new_engine_def)
  moreover have "en_seq e = int (length rs)" if "rs \<noteq> []"
  proof -
    from rs obtain vs where "check_records sha 1 [] genesis_hash vs = Inr rs"
      by (auto simp: read_journal_def split: if_split_asm option.split_asm)
    from check_records_last [OF this that] replay_all_fields [OF ra that] show ?thesis by simp
  qed
  ultimately have "rs = []" by auto
  with rs show ?thesis by simp
qed

subsection \<open>Witnesses\<close>

definition demo_caps :: risk_limits where
  "demo_caps = \<lparr>max_inventory = dec_of_int 10, max_fill_qty = dec_of_int 5\<rparr>"

definition demo_engine :: engine where "demo_engine = new_engine demo_state demo_caps"

definition demo_register :: engine_command where
  "demo_register = C_Register (VStr ''e1'') (VStr demo_time) (VStr ''o1'') (VStr ''c1'') (VStr '' BUY'') (VInt 2)"

lemma demo_state_run_ok: "paper_run_ok demo_state"
  by (rule initial_state_run_ok [OF demo_state_new])

theorem journal_replays_engine_witness:
  "run_steps (replay_one demo_sha) demo_engine
     (map snd (en_events (foldl (engine_step demo_sha) demo_engine [(Written, demo_register), (Lock_Held ''busy'', demo_register)])))
   = Inr (foldl (engine_step demo_sha) demo_engine [(Written, demo_register), (Lock_Held ''busy'', demo_register)])"
  unfolding demo_engine_def by (rule journal_replays_engine [OF _ refl]) simp

theorem engine_invariant_witness:
  "let e = foldl (engine_step demo_sha) demo_engine [(Written, demo_register), (Device_Failed ''full'', demo_register)]
   in paper_run_ok (en_state e) \<and> distinct (map fst (en_events e))"
proof -
  have "foldl (engine_step demo_sha) demo_engine [(Written, demo_register), (Device_Failed ''full'', demo_register)]
    = foldl (engine_step demo_sha) (foldl (engine_step demo_sha) (new_engine demo_state demo_caps) [(Written, demo_register)])
        [(Device_Failed ''full'', demo_register)]"
    by (simp add: demo_engine_def)
  then show ?thesis
    using engine_invariant [OF demo_state_run_ok refl refl, of demo_sha demo_caps "[(Written, demo_register)]" "[(Device_Failed ''full'', demo_register)]"]
    by (simp add: Let_def)
qed

definition demo_fields :: pydict where
  "demo_fields = [(''order_id'', VStr ''o1''), (''client_order_id'', VStr ''c1''), (''side'', VStr ''buy''), (''quantity'', VStr ''2'')]"

lemma demo_registration:
  "registration_payload (VStr demo_time) (VStr ''o1'') (VStr ''c1'') (VStr '' BUY'') (VInt 2) = Inr (demo_time, demo_fields)"
proof -
  have "nonempty (VStr ''o1'') ''order_id'' = Inr ''o1''" "nonempty (VStr ''c1'') ''client_order_id'' = Inr ''c1''"
    "side_word (VStr '' BUY'') = ''buy''" "paper_decimal (VInt 2) ''quantity'' True False = Inr (dec_of_int 2)"
    "dec_str (dec_of_int 2) = ''2''"
    by code_simp+
  then show ?thesis by (simp add: registration_payload_def event_timestamp_def demo_timestamp demo_fields_def)
qed

lemma demo_reduced:
  assumes n: "nonempty (VStr eid) ''event_id'' = Inr eid"
  shows "\<exists>c. prepare_record sha demo_engine (VStr eid) ''ORDER_REGISTERED'' (VStr demo_time) demo_fields False
     = Inr (Inr (event_record sha demo_engine eid ''ORDER_REGISTERED'' demo_time demo_fields, c))"
proof -
  have e: "en_events demo_engine = []" "en_blocked demo_engine = None" "en_last_ts demo_engine = None" "en_state demo_engine = demo_state"
    by (simp_all add: demo_engine_def new_engine_def)
  have r: "register_order demo_state (VStr ''o1'') (VStr ''c1'') (VStr ''buy'') (VStr ''2'') = Inr demo_open" by code_simp
  have os: "ps_orders demo_state = []" by (simp add: demo_state_def)
  have f: "dget demo_fields ''order_id'' = VStr ''o1''" "dget demo_fields ''client_order_id'' = VStr ''c1''"
    "dget demo_fields ''side'' = VStr ''buy''" "dget demo_fields ''quantity'' = VStr ''2''"
    "keys_are demo_fields [''order_id'', ''client_order_id'', ''side'', ''quantity'']"
    by (simp_all add: demo_fields_def dget_def keys_are_def dkeys_def)
  have b: "is_blocked demo_engine = False" by (simp add: is_blocked_def e)
  have "reduce_registration demo_engine demo_fields = Inr ((unchanged demo_engine)\<lparr>cd_state := demo_open\<rparr>)"
    unfolding reduce_registration_def f e os by (simp add: f r)
  then show ?thesis
    by (simp add: prepare_record_def n event_timestamp_def demo_timestamp supported_events_def existing_event_def e check_unblocked_def
      check_event_time_def Let_def reduce_record_def event_record_fields b)
qed

lemma demo_ids: "nonempty (VStr ''e1'') ''event_id'' = Inr ''e1''" "nonempty (VStr ''e3'') ''event_id'' = Inr ''e3''"
  by code_simp+

text \<open>Two registrations under different event ids, with a hash function that maps every text to the empty one.\<close>

definition demo_recorded :: "string \<Rightarrow> engine" where
  "demo_recorded eid = engine_step (\<lambda>t. []) demo_engine
     (Written, C_Register (VStr eid) (VStr demo_time) (VStr ''o1'') (VStr ''c1'') (VStr '' BUY'') (VInt 2))"

lemma demo_recorded_fields:
  assumes "nonempty (VStr eid) ''event_id'' = Inr eid"
  shows "en_seq (demo_recorded eid) = 1" "en_head (demo_recorded eid) = []" "length (en_events (demo_recorded eid)) = 1"
    "dget (snd (hd (en_events (demo_recorded eid)))) ''event_id'' = VStr eid"
proof -
  obtain c where c: "prepare_record (\<lambda>t. []) demo_engine (VStr eid) ''ORDER_REGISTERED'' (VStr demo_time) demo_fields False
     = Inr (Inr (event_record (\<lambda>t. []) demo_engine eid ''ORDER_REGISTERED'' demo_time demo_fields, c))"
    using demo_reduced [OF assms] by blast
  have "demo_recorded eid = commit_record demo_engine (event_record (\<lambda>t. []) demo_engine eid ''ORDER_REGISTERED'' demo_time demo_fields) c"
    by (simp add: demo_recorded_def engine_register_def with_payload_def demo_registration fst_recorded record_event_def c append_record_def)
  then show "en_seq (demo_recorded eid) = 1" "en_head (demo_recorded eid) = []" "length (en_events (demo_recorded eid)) = 1"
    "dget (snd (hd (en_events (demo_recorded eid)))) ''event_id'' = VStr eid"
    by (simp_all add: commit_record_def event_record_fields demo_engine_def new_engine_def paper_sha_def)
qed

theorem head_identifies_journal_witness:
  "let t = chain_texts record_cover (\<lambda>t. []) genesis_hash (map snd (en_events (demo_recorded ''e1''))) ! 0;
       t' = chain_texts record_cover (\<lambda>t. []) genesis_hash (map snd (en_events (demo_recorded ''e3''))) ! 0
   in en_seq (demo_recorded ''e1'') = 1 \<and> en_seq (demo_recorded ''e3'') = 1 \<and> t \<noteq> t'"
proof -
  note a = demo_recorded_fields [OF demo_ids(1)] and b = demo_recorded_fields [OF demo_ids(2)]
  obtain x y where e: "en_events (demo_recorded ''e1'') = [x]" "en_events (demo_recorded ''e3'') = [y]"
    using a(3) b(3) by (auto simp: length_Suc_conv)
  have d: "record_body (snd x) \<noteq> record_body (snd y)" using a(4) b(4) by (simp add: e record_body_def)
  have r: "demo_recorded eid = foldl (engine_step (\<lambda>t. [])) (new_engine demo_state demo_caps)
      [(Written, C_Register (VStr eid) (VStr demo_time) (VStr ''o1'') (VStr ''c1'') (VStr '' BUY'') (VInt 2))]" for eid
    by (simp add: demo_recorded_def demo_engine_def)
  have "en_seq (demo_recorded ''e1'') = en_seq (demo_recorded ''e3'')" "en_head (demo_recorded ''e1'') = en_head (demo_recorded ''e3'')"
    using a b by simp_all
  from head_identifies_journal [OF demo_state_run_ok demo_state_run_ok r r this] d show ?thesis
    using a(1) b(1) by (simp add: e Let_def)
qed

definition demo_stuck :: engine where
  "demo_stuck = demo_engine\<lparr>en_blocked := Some (''journal durability failure: '' @ ''full'')\<rparr>"

lemma demo_failed: "engine_step demo_sha demo_engine (Device_Failed ''full'', demo_register) = demo_stuck"
proof -
  from demo_reduced [OF demo_ids(1)] obtain c where c: "prepare_record demo_sha demo_engine (VStr ''e1'') ''ORDER_REGISTERED'' (VStr demo_time) demo_fields False
     = Inr (Inr (event_record demo_sha demo_engine ''e1'' ''ORDER_REGISTERED'' demo_time demo_fields, c))" by blast
  show ?thesis
    by (simp add: demo_register_def engine_register_def with_payload_def demo_registration fst_recorded record_event_def c
      append_record_def demo_stuck_def)
qed

definition demo_resolve :: engine_command where
  "demo_resolve = C_Resolve (VStr ''e2'') (VStr demo_time) (VStr ''ticket'') (VStr ''disk'')"

lemma demo_resolved: "engine_step demo_sha demo_stuck (Written, demo_resolve) \<noteq> demo_stuck"
proof -
  let ?p = "[(''approval_ref'', VStr ''ticket''), (''reason'', VStr ''disk''), (''action'', VStr ''retain_local_paper_state''),
                (''prior_discrepancies'', VList [])]"
  have e: "en_events demo_stuck = []" "en_last_ts demo_stuck = None" "en_issues demo_stuck = []" "is_blocked demo_stuck"
    "en_blocked demo_stuck \<noteq> None"
    by (simp_all add: demo_stuck_def demo_engine_def new_engine_def is_blocked_def)
  have n: "nonempty (VStr ''e2'') ''event_id'' = Inr ''e2''" "nonempty (VStr ''ticket'') ''approval_ref'' = Inr ''ticket''"
    "nonempty (VStr ''disk'') ''reason'' = Inr ''disk''" by code_simp+
  have p: "resolution_payload demo_stuck (VStr ''e2'') (VStr demo_time) (VStr ''ticket'') (VStr ''disk'') = Inr (demo_time, ?p, ''e2'')"
    by (simp add: resolution_payload_def event_timestamp_def demo_timestamp n e)
  have "py_eq (VList []) (VList [])" by (simp add: py_eq.simps)
  moreover have f: "dget ?p ''approval_ref'' = VStr ''ticket''" "dget ?p ''reason'' = VStr ''disk''"
    "dget ?p ''action'' = VStr ''retain_local_paper_state''" "dget ?p ''prior_discrepancies'' = VList []"
    "keys_are ?p [''approval_ref'', ''reason'', ''action'', ''prior_discrepancies'']"
    by (simp_all add: dget_def keys_are_def dkeys_def)
  ultimately have r: "reduce_resolution demo_stuck ?p = Inr ((unchanged demo_stuck)\<lparr>cd_blocked := None\<rparr>)"
    unfolding reduce_resolution_def f by (simp add: f e n)
  have "prepare_record demo_sha demo_stuck (VStr ''e2'') ''DIVERGENCE_RESOLVED'' (VStr demo_time) ?p True
     = Inr (Inr (event_record demo_sha demo_stuck ''e2'' ''DIVERGENCE_RESOLVED'' demo_time ?p, (unchanged demo_stuck)\<lparr>cd_blocked := None\<rparr>))"
    by (simp add: prepare_record_def n event_timestamp_def demo_timestamp supported_events_def existing_event_def e
      check_event_time_def Let_def reduce_record_def event_record_fields r)
  then have "en_blocked (engine_step demo_sha demo_stuck (Written, demo_resolve)) = None"
    using e(5) by (simp add: demo_resolve_def resolve_divergence_def with_payload_def p existing_event_def e(1) fst_recorded
      record_event_def append_record_def commit_record_def)
  with e(5) show ?thesis by metis
qed

theorem resolution_of_failure_unrecoverable_witness:
  "let e = engine_step demo_sha (engine_step demo_sha demo_engine (Device_Failed ''full'', demo_register)) (Written, demo_resolve)
   in en_blocked e = None \<and> (\<exists>x. run_steps (replay_one demo_sha) demo_engine (map snd (en_events e)) = Inl x)"
  using resolution_of_failure_unrecoverable [of "[]" demo_engine demo_sha demo_state demo_caps demo_stuck "''full''" demo_register
      "engine_step demo_sha demo_stuck (Written, demo_resolve)" "VStr ''e2''" "VStr demo_time" "VStr ''ticket''" "VStr ''disk''"]
    demo_failed demo_resolved
  by (simp add: demo_engine_def demo_resolve_def new_engine_def Let_def)

text \<open>The checkpoint of a fresh engine, read back with an empty journal.\<close>

lemma demo_checkpoint_document:
  obtains cp where "checkpoint_document demo_sha (canon False (checkpoint_envelope demo_sha demo_engine) @ [CHR 10]) = Inr cp"
    "key_sorted (engine_payload demo_engine) = VDict cp" "\<And>k. dget cp k = key_sorted (dget (as_dict (engine_payload demo_engine)) k)"
proof -
  define d where "d = as_dict (engine_payload demo_engine)"
  have pd: "engine_payload demo_engine = VDict d" "distinct (map fst d)" "dkeys d = checkpoint_keys"
    by (simp_all add: d_def engine_payload_def dkeys_def checkpoint_keys_def)
  have tp: "tidy (engine_payload demo_engine)"
    by (rule tidy_engine_payload) (simp add: demo_engine_def new_engine_def demo_state_run_ok)
  obtain cp where cp: "key_sorted (engine_payload demo_engine) = VDict cp" by (simp add: pd(1))
  have cps: "cp = sort_key fst (map (\<lambda>(k, v). (k, key_sorted v)) d)" using cp by (simp add: pd(1))
  have get: "dget cp k = key_sorted (dget d k)" for k
    unfolding dget_def cps key_sorted_lookup [OF pd(2)] by (cases "map_of d k") simp_all
  let ?hash = "paper_sha demo_sha (engine_payload demo_engine)"
  let ?env = "[(''schema_version'', VInt 1), (''state_sha256'', VStr ?hash), (''engine_state'', engine_payload demo_engine)]"
  have te: "tidy (checkpoint_envelope demo_sha demo_engine)" using tp by (simp add: checkpoint_envelope_def)
  define e where "e = sort_key fst (map (\<lambda>(k, v). (k, key_sorted v)) ?env)"
  have doc: "key_sorted (checkpoint_envelope demo_sha demo_engine) = VDict e"
    unfolding checkpoint_envelope_def e_def by (simp only: key_sorted.simps)
  have j: "json_loads (canon False (checkpoint_envelope demo_sha demo_engine) @ [CHR 10]) = Some (VDict e)"
    using json_loads_canon [OF te, of "[CHR 10]"] doc by (simp add: json_space_def)
  have de: "distinct (map fst ?env)" by simp
  have eget: "dget e k = key_sorted (dget ?env k)" for k
    unfolding dget_def e_def key_sorted_lookup [OF de] by (cases "map_of ?env k") simp_all
  have "set (dkeys e) = set (dkeys ?env)" unfolding e_def dkeys_def by force
  then have k1: "keys_are e [''schema_version'', ''state_sha256'', ''engine_state'']"
    using keys_are_set [of e ?env] keys_are_self [of ?env] by (simp add: dkeys_def)
  have "set (dkeys cp) = set (dkeys d)" by (force simp: cps dkeys_def)
  then have k2: "keys_are cp checkpoint_keys" using keys_are_set [of cp d] keys_are_self [OF pd(3)] by simp
  have "json_err (VDict cp) = None" using tidy_key_sorted [OF tp] json_err_tidy cp by metis
  moreover have "paper_sha demo_sha (VDict cp) = ?hash" using canon_key_sorted [OF tp] cp by (simp add: paper_sha_def)
  moreover have "dget ?env ''schema_version'' = VInt 1" "dget ?env ''state_sha256'' = VStr ?hash"
    "dget ?env ''engine_state'' = engine_payload demo_engine" by (simp_all add: dget_def)
  moreover have "py_eq (VInt 1) (VInt 1)" by (simp add: py_eq.simps)
  ultimately have "checkpoint_document demo_sha (canon False (checkpoint_envelope demo_sha demo_engine) @ [CHR 10]) = Inr cp"
    using k1 k2 by (simp add: checkpoint_document_def j eget cp)
  with cp get that show thesis by (simp add: d_def)
qed

lemma demo_key_sorted_limits: "py_eq (key_sorted (limits_payload demo_caps)) (limits_payload demo_caps)"
  by code_simp

theorem genesis_checkpoint_unusable_witness:
  "\<exists>e. recover demo_sha (canon False (checkpoint_envelope demo_sha demo_engine) @ [CHR 10]) [] (VStr demo_key) (VStr demo_key) demo_caps
     = Inr e \<and> read_journal demo_sha [] = Inr []"
proof -
  obtain cp where cp: "checkpoint_document demo_sha (canon False (checkpoint_envelope demo_sha demo_engine) @ [CHR 10]) = Inr cp"
    "key_sorted (engine_payload demo_engine) = VDict cp" "\<And>k. dget cp k = key_sorted (dget (as_dict (engine_payload demo_engine)) k)"
    using demo_checkpoint_document by blast
  have t: "as_dict (engine_payload demo_engine) = [(''state'', to_payload demo_state), (''terminal_statuses'', VList []),
      (''journal_seq'', VInt 0), (''journal_head'', VStr genesis_hash), (''last_timestamp'', VNone), (''blocked_reason'', VNone),
      (''discrepancies'', VList []), (''risk_limits'', limits_payload demo_caps)]"
    by (simp add: engine_payload_def demo_engine_def new_engine_def)
  have f: "dget cp ''state'' = key_sorted (to_payload demo_state)" "dget cp ''journal_seq'' = VInt 0"
    "dget cp ''journal_head'' = VStr genesis_hash" "dget cp ''risk_limits'' = key_sorted (limits_payload demo_caps)"
    unfolding cp(3) t by (simp_all add: dget_def)
  obtain d where d: "key_sorted (to_payload demo_state) = VDict d" by (simp add: to_payload_items)
  have pr: "from_payload (key_sorted (to_payload demo_state)) = Inr demo_state"
    unfolding d using from_sorted_payload [OF _ _ d] demo_state_run_ok by (simp add: paper_run_ok_def)
  have n: "nonempty (VStr demo_key) x = Inr demo_key" for x
    using hex64_text [OF hex64_demo(2)] by (simp add: nonempty_def) (simp add: demo_key_def)
  have l: "lower demo_key = demo_key" "ps_source demo_state = demo_key" "ps_config demo_state = demo_key"
    using hex64_text [OF hex64_demo(2)] by (simp_all add: demo_state_def)
  have i: "initial_state (VDec (ps_start demo_state)) (VStr demo_key) (VStr demo_key) = Inr demo_state" by code_simp
  have s: "same_payload (new_engine demo_state demo_caps) (VDict cp)"
    using canon_key_sorted [OF tidy_engine_payload, of demo_engine] cp(2) demo_state_run_ok
    by (simp add: same_payload_def demo_engine_def new_engine_def)
  have j: "read_journal demo_sha [] = Inr []" by (simp add: read_journal_def)
  have z: "checkpoint_seq (VInt 0) = Inr 0" by (simp add: checkpoint_seq_def)
  have "recover demo_sha (canon False (checkpoint_envelope demo_sha demo_engine) @ [CHR 10]) [] (VStr demo_key) (VStr demo_key) demo_caps
      = Inr (new_engine demo_state demo_caps)"
    unfolding recover_def cp(1) f rbind.simps n pr rewrap_state.simps z j l by (simp add: demo_key_sorted_limits i s)
  with genesis_checkpoint_unusable [OF this cp(1) f(2)] show ?thesis by blast
qed

end
