(* ===== verification/AuthorityScore.thy ===== *)
theory AuthorityScore
  imports Settlement "HOL-Library.Product_Lexorder" "HOL-Library.Multiset"
begin

section \<open>The authoritative score\<close>

text \<open>
  \<^verbatim>\<open>senecio_polymarket/backend/authoritative_score.py\<close>: the score of a symbol over the
  rows that pass the proof gate. Statistics use a cohort of rows that lie an hour apart; the raw
  rows are diagnostics. Rows and reports are dictionaries with the keys of the code. The local
  time zone, which only a timestamp without an offset needs, is an argument: a function from
  local microseconds to seconds since the epoch.
\<close>

definition min_global_n :: int where "min_global_n = 100"
definition min_direction_n :: int where "min_direction_n = 30"
definition long_min_win_rate_pct :: pyfloat where "long_min_win_rate_pct = flit 50 0"
definition short_min_win_rate_pct :: pyfloat where "short_min_win_rate_pct = flit 55 0"
definition global_min_win_rate_pct :: pyfloat where "global_min_win_rate_pct = flit 52 0"
definition min_wilson_lower :: pyfloat where "min_wilson_lower = flit 50 2"
definition max_brier :: pyfloat where "max_brier = flit 25 2"
definition max_ece :: pyfloat where "max_ece = flit 10 2"
definition independent_horizon_s :: pyfloat where "independent_horizon_s = flit 3600 0"

definition cohort_name :: pyval where "cohort_name = VStr ''INDEPENDENT_NONOVERLAP_1H''"
definition directions :: "string list" where "directions = [''LONG'', ''SHORT'', ''FLAT'']"

subsection \<open>Square roots\<close>

text \<open>\<^verbatim>\<open>math.sqrt\<close>: the integer root of the scaled mantissa has more bits than a float;
  a last bit that is set when the root is not exact makes the rounding correct.\<close>

fun isqrt :: "nat \<Rightarrow> nat" where
  "isqrt n = (if n = 0 then 0 else let r = 2 * isqrt (n div 4) in if (r + 1) * (r + 1) \<le> n then r + 1 else r)"

declare isqrt.simps [simp del]

fun fsqrt :: "pyfloat \<Rightarrow> pyfloat res" where
  "fsqrt FNaN = Inr FNaN"
| "fsqrt (FInf s) = (if s then Inl (ValueError ''math domain error'') else Inr (FInf False))"
| "fsqrt (Flt s m e) =
     (if m = 0 then Inr (Flt s 0 0)
      else if s then Inl (ValueError ''math domain error'')
      else let (n, f) = (if even e then (m * 4 ^ 64, e div 2) else (2 * m * 4 ^ 64, (e - 1) div 2));
               r = isqrt n; q = 2 * r + (if r * r = n then 0 else 1); x = f - 65
           in Inr (fl_round False (q * 2 ^ nat x) (2 ^ nat (- x))))"

lemma isqrt_bounds: "isqrt n * isqrt n \<le> n \<and> n < (isqrt n + 1) * (isqrt n + 1)"
proof (induction n rule: isqrt.induct)
  case (1 n)
  show ?case
  proof (cases "n = 0")
    case False
    define r where "r = isqrt (n div 4)"
    have r: "r * r \<le> n div 4" "n div 4 < (r + 1) * (r + 1)" using 1 [OF False] by (simp_all add: r_def)
    have "4 * (r * r) \<le> n" using r(1) by linarith
    moreover have "n < 4 * ((r + 1) * (r + 1))" using r(2) by linarith
    ultimately show ?thesis
      by (subst (1 2 3 4) isqrt.simps) (auto simp: False r_def [symmetric] Let_def algebra_simps)
  qed (simp add: isqrt.simps)
qed

subsection \<open>Rows\<close>

text \<open>\<^verbatim>\<open>_normalize_symbol\<close>: without separators, unlike the one of the settlement contract.\<close>

definition plain_symbol :: "pyval \<Rightarrow> string" where
  "plain_symbol v = strip (replace_all ''-'' [] (replace_all ''/'' [] (upper (py_str (por v (VStr []))))))"

definition number_of :: "pyval \<Rightarrow> pyfloat option res" where
  "number_of v =
     (case float_of v of
        Inl e \<Rightarrow> if caught e then Inr None else Inl e
      | Inr x \<Rightarrow> Inr (if is_finite x then Some x else None))"

definition confidence :: "pydict \<Rightarrow> pyfloat option res" where
  "confidence row =
     rbind (number_of (dget row ''confidence'')) (\<lambda>v.
       Inr (case v of
          None \<Rightarrow> None
        | Some x \<Rightarrow> if \<not> (fle fzero x \<and> fle x (flit 1 0)) then None else Some x))"

type_synonym local_zone = "int \<Rightarrow> int res"

text \<open>\<^verbatim>\<open>timestamp()\<close>; without an offset in seconds and microseconds that are added as floats.\<close>

definition timestamp :: "local_zone \<Rightarrow> pydatetime \<Rightarrow> pyfloat res" where
  "timestamp zone d =
     (case dt_offset d of
        Some off \<Rightarrow> Inr (total_seconds (dt_local d - off - unix_epoch))
      | None \<Rightarrow> rbind (zone (dt_local d)) (\<lambda>secs.
          Inr (fadd (fl_of_int secs) (nat_ratio (nat (dt_local d mod 1000000)) 1000000))))"

definition ts_seconds :: "local_zone \<Rightarrow> pydict \<Rightarrow> pyfloat res" where
  "ts_seconds zone row =
     (if \<not> truthy (dget row ''ts'') then Inr (FInf False)
      else case fromisoformat (replace_all ''Z'' ''+00:00'' (py_str (dget row ''ts''))) of
        None \<Rightarrow> Inr (FInf False)
      | Some d \<Rightarrow> (case timestamp zone d of
            Inr t \<Rightarrow> Inr t
          | Inl e \<Rightarrow> if caught e then Inr (FInf False) else Inl e))"

subsection \<open>The order of the rows\<close>

text \<open>A timestamp as a sort key: its exact value, or infinity after all of them.\<close>

datatype stamp = At rat | NoTime

instantiation stamp :: linorder
begin

fun less_eq_stamp :: "stamp \<Rightarrow> stamp \<Rightarrow> bool" where
  "less_eq_stamp s NoTime = True"
| "less_eq_stamp NoTime (At b) = False"
| "less_eq_stamp (At a) (At b) = (a \<le> b)"

definition less_stamp :: "stamp \<Rightarrow> stamp \<Rightarrow> bool" where
  "less_stamp s t = (\<not> t \<le> s)"

instance
proof
  fix x y z :: stamp
  show "(x < y) = (x \<le> y \<and> \<not> y \<le> x)" by (cases x; cases y) (auto simp: less_stamp_def)
  show "x \<le> x" by (cases x) auto
  show "x \<le> y \<Longrightarrow> y \<le> z \<Longrightarrow> x \<le> z" by (cases x; cases y; cases z) auto
  show "x \<le> y \<Longrightarrow> y \<le> x \<Longrightarrow> x = y" by (cases x; cases y) auto
  show "x \<le> y \<or> y \<le> x" by (cases x; cases y) auto
qed

end

fun fl_value :: "pyfloat \<Rightarrow> rat" where
  "fl_value (Flt s m e) = of_int (fl_int s m) * 2 ^ nat e / 2 ^ nat (- e)"
| "fl_value x = 0"

definition stamp_of :: "pyfloat \<Rightarrow> stamp" where
  "stamp_of x = (if is_finite x then At (fl_value x) else NoTime)"

type_synonym row_key = "stamp \<times> string \<times> string"

text \<open>\<^verbatim>\<open>_stable_row_key\<close>; the row is rendered with \<^verbatim>\<open>default=str\<close>.\<close>

definition row_text :: "pydict \<Rightarrow> string" where
  "row_text row = canon True (VDict row)"

definition row_ident :: "pydict \<Rightarrow> string" where
  "row_ident row = (if dget row ''id'' = VNone then [] else py_str (dget row ''id''))"

definition stable_row_key :: "pyfloat \<times> pydict \<Rightarrow> row_key" where
  "stable_row_key = (\<lambda>(t, row). (stamp_of t, row_ident row, row_text row))"

definition with_ts :: "local_zone \<Rightarrow> pydict \<Rightarrow> (pyfloat \<times> pydict) res" where
  "with_ts zone row = rbind (ts_seconds zone row) (\<lambda>t. Inr (t, row))"

text \<open>The loop: a row is taken when it lies at least an hour after the last one taken.\<close>

fun pick_apart :: "pyfloat option \<Rightarrow> (pyfloat \<times> pydict) list \<Rightarrow> (pyfloat \<times> pydict) list" where
  "pick_apart prev [] = []"
| "pick_apart prev ((t, row) # rest) =
     (if \<not> is_finite t then pick_apart prev rest
      else if (case prev of None \<Rightarrow> True | Some p \<Rightarrow> fle (fadd p independent_horizon_s) t)
        then (t, row) # pick_apart (Some t) rest
      else pick_apart prev rest)"

definition timed_cohort :: "local_zone \<Rightarrow> pydict list \<Rightarrow> (pyfloat \<times> pydict) list res" where
  "timed_cohort zone rows =
     rbind (rmap (with_ts zone) rows) (\<lambda>timed. Inr (pick_apart None (sort_key stable_row_key timed)))"

definition independent_1h_cohort :: "local_zone \<Rightarrow> pydict list \<Rightarrow> pydict list res" where
  "independent_1h_cohort zone rows = rbind (timed_cohort zone rows) (\<lambda>sel. Inr (map snd sel))"

subsection \<open>Statistics\<close>

text \<open>\<^verbatim>\<open>sum\<close> of floats, from the left.\<close>

definition fsum :: "pyfloat list \<Rightarrow> pyfloat" where
  "fsum xs = foldl fadd fzero xs"

definition per_count :: "pyfloat \<Rightarrow> nat \<Rightarrow> pyfloat res" where
  "per_count x n = rbind (float_of_int (int n)) (fdiv x)"

definition wilson_z :: pyfloat where "wilson_z = flit 1959963984540054 15"

definition wilson_lower :: "nat \<Rightarrow> nat \<Rightarrow> pyfloat \<Rightarrow> pyfloat res" where
  "wilson_lower wins n z =
     (if n = 0 then Inr fzero
      else let observed = nat_ratio wins n; zz = fmul z z in
        rbind (float_of_int (int n)) (\<lambda>nf.
        rbind (fdiv zz nf) (\<lambda>zn.
        rbind (fdiv zz (fmul (flit 2 0) nf)) (\<lambda>z2n.
        rbind (fdiv zz (fmul (flit 4 0) nf)) (\<lambda>z4n.
        rbind (fdiv (fadd (fmul observed (fsub (flit 1 0) observed)) z4n) nf) (\<lambda>var.
        rbind (fsqrt var) (\<lambda>root.
        rbind (fdiv (fsub (fadd observed z2n) (fmul z root)) (fadd (flit 1 0) zn)) (\<lambda>low.
          Inr (fmax fzero low)))))))))"

definition is_win :: "pyval \<Rightarrow> bool" where "is_win v = py_eq v (VStr ''WIN'')"
definition is_loss :: "pyval \<Rightarrow> bool" where "is_loss v = py_eq v (VStr ''LOSS'')"

definition outcome_of :: "pydict \<Rightarrow> pyval" where "outcome_of row = dget row ''outcome''"

definition how_many :: "('a \<Rightarrow> bool) \<Rightarrow> 'a list \<Rightarrow> nat" where
  "how_many p xs = length (filter p xs)"

fun ece_rows :: "pydict list \<Rightarrow> (pyfloat \<times> bool) list option res" where
  "ece_rows [] = Inr (Some [])"
| "ece_rows (row # rows) =
     rbind (confidence row) (\<lambda>c.
       case c of
         None \<Rightarrow> Inr None
       | Some x \<Rightarrow> rbind (ece_rows rows) (\<lambda>r.
           Inr (map_option (Cons (x, is_win (outcome_of row))) r)))"

definition in_bin :: "nat \<Rightarrow> nat \<Rightarrow> pyfloat \<Rightarrow> bool" where
  "in_bin bins i x =
     (fle (nat_ratio i bins) x \<and> flt x (nat_ratio (i + 1) bins) \<or> i + 1 = bins \<and> feq x (flit 1 0))"

definition bin_error :: "(pyfloat \<times> bool) list \<Rightarrow> nat \<Rightarrow> pyfloat \<Rightarrow> nat \<Rightarrow> pyfloat res" where
  "bin_error items bins error i =
     (let bucket = filter (\<lambda>it. in_bin bins i (fst it)) items; k = length bucket
      in if bucket = [] then Inr error
         else rbind (per_count (fsum (map fst bucket)) k) (\<lambda>mean.
           Inr (fadd error (fmul (nat_ratio k (length items))
                                 (fabs (fsub (nat_ratio (how_many snd bucket) k) mean))))))"

fun bins_error :: "(pyfloat \<times> bool) list \<Rightarrow> nat \<Rightarrow> pyfloat \<Rightarrow> nat list \<Rightarrow> pyfloat res" where
  "bins_error items bins error [] = Inr error"
| "bins_error items bins error (i # ks) =
     rbind (bin_error items bins error i) (\<lambda>error'. bins_error items bins error' ks)"

definition ece :: "pydict list \<Rightarrow> nat \<Rightarrow> pyfloat option res" where
  "ece rows bins =
     (if rows = [] then Inr None
      else rbind (ece_rows rows) (\<lambda>r.
        case r of
          None \<Rightarrow> Inr None
        | Some items \<Rightarrow> rbind (bins_error items bins fzero [0..<bins]) (\<lambda>e. Inr (Some e))))"

subsection \<open>Buckets and gates\<close>

definition pct :: "nat \<Rightarrow> nat \<Rightarrow> pyval" where
  "pct wins n = VFloat (py_round 2 (if n \<noteq> 0 then fmul (nat_ratio wins n) (flit 100 0) else fzero))"

definition tally :: "nat \<Rightarrow> nat \<Rightarrow> pydict" where
  "tally wins losses =
     [(''verified'', VInt (int (wins + losses))), (''wins'', VInt (int wins)), (''losses'', VInt (int losses)),
      (''win_rate_pct'', pct wins (wins + losses))]"

definition bucket_of :: "pydict list \<Rightarrow> pydict" where
  "bucket_of rows = tally (how_many (is_win \<circ> outcome_of) rows) (how_many (is_loss \<circ> outcome_of) rows)"

definition window_outcome :: "string \<Rightarrow> pydict \<Rightarrow> pyval" where
  "window_outcome window row =
     (if window = ''1h'' then outcome_of row
      else case por (dget row ''audit'') (VDict []) of
          VDict audit \<Rightarrow> (case dget audit ''outcomes_dual'' of VDict dual \<Rightarrow> dget dual ''outcome_15m'' | _ \<Rightarrow> VNone)
        | _ \<Rightarrow> VNone)"

definition toward :: "string \<Rightarrow> pydict list \<Rightarrow> pydict list" where
  "toward direction rows = filter (\<lambda>row. row_direction row = direction) rows"

definition diagnostic :: "string \<times> pyval" where "diagnostic = (''diagnostic_only'', VBool True)"

definition window_report :: "pydict list \<Rightarrow> string \<Rightarrow> pydict" where
  "window_report rows window =
     (let wins = (\<lambda>d. how_many (is_win \<circ> window_outcome window) (toward d rows));
          losses = (\<lambda>d. how_many (is_loss \<circ> window_outcome window) (toward d rows))
      in [diagnostic]
         @ map (\<lambda>d. (d, VDict (tally (wins d) (losses d) @ [diagnostic]))) directions
         @ [(''global'', VDict (tally (sum_list (map wins directions)) (sum_list (map losses directions)) @ [diagnostic]))])"

definition by_window :: "pydict list \<Rightarrow> pydict" where
  "by_window rows = map (\<lambda>w. (w, VDict (window_report rows w))) [''15m'', ''1h'']"

definition gate :: "pydict \<Rightarrow> int \<Rightarrow> pyfloat \<Rightarrow> pydict res" where
  "gate bucket min_n threshold_pct =
     rbind (int_of (por (dget bucket ''verified'') (VInt 0))) (\<lambda>n.
     rbind (float_of (por (dget bucket ''win_rate_pct'') (VFloat fzero))) (\<lambda>rate.
       Inr [(''pass'', VBool (min_n \<le> n \<and> fle threshold_pct rate)),
            (''gate_semantics'', VStr ''OPERATIONAL_POINT_ESTIMATE''), (''uncertainty_adjusted'', VBool False),
            (''edge_evidence'', VBool False), (''statistical_evidence_gate'', VStr ''quality.gates.wilson_lower_95''),
            (''win_rate_pct'', VFloat rate), (''n'', VInt n), (''threshold_pct'', VFloat threshold_pct),
            (''min_n'', VInt min_n), (''n_source'', cohort_name)]))"

definition passes :: "pyval \<Rightarrow> bool" where
  "passes g = truthy (dget (as_dict g) ''pass'')"

definition rounded :: "nat \<Rightarrow> pyfloat option \<Rightarrow> pyval" where
  "rounded k x = (case x of None \<Rightarrow> VNone | Some y \<Rightarrow> VFloat (py_round k y))"

text \<open>The \<^verbatim>\<open>authority_1h\<close> block: the buckets that downstream gates may read.\<close>

definition authority_bucket :: "pydict \<Rightarrow> pydict res" where
  "authority_bucket bucket =
     rbind (int_of (por (dget bucket ''verified'') (VInt 0))) (\<lambda>n.
     rbind (int_of (por (dget bucket ''wins'') (VInt 0))) (\<lambda>w.
     rbind (int_of (por (dget bucket ''losses'') (VInt 0))) (\<lambda>l.
     rbind (float_of (por (dget bucket ''win_rate_pct'') (VFloat fzero))) (\<lambda>rate.
       Inr [(''verified'', VInt n), (''wins'', VInt w), (''losses'', VInt l), (''win_rate_pct'', VFloat rate),
            (''n_source'', cohort_name)]))))"

definition direction_bucket :: "pydict \<Rightarrow> string \<Rightarrow> pyval res" where
  "direction_bucket by_direction d =
     rbind (authority_bucket (as_dict (por (dget by_direction d) (VDict [])))) (\<lambda>b. Inr (VDict b))"

text \<open>\<^verbatim>\<open>wins / verified\<close> of two integers.\<close>

definition int_ratio :: "int \<Rightarrow> int \<Rightarrow> pyfloat" where
  "int_ratio a b = fl_round ((a < 0) \<noteq> (b < 0)) (nat \<bar>a\<bar>) (nat \<bar>b\<bar>)"

definition authority_1h_payload :: "pydict \<Rightarrow> pydict res" where
  "authority_1h_payload sc =
     (let by_direction = as_dict (por (dget sc ''by_direction'') (VDict [])) in
      rbind (int_of (por (dget sc ''verified'') (VInt 0))) (\<lambda>n.
      rbind (int_of (por (dget sc ''wins'') (VInt 0))) (\<lambda>w.
      rbind (int_of (por (dget sc ''losses'') (VInt 0))) (\<lambda>l.
      rbind (direction_bucket by_direction ''LONG'') (\<lambda>long.
      rbind (direction_bucket by_direction ''SHORT'') (\<lambda>short.
      rbind (direction_bucket by_direction ''FLAT'') (\<lambda>flat.
        Inr [(''symbol'', dget sc ''symbol''), (''cohort'', cohort_name), (''n_source'', cohort_name),
             (''LONG'', long), (''SHORT'', short), (''FLAT'', flat),
             (''global'', VDict [(''verified'', VInt n), (''wins'', VInt w), (''losses'', VInt l),
                (''win_rate_pct'', VFloat (py_round 2 (if n \<noteq> 0 then fmul (int_ratio w n) (flit 100 0) else fzero))),
                (''n_source'', cohort_name)])])))))))"

subsection \<open>Quality\<close>

definition squared_miss :: "pydict \<Rightarrow> pyfloat \<Rightarrow> pyfloat" where
  "squared_miss row c = (let d = fsub c (if is_win (outcome_of row) then flit 1 0 else fzero) in fmul d d)"

definition brier_of :: "pydict list \<Rightarrow> pyfloat option list \<Rightarrow> pyfloat res" where
  "brier_of rows confs = per_count (fsum (map (\<lambda>(row, c). squared_miss row (the c)) (zip rows confs))) (length rows)"

definition blocked_gate :: "pyval \<Rightarrow> pyfloat \<Rightarrow> string \<Rightarrow> pyval" where
  "blocked_gate value threshold operator =
     VDict [(''pass'', VBool False), (''value'', value), (''threshold'', VFloat threshold), (''operator'', VStr operator),
            diagnostic, (''blocked_reason'', VStr ''UNVALIDATED_PROBABILITY_SEMANTICS'')]"

definition quality_report :: "nat \<Rightarrow> bool \<Rightarrow> nat \<Rightarrow> pyfloat option \<Rightarrow> pyfloat option \<Rightarrow> pyfloat option \<Rightarrow> pydict" where
  "quality_report n whole valid_n wilson brier ece_value =
     [(''authority_rows'', VInt (int n)), (''authority_n_source'', cohort_name),
      (''confidence_semantics'', VStr ''RAW_CONVICTION''), (''confidence_probability_semantics'', VStr ''UNVALIDATED''),
      (''confidence_complete'', VBool whole), (''valid_confidence_n'', VInt (int valid_n)),
      (''wilson_lower_95'', rounded 6 wilson), (''raw_confidence_brier'', rounded 6 brier),
      (''raw_confidence_ece'', rounded 6 ece_value),
      (''raw_confidence_brier_diagnostic_only'', VBool True), (''raw_confidence_ece_diagnostic_only'', VBool True),
      (''gates'', VDict
        [(''confidence_complete'', VDict [(''pass'', VBool whole), (''required'', VBool True)]),
         (''wilson_lower_95'', VDict
            [(''pass'', VBool (case wilson of None \<Rightarrow> False | Some x \<Rightarrow> flt min_wilson_lower x)),
             (''value'', rounded 6 wilson), (''threshold'', VFloat min_wilson_lower), (''operator'', VStr ''>''),
             (''n_source'', cohort_name)]),
         (''brier'', blocked_gate (rounded 6 brier) max_brier ''<''),
         (''ece'', blocked_gate (rounded 6 ece_value) max_ece ''<='')])]"

definition quality_metrics :: "pydict list \<Rightarrow> pydict res" where
  "quality_metrics rows =
     (let n = length rows; wins = how_many (is_win \<circ> outcome_of) rows in
      rbind (if n = 0 then Inr None else rbind (wilson_lower wins n wilson_z) (\<lambda>x. Inr (Some x))) (\<lambda>wilson.
      rbind (rmap confidence rows) (\<lambda>confs.
      let whole = (n \<noteq> 0 \<and> list_all (\<lambda>c. c \<noteq> None) confs) in
      rbind (if whole then rbind (brier_of rows confs) (\<lambda>x. Inr (Some x)) else Inr None) (\<lambda>brier.
      rbind (if whole then ece rows 10 else Inr None) (\<lambda>e.
        Inr (quality_report n whole (how_many (\<lambda>c. c \<noteq> None) confs) wilson brier e))))))"

subsection \<open>The score of a symbol\<close>

definition gates_of :: "pydict \<Rightarrow> pydict \<Rightarrow> pydict \<Rightarrow> pydict res" where
  "gates_of long short all_rows =
     rbind (gate long min_direction_n long_min_win_rate_pct) (\<lambda>a.
     rbind (gate short min_direction_n short_min_win_rate_pct) (\<lambda>b.
     rbind (gate all_rows min_global_n global_min_win_rate_pct) (\<lambda>c.
       Inr [(''long_1h'', VDict a), (''short_1h'', VDict b), (''global_1h'', VDict c)])))"

definition empty_symbol_score :: "pyval \<Rightarrow> pydict res" where
  "empty_symbol_score symbol =
     rbind (gates_of (bucket_of []) (bucket_of []) (bucket_of [])) (\<lambda>gates.
     rbind (quality_metrics []) (\<lambda>quality.
       Inr [(''symbol'', symbol), (''score_status'', VStr ''UNKNOWN''), (''authoritative_score_pct'', VNone),
            (''observed_win_rate_pct'', VNone), (''observed_win_rate_diagnostic_only'', VBool True),
            (''win_rate_pct'', VFloat fzero), (''win_rate_pct_is_authoritative'', VBool False),
            (''proof_qualified_rows_raw'', VInt 0), (''independent_1h_rows'', VInt 0), (''authority_cohort'', cohort_name),
            (''verified'', VInt 0), (''wins'', VInt 0), (''losses'', VInt 0), (''posterior_accuracy'', VNone),
            (''by_direction'', VDict (map (\<lambda>d. (d, VDict (bucket_of []))) directions)),
            (''gates'', VDict gates), (''quality'', VDict quality),
            (''reasons'', VList [VStr ''NO_PROOF_QUALIFIED_EVIDENCE'']), (''short_only_paper_mode'', VBool False)]))"

text \<open>The status and its reasons.\<close>

definition score_status_of :: "nat \<Rightarrow> bool \<Rightarrow> bool \<Rightarrow> bool \<Rightarrow> bool \<Rightarrow> string \<times> string list" where
  "score_status_of n enough gates_pass whole wilson_pass =
     (if n = 0 then (''UNKNOWN'', [''NO_INDEPENDENT_PROOF_QUALIFIED_EVIDENCE''])
      else if \<not> enough then (''INSUFFICIENT_EVIDENCE'', [''INSUFFICIENT_INDEPENDENT_1H_SAMPLE''])
      else (''REJECTED'',
        (if \<not> gates_pass then [''DIRECTIONAL_OR_GLOBAL_EDGE_GATE_FAILED''] else [])
        @ (if \<not> whole then [''INVALID_OR_MISSING_CONFIDENCE''] else [])
        @ (if \<not> wilson_pass then [''EDGE_NOT_DEMONSTRATED_AT_95PCT''] else [])
        @ [''CONFIDENCE_PROBABILITY_SEMANTICS_UNVALIDATED'']))"

definition posterior_of :: "nat \<Rightarrow> nat \<Rightarrow> pyfloat option res" where
  "posterior_of wins n =
     (if n = 0 then Inr None
      else rbind (float_of_int (int wins)) (\<lambda>w. rbind (float_of_int (int n)) (\<lambda>k.
        rbind (fdiv (fadd w (flit 1 0)) (fadd k (flit 2 0))) (\<lambda>p. Inr (Some p)))))"

definition verified_in :: "pydict list \<Rightarrow> nat" where
  "verified_in rows = how_many (is_win \<circ> outcome_of) rows + how_many (is_loss \<circ> outcome_of) rows"

text \<open>The report of \<^verbatim>\<open>_score_symbol\<close> from its parts; \<open>raw\<close> and \<open>ind\<close> are the raw and the independent rows.\<close>

definition symbol_report ::
  "string \<Rightarrow> pydict list \<Rightarrow> pydict list \<Rightarrow> pyfloat option \<Rightarrow> pydict \<Rightarrow> pydict \<Rightarrow> pydict" where
  "symbol_report symbol raw ind posterior gates quality =
     (let wins = (\<lambda>rows. VInt (int (how_many (is_win \<circ> outcome_of) rows)));
          losses = (\<lambda>rows. VInt (int (how_many (is_loss \<circ> outcome_of) rows)));
          n = verified_in ind; qgates = as_dict (dget quality ''gates'');
          observed = (if verified_in raw \<noteq> 0 then dget (bucket_of raw) ''win_rate_pct'' else VNone);
          enough = (min_global_n \<le> int n \<and> min_direction_n \<le> int (verified_in (toward ''LONG'' ind))
                    \<and> min_direction_n \<le> int (verified_in (toward ''SHORT'' ind)));
          (status, reasons) = score_status_of n enough (list_all (passes \<circ> snd) gates)
             (truthy (dget quality ''confidence_complete'')) (passes (dget qgates ''wilson_lower_95''))
      in [(''symbol'', VStr symbol), (''score_status'', VStr status),
          (''authoritative_score_pct'',
             case posterior of
               None \<Rightarrow> VNone
             | Some p \<Rightarrow> if status = ''CALIBRATED'' \<and> list_all (passes \<circ> snd) qgates
                 then VFloat (py_round 2 (fmul p (flit 100 0))) else VNone),
          (''observed_win_rate_pct'', observed), (''observed_win_rate_diagnostic_only'', VBool True),
          (''win_rate_pct'', if observed = VNone then VFloat fzero else observed),
          (''win_rate_pct_is_authoritative'', VBool False), (''proof_qualified_rows_raw'', VInt (int (length raw))),
          (''independent_1h_rows'', VInt (int (length ind))), (''authority_cohort'', cohort_name),
          (''verified'', VInt (int n)), (''wins'', wins ind), (''losses'', losses ind),
          (''posterior_accuracy'', rounded 6 posterior),
          (''raw_diagnostic'', VDict [(''verified'', VInt (int (verified_in raw))), (''wins'', wins raw),
             (''losses'', losses raw), (''win_rate_pct'', observed), diagnostic]),
          (''by_direction'', VDict (map (\<lambda>d. (d, VDict (bucket_of (toward d ind)))) directions)),
          (''gates'', VDict gates), (''quality'', VDict quality), (''reasons'', VList (map VStr reasons)),
          (''short_only_paper_mode'',
             VBool (passes (dget gates ''short_1h'') \<and> \<not> passes (dget gates ''long_1h'')))])"

definition score_symbol :: "local_zone \<Rightarrow> string \<Rightarrow> pydict list \<Rightarrow> pydict res" where
  "score_symbol zone symbol raw =
     rbind (independent_1h_cohort zone raw) (\<lambda>ind.
     rbind (posterior_of (how_many (is_win \<circ> outcome_of) ind) (verified_in ind)) (\<lambda>posterior.
     rbind (gates_of (bucket_of (toward ''LONG'' ind)) (bucket_of (toward ''SHORT'' ind)) (bucket_of ind)) (\<lambda>gates.
     rbind (quality_metrics ind) (\<lambda>quality.
       Inr (symbol_report symbol raw ind posterior gates quality)))))"

subsection \<open>The report\<close>

text \<open>\<^verbatim>\<open>grouped[symbol].append(row)\<close> for the rows with a symbol.\<close>

fun add_row :: "string \<Rightarrow> pydict \<Rightarrow> (string \<times> pydict list) list \<Rightarrow> (string \<times> pydict list) list" where
  "add_row k row [] = [(k, [row])]"
| "add_row k row ((k', rows) # groups) =
     (if k' = k then (k', rows @ [row]) # groups else (k', rows) # add_row k row groups)"

definition group_rows :: "pydict list \<Rightarrow> (string \<times> pydict list) list" where
  "group_rows rows =
     foldl (\<lambda>groups row. let k = plain_symbol (dget row ''symbol'') in if k \<noteq> [] then add_row k row groups else groups)
       [] rows"

definition group_of :: "(string \<times> pydict list) list \<Rightarrow> string \<Rightarrow> pydict list" where
  "group_of groups k = (case map_of groups k of None \<Rightarrow> [] | Some rows \<Rightarrow> rows)"

definition scores_by_symbol :: "local_zone \<Rightarrow> (string \<times> pydict list) list \<Rightarrow> (string \<times> pydict) list res" where
  "scores_by_symbol zone groups =
     rmap (\<lambda>(k, rows). rbind (score_symbol zone k rows) (\<lambda>sc. Inr (k, sc))) (sort_key fst groups)"

text \<open>The symbol that the report is about: its rows and its score, if there is one.\<close>

definition select_score ::
  "pyval \<Rightarrow> (string \<times> pydict list) list \<Rightarrow> (string \<times> pydict) list \<Rightarrow> (pydict list \<times> pydict) option res" where
  "select_score requested groups by_symbol =
     (case requested of
        VStr (c # s) \<Rightarrow>
          rbind (case map_of by_symbol (c # s) of Some sc \<Rightarrow> Inr sc | None \<Rightarrow> empty_symbol_score requested) (\<lambda>sc.
            Inr (Some (group_of groups (c # s), sc)))
      | _ \<Rightarrow> Inr (case by_symbol of [(k, sc)] \<Rightarrow> Some (group_of groups k, sc) | _ \<Rightarrow> None))"

definition score_head ::
  "pyval \<Rightarrow> (pydict list \<times> pydict) option \<Rightarrow> bool \<Rightarrow> nat \<Rightarrow> pydict" where
  "score_head requested sel any raw_total =
     (let raw_n = VInt (int (case sel of Some (rows, sc) \<Rightarrow> length rows | None \<Rightarrow> raw_total));
          of_sel = (\<lambda>k v. case sel of Some (rows, sc) \<Rightarrow> dget sc k | None \<Rightarrow> v)
      in [(''version'', VStr ''AUD-059-score-truth-v4''), (''score_scope'', VStr ''PER_SYMBOL''),
          (''requested_symbol'', requested),
          (''score_status'', of_sel ''score_status'' (VStr (if any then ''MULTI_INSTRUMENT_REPORT'' else ''UNKNOWN''))),
          (''authoritative_score_pct'', of_sel ''authoritative_score_pct'' VNone), (''authority_cohort'', cohort_name),
          (''authority_horizon_seconds'', VInt 3600), (''authority_n_field'', VStr ''independent_1h_rows''),
          (''proof_qualified_rows_raw'', raw_n), (''independent_1h_rows'', of_sel ''independent_1h_rows'' (VInt 0)),
          (''proof_qualified_rows'', raw_n), (''observed_win_rate_pct'', of_sel ''observed_win_rate_pct'' VNone),
          (''observed_win_rate_diagnostic_only'', VBool True),
          (''win_rate_pct'', of_sel ''win_rate_pct'' (VFloat fzero)), (''win_rate_pct_is_authoritative'', VBool False),
          (''confidence_semantics'', VStr ''RAW_CONVICTION''), (''confidence_probability_semantics'', VStr ''UNVALIDATED'')])"

definition score_tail :: "pydict list option \<Rightarrow> (string \<Rightarrow> pyval \<Rightarrow> pyval) \<Rightarrow> pydict \<Rightarrow> (string \<times> pydict) list \<Rightarrow> pydict" where
  "score_tail sel_rows of_sel authority_1h by_symbol =
     [(''verified'', of_sel ''verified'' (VInt 0)), (''wins'', of_sel ''wins'' (VInt 0)),
      (''losses'', of_sel ''losses'' (VInt 0)), (''posterior_accuracy'', of_sel ''posterior_accuracy'' VNone),
      (''by_direction'', of_sel ''by_direction'' (VDict [])), (''authority_1h'', VDict authority_1h),
      (''by_window'', VDict (case sel_rows of None \<Rightarrow> [] | Some rows \<Rightarrow> by_window rows)),
      (''by_window_diagnostic_only'', VBool True), (''gates'', of_sel ''gates'' (VDict [])),
      (''quality'', of_sel ''quality'' (VDict [])),
      (''reasons'', of_sel ''reasons'' (VList [VStr ''SYMBOL_REQUIRED_FOR_AUTHORITATIVE_SCORE''])),
      (''by_symbol'', VDict (map (\<lambda>(k, sc). (k, VDict sc)) by_symbol)),
      (''minimum_evidence'', VDict [(''global_n'', VInt min_global_n), (''direction_n'', VInt min_direction_n),
         (''n_source'', cohort_name)]),
      (''directional_gate_semantics'', VStr ''OPERATIONAL_POINT_ESTIMATE''),
      (''directional_gates_are_edge_evidence'', VBool False),
      (''statistical_edge_evidence_gate'', VStr ''quality.gates.wilson_lower_95''),
      (''quality_thresholds'', VDict [(''min_wilson_lower_95'', VFloat min_wilson_lower), (''max_brier'', VFloat max_brier),
         (''max_ece'', VFloat max_ece), (''brier_ece_authority_enabled'', VBool False),
         (''blocked_reason'', VStr ''UNVALIDATED_PROBABILITY_SEMANTICS'')]),
      (''short_only_paper_mode'', of_sel ''short_only_paper_mode'' (VBool False)),
      (''trade_mode'', VStr ''PAPER''), (''orders_enabled'', VBool False), (''live_capital_locked'', VBool True)]"

text \<open>The runtime state is accepted and ignored.\<close>

definition build_authoritative_score :: "local_zone \<Rightarrow> pydict list \<Rightarrow> pyval \<Rightarrow> pyval \<Rightarrow> pydict res" where
  "build_authoritative_score zone rows runner_state symbol =
     rbind (filter_proof_qualified rows) (\<lambda>qualified.
     let groups = group_rows qualified;
         requested = (if truthy symbol then VStr (plain_symbol symbol) else VNone) in
     rbind (scores_by_symbol zone groups) (\<lambda>by_symbol.
     rbind (select_score requested groups by_symbol) (\<lambda>sel.
     rbind (case sel of Some (rs, sc) \<Rightarrow> Inr sc | None \<Rightarrow> empty_symbol_score requested) (\<lambda>payload.
     rbind (authority_1h_payload payload) (\<lambda>authority_1h.
       let asked = how_many (\<lambda>r. requested = VNone \<or> requested = VStr (plain_symbol (dget r ''symbol''))) rows
       in Inr (score_head requested sel (by_symbol \<noteq> []) (length qualified)
               @ [(''total_predictions'', VInt (int asked)), (''input_rows'', VInt (int (length rows)))]
               @ score_tail (map_option fst sel) (\<lambda>k v. case sel of Some (rs, sc) \<Rightarrow> dget sc k | None \<Rightarrow> v)
                   authority_1h by_symbol))))))"

subsection \<open>The cohort\<close>

lemma fl_value_scaled:
  assumes "g \<le> e"
  shows "fl_value (Flt s m e) = of_int (fl_int s m * 2 ^ nat (e - g)) * power_int 2 g"
proof -
  have p: "(2::rat) ^ nat k / 2 ^ nat (- k) = power_int 2 k" for k
    by (cases "0 \<le> k") (auto simp: power_int_def field_simps power_inverse)
  have "power_int (2::rat) e = power_int 2 (e - g) * power_int 2 g" by (simp flip: power_int_add)
  moreover have "power_int (2::rat) (e - g) = 2 ^ nat (e - g)" using assms by (simp add: power_int_def)
  ultimately show ?thesis using p [of e] by (simp add: field_simps)
qed

lemma fle_value: "is_finite x \<Longrightarrow> is_finite y \<Longrightarrow> fle x y \<longleftrightarrow> fl_value x \<le> fl_value y"
proof (cases x; cases y; simp)
  fix s t :: bool and m n :: nat and e f :: int
  let ?g = "min (e::int) f"
  let ?a = "fl_int s m * 2 ^ nat (e - ?g)" and ?b = "fl_int t n * 2 ^ nat (f - ?g)"
  have v: "fl_value (Flt s m e) = of_int ?a * power_int 2 ?g" "fl_value (Flt t n f) = of_int ?b * power_int 2 ?g"
    by (rule fl_value_scaled, simp)+
  have "0 < power_int (2::rat) ?g" by simp
  then have "fl_value (Flt s m e) \<le> fl_value (Flt t n f) \<longleftrightarrow> ?a \<le> ?b"
    unfolding v by (simp only: mult_le_cancel_right_pos of_int_le_iff)
  moreover have "fle (Flt s m e) (Flt t n f) \<longleftrightarrow> ?a \<le> ?b"
    unfolding fle_def flt.simps feq.simps Let_def by linarith
  ultimately have *: "fle (Flt s m e) (Flt t n f) \<longleftrightarrow> fl_value (Flt s m e) \<le> fl_value (Flt t n f)" by simp
  show "fle (Flt s m e) (Flt t n f) =
    (of_int (fl_int s m) * 2 ^ nat e / 2 ^ nat (- e) \<le> (of_int (fl_int t n) * 2 ^ nat f / 2 ^ nat (- f) :: rat))"
    using * by simp
qed

lemma stamp_fle: "stamp_of x \<le> stamp_of y \<Longrightarrow> is_finite y \<Longrightarrow> is_finite x \<and> fle x y"
  by (auto simp: stamp_of_def fle_value split: if_split_asm)

abbreviation hour_apart :: "pyfloat \<Rightarrow> pyfloat \<Rightarrow> bool" where
  "hour_apart p t \<equiv> fle (fadd p independent_horizon_s) t"

lemma pick_apart_mem: "x \<in> set (pick_apart prev xs) \<Longrightarrow> x \<in> set xs \<and> is_finite (fst x)"
  by (induction prev xs rule: pick_apart.induct) (auto split: if_split_asm)

lemma pick_apart_successive:
  "successively (\<lambda>x y. hour_apart (fst x) (fst y)) (pick_apart prev xs)
   \<and> (\<forall>p. prev = Some p \<longrightarrow> pick_apart prev xs \<noteq> [] \<longrightarrow> hour_apart p (fst (hd (pick_apart prev xs))))"
  by (induction prev xs rule: pick_apart.induct) (auto simp: successively_Cons split: option.splits)

lemma pick_apart_maximal:
  assumes "sorted (map (\<lambda>x. stamp_of (fst x)) xs)" "\<forall>p. prev = Some p \<longrightarrow> is_finite p \<and> (\<forall>x \<in> set xs. stamp_of p \<le> stamp_of (fst x))"
    "(t, row) \<in> set xs" "is_finite t"
  shows "(t, row) \<in> set (pick_apart prev xs)
    \<or> (\<exists>p. (prev = Some p \<or> p \<in> fst ` set (pick_apart prev xs)) \<and> fle p t \<and> \<not> hour_apart p t)"
  using assms
proof (induction prev xs rule: pick_apart.induct)
  case (2 prev u r rest)
  note ih1 = 2(1) and ih2 = 2(2) and ih3 = 2(3)
  from 2(4) have s: "sorted (map (\<lambda>x. stamp_of (fst x)) rest)" and u: "\<forall>x \<in> set rest. stamp_of u \<le> stamp_of (fst x)" by (auto simp: o_def)
  from 2(5) have p: "\<forall>p. prev = Some p \<longrightarrow> is_finite p \<and> (\<forall>x \<in> set rest. stamp_of p \<le> stamp_of (fst x))"
    and pu: "\<And>p. prev = Some p \<Longrightarrow> stamp_of p \<le> stamp_of u" by auto
  show ?case
  proof (cases "is_finite u \<and> (case prev of None \<Rightarrow> True | Some p \<Rightarrow> hour_apart p u)")
    case True
    then have k: "pick_apart prev ((u, r) # rest) = (u, r) # pick_apart (Some u) rest" by simp
    show ?thesis
    proof (cases "(t, row) = (u, r)")
      case False
      with 2(6) have "(t, row) \<in> set rest" by auto
      with ih2 True s u 2(7) have "(t, row) \<in> set (pick_apart (Some u) rest)
        \<or> (\<exists>p. (Some u = Some p \<or> p \<in> fst ` set (pick_apart (Some u) rest)) \<and> fle p t \<and> \<not> hour_apart p t)" by auto
      then show ?thesis unfolding k by auto
    qed (simp add: k del: pick_apart.simps)
  next
    case False
    then have k: "pick_apart prev ((u, r) # rest) = pick_apart prev rest" by auto
    show ?thesis
    proof (cases "(t, row) = (u, r)")
      case True
      with False 2(7) obtain p where "prev = Some p" "\<not> hour_apart p t" by (auto split: option.split_asm)
      moreover from this pu True have "fle p t" using stamp_fle 2(7) by auto
      ultimately show ?thesis by auto
    next
      case n: False
      with 2(6) have "(t, row) \<in> set rest" by auto
      with ih1 ih3 False s p 2(7) show ?thesis unfolding k by (cases "is_finite u") auto
    qed
  qed
qed simp

lemma rmap_mem: "rmap f xs = Inr ys \<Longrightarrow> y \<in> set ys \<longleftrightarrow> (\<exists>x \<in> set xs. f x = Inr y)"
  by (induction xs arbitrary: ys) (auto simp: rbind_Inr_iff)

lemma with_ts_Inr: "with_ts zone row = Inr x \<longleftrightarrow> (\<exists>t. ts_seconds zone row = Inr t \<and> x = (t, row))"
  by (auto simp: with_ts_def rbind_Inr_iff)

lemma sorted_stamps: "sorted (map (\<lambda>x. stamp_of (fst x)) (sort_key stable_row_key xs))"
proof -
  have "sorted (map stable_row_key (sort_key stable_row_key xs))" by simp
  moreover have "stable_row_key x \<le> stable_row_key y \<Longrightarrow> stamp_of (fst x) \<le> stamp_of (fst y)" for x y
    by (auto simp: stable_row_key_def split: prod.splits)
  ultimately show ?thesis unfolding sorted_map by (rule sorted_wrt_mono_rel [rotated])
qed

text \<open>C26: the cohort consists of rows of the input, one hour apart from the previous one at least, and leaves
  out no row that it could take: a row with a timestamp is in the cohort or less than an hour after a row that is.\<close>

theorem cohort_spaced:
  assumes "timed_cohort zone rows = Inr sel"
  shows "successively (\<lambda>x y. fle (fadd (fst x) independent_horizon_s) (fst y)) sel
    \<and> (\<forall>x \<in> set sel. snd x \<in> set rows \<and> ts_seconds zone (snd x) = Inr (fst x) \<and> is_finite (fst x))
    \<and> (\<forall>row \<in> set rows. \<forall>t. ts_seconds zone row = Inr t \<and> is_finite t \<longrightarrow>
         (t, row) \<in> set sel \<or> (\<exists>x \<in> set sel. fle (fst x) t \<and> \<not> fle (fadd (fst x) independent_horizon_s) t))"
proof -
  from assms obtain timed where r: "rmap (with_ts zone) rows = Inr timed"
    and sel: "sel = pick_apart None (sort_key stable_row_key timed)" by (auto simp: timed_cohort_def rbind_Inr_iff)
  have m: "y \<in> set timed \<longleftrightarrow> snd y \<in> set rows \<and> ts_seconds zone (snd y) = Inr (fst y)" for y
    by (cases y) (auto simp: rmap_mem [OF r] with_ts_Inr)
  have "(t, row) \<in> set sel \<or> (\<exists>x \<in> set sel. fle (fst x) t \<and> \<not> hour_apart (fst x) t)"
    if "row \<in> set rows" "ts_seconds zone row = Inr t" "is_finite t" for row t
    using pick_apart_maximal [OF sorted_stamps, where prev = None and t = t and row = row and xs1 = timed] that m [of "(t, row)"] unfolding sel by auto
  moreover have "snd x \<in> set rows \<and> ts_seconds zone (snd x) = Inr (fst x) \<and> is_finite (fst x)" if "x \<in> set sel" for x
    using pick_apart_mem [of x None "sort_key stable_row_key timed"] that m [of x] unfolding sel by simp
  ultimately show ?thesis using pick_apart_successive [of None "sort_key stable_row_key timed"] unfolding sel by blast
qed

text \<open>C27: the cohort does not depend on the order in which the rows come, provided that different rows have
  different canonical texts.\<close>

theorem cohort_order_independent:
  assumes "mset rows = mset rows'" "inj_on row_text (set rows)" "independent_1h_cohort zone rows = Inr sel"
  shows "independent_1h_cohort zone rows' = Inr sel"
proof -
  from assms(3) obtain timed where r: "rmap (with_ts zone) rows = Inr timed"
    and sel: "sel = map snd (pick_apart None (sort_key stable_row_key timed))"
    by (auto simp: independent_1h_cohort_def timed_cohort_def rbind_Inr_iff)
  have ts: "\<exists>t. ts_seconds zone row = Inr t" if "row \<in> set rows" for row
    using r that by (induction rows arbitrary: timed) (auto simp: rbind_Inr_iff with_ts_Inr)
  define f where "f row = (case ts_seconds zone row of Inr t \<Rightarrow> t | Inl e \<Rightarrow> FNaN, row)" for row
  have f: "with_ts zone row = Inr (f row)" if "row \<in> set rows" for row
    using ts [OF that] by (auto simp: with_ts_def f_def)
  have timed: "timed = map f rows" using rmap_map_Inr [of rows "with_ts zone" f] f r by simp
  have s: "set rows' = set rows" using assms(1) by (metis mset_eq_setD)
  have r': "rmap (with_ts zone) rows' = Inr (map f rows')" using f s by (auto intro: rmap_map_Inr)
  have "inj_on stable_row_key (set timed)"
    using assms(2) by (auto simp: timed inj_on_def stable_row_key_def f_def)
  moreover have "mset timed = mset (map f rows')" using assms(1) by (simp add: timed)
  moreover have "mset (sort_key stable_row_key (map f rows')) = mset (map f rows')" by simp
  ultimately have "sort_key stable_row_key timed = sort_key stable_row_key (map f rows')"
    by (intro sort_key_inj_key_eq) simp_all
  then show ?thesis by (simp add: independent_1h_cohort_def timed_cohort_def r' sel)
qed

subsection \<open>Fails closed\<close>

definition closed_status :: "pyval set" where
  "closed_status = VStr ` {''UNKNOWN'', ''INSUFFICIENT_EVIDENCE'', ''REJECTED'', ''MULTI_INSTRUMENT_REPORT''}"

lemma score_status_cases: "fst (score_status_of n a b c d) \<in> {''UNKNOWN'', ''INSUFFICIENT_EVIDENCE'', ''REJECTED''}"
  by (simp add: score_status_of_def)

lemma symbol_report_fields:
  fixes raw ind posterior gates quality k
  defines "sc \<equiv> symbol_report k raw ind posterior gates quality"
  shows "dget sc ''authoritative_score_pct'' = VNone" and "dget sc ''score_status'' \<in> closed_status"
    and "dget sc ''verified'' = VInt (int (verified_in ind))"
    and "dget sc ''independent_1h_rows'' = VInt (int (length ind))"
    and "dget sc ''wins'' = VInt (int (how_many (is_win \<circ> outcome_of) ind))"
    and "dget sc ''losses'' = VInt (int (how_many (is_loss \<circ> outcome_of) ind))"
    and "dget sc ''symbol'' = VStr k"
    and "dget sc ''by_direction'' = VDict (map (\<lambda>d. (d, VDict (bucket_of (toward d ind)))) directions)"
proof -
  obtain status reasons where st: "score_status_of (verified_in ind)
      (min_global_n \<le> int (verified_in ind) \<and> min_direction_n \<le> int (verified_in (toward ''LONG'' ind))
        \<and> min_direction_n \<le> int (verified_in (toward ''SHORT'' ind)))
      (list_all (passes \<circ> snd) gates) (truthy (dget quality ''confidence_complete''))
      (passes (dget (as_dict (dget quality ''gates'')) ''wilson_lower_95'')) = (status, reasons)" by force
  then have "status \<in> {''UNKNOWN'', ''INSUFFICIENT_EVIDENCE'', ''REJECTED''}" using score_status_cases by (metis fst_conv)
  then have st_in: "VStr status \<in> closed_status" "status \<noteq> ''CALIBRATED''" by (auto simp: closed_status_def)
  note f = sc_def symbol_report_def st Let_def prod.case dget_find
  show "dget sc ''authoritative_score_pct'' = VNone" using st_in(2) unfolding f by (simp split: option.split)
  show "dget sc ''score_status'' \<in> closed_status" using st_in(1) unfolding f by simp
  show "dget sc ''verified'' = VInt (int (verified_in ind))" unfolding f by simp
  show "dget sc ''independent_1h_rows'' = VInt (int (length ind))" unfolding f by simp
  show "dget sc ''wins'' = VInt (int (how_many (is_win \<circ> outcome_of) ind))" unfolding f by simp
  show "dget sc ''losses'' = VInt (int (how_many (is_loss \<circ> outcome_of) ind))" unfolding f by simp
  show "dget sc ''symbol'' = VStr k" unfolding f by simp
  show "dget sc ''by_direction'' = VDict (map (\<lambda>d. (d, VDict (bucket_of (toward d ind)))) directions)"
    unfolding f by simp
qed

lemma score_symbol_report:
  assumes "score_symbol zone k raw = Inr sc"
  obtains ind posterior gates quality where "independent_1h_cohort zone raw = Inr ind"
    "sc = symbol_report k raw ind posterior gates quality"
  using assms by (auto simp: score_symbol_def rbind_Inr_iff)

lemma score_symbol_closed:
  "score_symbol zone k raw = Inr sc \<Longrightarrow> dget sc ''authoritative_score_pct'' = VNone \<and> dget sc ''score_status'' \<in> closed_status"
  by (erule score_symbol_report) (simp add: symbol_report_fields)

lemma empty_score_closed:
  "empty_symbol_score v = Inr sc \<Longrightarrow> dget sc ''authoritative_score_pct'' = VNone \<and> dget sc ''score_status'' \<in> closed_status"
  by (auto simp: empty_symbol_score_def rbind_Inr_iff dget_def closed_status_def)

lemma scores_by_symbol_mem:
  assumes "scores_by_symbol zone groups = Inr by_symbol" "(k, sc) \<in> set by_symbol"
  obtains raw where "(k, raw) \<in> set groups" "score_symbol zone k raw = Inr sc"
  using assms by (auto simp: scores_by_symbol_def rmap_mem rbind_Inr_iff)

lemma select_score_cases:
  assumes "select_score requested groups by_symbol = Inr (Some (rs, sc))"
  shows "(\<exists>k. (k, sc) \<in> set by_symbol) \<or> empty_symbol_score requested = Inr sc"
proof -
  have "(\<exists>k. (k, sc) \<in> set by_symbol)"
    if "(case by_symbol of [(k, sc)] \<Rightarrow> Some (group_of groups k, sc) | _ \<Rightarrow> None) = Some (rs, sc)"
    using that by (auto split: list.split_asm)
  with assms show ?thesis
    by (auto simp: select_score_def rbind_Inr_iff split: pyval.split_asm list.split_asm option.split_asm dest: map_of_SomeD)
qed

text \<open>The fields of the report, as those of the selected score.\<close>

definition of_selected :: "(pydict list \<times> pydict) option \<Rightarrow> string \<Rightarrow> pyval \<Rightarrow> pyval" where
  "of_selected sel k v = (case sel of Some (rs, sc) \<Rightarrow> dget sc k | None \<Rightarrow> v)"

lemma build_report:
  assumes "build_authoritative_score zone rows runner_state symbol = Inr rep"
  obtains good by_symbol sel payload authority where "filter_proof_qualified rows = Inr good"
    "scores_by_symbol zone (group_rows good) = Inr by_symbol"
    "select_score (if truthy symbol then VStr (plain_symbol symbol) else VNone) (group_rows good) by_symbol = Inr sel"
    "(case sel of Some (rs, sc) \<Rightarrow> Inr sc
      | None \<Rightarrow> empty_symbol_score (if truthy symbol then VStr (plain_symbol symbol) else VNone)) = Inr payload"
    "authority_1h_payload payload = Inr authority"
    "dget rep ''requested_symbol'' = (if truthy symbol then VStr (plain_symbol symbol) else VNone)"
    "dget rep ''score_scope'' = VStr ''PER_SYMBOL''"
    "dget rep ''authoritative_score_pct'' = of_selected sel ''authoritative_score_pct'' VNone"
    "dget rep ''score_status'' = of_selected sel ''score_status'' (VStr (if by_symbol \<noteq> [] then ''MULTI_INSTRUMENT_REPORT'' else ''UNKNOWN''))"
    "dget rep ''authority_1h'' = VDict authority"
    "dget rep ''by_symbol'' = VDict (map (\<lambda>(k, sc). (k, VDict sc)) by_symbol)"
    "dget rep ''trade_mode'' = VStr ''PAPER''" "dget rep ''orders_enabled'' = VBool False"
    "dget rep ''live_capital_locked'' = VBool True"
proof -
  define requested where "requested = (if truthy symbol then VStr (plain_symbol symbol) else VNone)"
  from assms obtain good by_symbol sel payload authority asked where
    parts: "filter_proof_qualified rows = Inr good" "scores_by_symbol zone (group_rows good) = Inr by_symbol"
    "select_score requested (group_rows good) by_symbol = Inr sel"
    "(case sel of Some (rs, sc) \<Rightarrow> Inr sc | None \<Rightarrow> empty_symbol_score requested) = Inr payload"
    "authority_1h_payload payload = Inr authority"
    and rep: "rep = score_head requested sel (by_symbol \<noteq> []) (length good)
       @ [(''total_predictions'', VInt (int asked)), (''input_rows'', VInt (int (length rows)))]
       @ score_tail (map_option fst sel) (\<lambda>k v. case sel of Some (rs, sc) \<Rightarrow> dget sc k | None \<Rightarrow> v) authority by_symbol"
    unfolding build_authoritative_score_def Let_def rbind_Inr_iff sum.inject requested_def [symmetric]
    by (elim exE conjE) (rule that, assumption+, erule sym)
  note f = rep score_head_def score_tail_def Let_def append.simps dget_find of_selected_def
  have "dget rep ''requested_symbol'' = requested" "dget rep ''score_scope'' = VStr ''PER_SYMBOL''"
    "dget rep ''authoritative_score_pct'' = of_selected sel ''authoritative_score_pct'' VNone"
    "dget rep ''score_status'' = of_selected sel ''score_status'' (VStr (if by_symbol \<noteq> [] then ''MULTI_INSTRUMENT_REPORT'' else ''UNKNOWN''))"
    "dget rep ''authority_1h'' = VDict authority"
    "dget rep ''by_symbol'' = VDict (map (\<lambda>(k, sc). (k, VDict sc)) by_symbol)"
    "dget rep ''trade_mode'' = VStr ''PAPER''" "dget rep ''orders_enabled'' = VBool False"
    "dget rep ''live_capital_locked'' = VBool True"
    unfolding f by simp_all
  with parts show thesis unfolding requested_def by (intro that)
qed

text \<open>C28: no report claims an authoritative percentage, whatever the rows and the runtime state are: the field is
  None in the report and for every symbol in it, the status is one of the four that deny authority, and the report
  stays on paper.\<close>

theorem authority_fails_closed:
  assumes "build_authoritative_score zone rows runner_state symbol = Inr rep"
  shows "dget rep ''authoritative_score_pct'' = VNone \<and> dget rep ''score_status'' \<in> closed_status
    \<and> (\<forall>k sc. (k, VDict sc) \<in> set (as_dict (dget rep ''by_symbol'')) \<longrightarrow> dget sc ''authoritative_score_pct'' = VNone)
    \<and> dget rep ''trade_mode'' = VStr ''PAPER'' \<and> dget rep ''orders_enabled'' = VBool False
    \<and> dget rep ''live_capital_locked'' = VBool True"
proof -
  obtain good by_symbol sel payload authority where
    b: "scores_by_symbol zone (group_rows good) = Inr by_symbol"
    and s: "select_score (if truthy symbol then VStr (plain_symbol symbol) else VNone) (group_rows good) by_symbol = Inr sel"
    and rep: "dget rep ''authoritative_score_pct'' = of_selected sel ''authoritative_score_pct'' VNone"
    "dget rep ''score_status'' = of_selected sel ''score_status'' (VStr (if by_symbol \<noteq> [] then ''MULTI_INSTRUMENT_REPORT'' else ''UNKNOWN''))"
    "dget rep ''by_symbol'' = VDict (map (\<lambda>(k, sc). (k, VDict sc)) by_symbol)"
    "dget rep ''trade_mode'' = VStr ''PAPER''" "dget rep ''orders_enabled'' = VBool False"
    "dget rep ''live_capital_locked'' = VBool True"
    by (rule build_report [OF assms]) (rule that)
  have each: "dget sc ''authoritative_score_pct'' = VNone \<and> dget sc ''score_status'' \<in> closed_status"
    if "(k, sc) \<in> set by_symbol" for k sc
    using scores_by_symbol_mem [OF b that] score_symbol_closed by metis
  have "dget sc ''authoritative_score_pct'' = VNone \<and> dget sc ''score_status'' \<in> closed_status"
    if "sel = Some (rs, sc)" for rs sc
    using select_score_cases [of _ "group_rows good" by_symbol rs sc] s that each empty_score_closed by blast
  then have "of_selected sel ''authoritative_score_pct'' VNone = VNone"
    "of_selected sel ''score_status'' (VStr (if by_symbol \<noteq> [] then ''MULTI_INSTRUMENT_REPORT'' else ''UNKNOWN'')) \<in> closed_status"
    by (cases sel; auto simp: of_selected_def closed_status_def)+
  with rep each show ?thesis by auto
qed

subsection \<open>Examples\<close>

lemma ts_seconds_isoformat:
  assumes "dget row ''ts'' = VStr (isoformat_utc u)" "0 \<le> u" "u < max_instant"
  shows "ts_seconds zone row = Inr (total_seconds (u - unix_epoch))"
proof -
  have "replace_all ''Z'' ''+00:00'' (isoformat_utc u) = isoformat_utc u"
    by (rule replace_none) (use isoformat_no_z [OF assms(2,3)] in blast)
  moreover have "isoformat_utc u \<noteq> []" by (simp add: isoformat_utc_def)
  ultimately show ?thesis
    using fromisoformat_isoformat [OF assms(2,3)] by (simp add: ts_seconds_def assms(1) timestamp_def)
qed

definition row_at :: "int \<Rightarrow> int \<Rightarrow> pydict" where
  "row_at i sec = [(''id'', VInt i), (''ts'', VStr (isoformat_utc (unix_epoch + sec * 1000000)))]"

lemma row_at_ts:
  assumes "0 \<le> sec" "sec \<le> 3600"
  shows "ts_seconds zone (row_at i sec) = Inr (total_seconds (sec * 1000000))"
  using ts_seconds_isoformat [of "row_at i sec" "unix_epoch + sec * 1000000" zone] assms
  by (simp add: row_at_def dget_find max_instant_def unix_epoch_def us_per_day_def)

lemma sample_seconds:
  "total_seconds 0 = Flt False 0 0" "total_seconds 1800000000 = Flt False (225 * 2 ^ 45) (- 42)"
  "total_seconds 3600000000 = Flt False (225 * 2 ^ 45) (- 41)"
  by (simp_all add: total_seconds_def round_by_simp)

lemma sample_hour:
  "hour_apart (Flt False 0 0) (Flt False (225 * 2 ^ 45) (- 41))"
  "\<not> hour_apart (Flt False 0 0) (Flt False (225 * 2 ^ 45) (- 42))"
proof -
  have h: "independent_horizon_s = Flt False (225 * 2 ^ 45) (- 41)"
    by (simp add: independent_horizon_s_def flit_def fl_of_dec_def round_by_simp)
  have "fadd (Flt False 0 0) independent_horizon_s = Flt False (225 * 2 ^ 45) (- 41)"
    unfolding h by (simp add: fl_int_def) (simp add: fl_of_scaled_def round_by_simp)
  then show "hour_apart (Flt False 0 0) (Flt False (225 * 2 ^ 45) (- 41))"
    "\<not> hour_apart (Flt False 0 0) (Flt False (225 * 2 ^ 45) (- 42))"
    by (simp_all add: fle_def fl_int_def)
qed

lemma sample_cohort:
  "timed_cohort zone [row_at 3 3600, row_at 2 1800, row_at 1 0]
   = Inr [(Flt False 0 0, row_at 1 0), (Flt False (225 * 2 ^ 45) (- 41), row_at 3 3600)]"
proof -
  let ?a = "(Flt False 0 0, row_at 1 0)" and ?b = "(Flt False (225 * 2 ^ 45) (- 42), row_at 2 1800)"
    and ?c = "(Flt False (225 * 2 ^ 45) (- 41), row_at 3 3600)"
  have t: "rmap (with_ts zone) [row_at 3 3600, row_at 2 1800, row_at 1 0] = Inr [?c, ?b, ?a]"
    using row_at_ts [of 3600 zone 3] row_at_ts [of 1800 zone 2] row_at_ts [of 0 zone 1]
    by (simp add: with_ts_def sample_seconds)
  have k: "stable_row_key ?a < stable_row_key ?b" "stable_row_key ?b < stable_row_key ?c" "stable_row_key ?a < stable_row_key ?c"
    by (simp_all add: stable_row_key_def stamp_of_def less_stamp_def fl_int_def)
  have "sort_key stable_row_key [?c, ?b, ?a] = [?a, ?b, ?c]" using k by (simp add: less_le_not_le)
  then show ?thesis using t sample_hour by (simp add: timed_cohort_def)
qed

theorem cohort_spaced_witness:
  "\<exists>sel. timed_cohort (\<lambda>_. Inr 0) [row_at 3 3600, row_at 2 1800, row_at 1 0] = Inr sel \<and> length sel = 2
    \<and> successively (\<lambda>x y. fle (fadd (fst x) independent_horizon_s) (fst y)) sel"
  using cohort_spaced [OF sample_cohort [of "\<lambda>_. Inr 0"]] sample_cohort [of "\<lambda>_. Inr 0"] by auto

lemma row_text_at: "\<exists>r. row_text (row_at i sec) = ''{'' @ jstr True ''id'' @ '':'' @ show_int i @ '','' @ r"
  by (simp add: row_text_def row_at_def)

lemma row_text_differ:
  assumes "show_int i = [x]" "show_int j = [y]" "x \<noteq> y"
  shows "row_text (row_at i sec) \<noteq> row_text (row_at j sec')"
  using row_text_at [of i sec] row_text_at [of j sec'] assms by auto

theorem cohort_order_independent_witness:
  "\<exists>sel. independent_1h_cohort (\<lambda>_. Inr 0) [row_at 1 0, row_at 2 1800, row_at 3 3600] = Inr sel \<and> length sel = 2"
proof -
  let ?rows = "[row_at 3 3600, row_at 2 1800, row_at 1 0]"
  have "row_text (row_at 1 0) \<noteq> row_text (row_at 2 1800)" "row_text (row_at 1 0) \<noteq> row_text (row_at 3 3600)"
    "row_text (row_at 2 1800) \<noteq> row_text (row_at 3 3600)"
    using row_text_differ [of 1 _ 2] row_text_differ [of 1 _ 3] row_text_differ [of 2 _ 3]
    by (simp_all add: show_int_def show_nat.simps digit_char_def)
  then have inj: "inj_on row_text (set ?rows)" by (auto simp: inj_on_def)
  have sel: "independent_1h_cohort (\<lambda>_. Inr 0) ?rows = Inr [row_at 1 0, row_at 3 3600]"
    by (simp add: independent_1h_cohort_def sample_cohort)
  have m: "mset ?rows = mset [row_at 1 0, row_at 2 1800, row_at 3 3600]" by simp
  show ?thesis using cohort_order_independent [OF m inj sel] by simp
qed

lemma fdiv_ok: "n \<noteq> 0 \<Longrightarrow> \<exists>q. fdiv x (Flt t n f) = Inr q"
  by (cases x) simp_all

lemma fsqrt_ok: "\<exists>q. fsqrt (Flt False m e) = Inr q"
  by (simp add: Let_def split: prod.split)

lemma sample_floats:
  "flit (Suc 0) 0 = Flt False 4503599627370496 (- 52)" "flit 2 0 = Flt False 4503599627370496 (- 51)"
  "flit 4 0 = Flt False 4503599627370496 (- 50)" "fl_of_int 1 = Flt False 4503599627370496 (- 52)"
  "nat_ratio (Suc 0) (Suc 0) = Flt False 4503599627370496 (- 52)" "wilson_z = Flt False 8826893070434180 (-52)"
  by (simp_all add: fl_of_int_def flit_def fl_of_dec_def nat_ratio_def wilson_z_def round_by_simp)

lemma sample_squares: "fmul wilson_z wilson_z = Flt False 8650196256718584 (-51)"
  "fdiv (Flt False 8650196256718584 (-51)) (fl_of_int 1) = Inr (Flt False 8650196256718584 (-51))"
  "fdiv (Flt False 8650196256718584 (-51)) (fmul (flit 2 0) (fl_of_int 1)) = Inr (Flt False 8650196256718584 (-52))"
  "fdiv (Flt False 8650196256718584 (-51)) (fmul (flit 4 0) (fl_of_int 1)) = Inr (Flt False 8650196256718584 (-53))"
  "fdiv (Flt False 8650196256718584 (-53)) (fl_of_int 1) = Inr (Flt False 8650196256718584 (-53))"
  unfolding sample_floats by (simp_all add: round_by_simp)

lemma sample_wilson_sums:
  "fadd (fmul (nat_ratio (Suc 0) (Suc 0)) (fsub (flit (Suc 0) 0) (nat_ratio (Suc 0) (Suc 0)))) (Flt False 8650196256718584 (-53)) = Flt False 8650196256718584 (-53)"
  "fadd (flit (Suc 0) 0) (Flt False 8650196256718584 (-51)) = Flt False 5450998035201916 (-50)"
proof -
  have "fmul (nat_ratio (Suc 0) (Suc 0)) (fsub (flit (Suc 0) 0) (nat_ratio (Suc 0) (Suc 0))) = Flt False 0 0"
    unfolding sample_floats by (simp add: fsub_def fl_int_def fl_of_scaled_def fl_round_def)
  moreover have "fadd (Flt False 0 0) (Flt False 8650196256718584 (-53)) = Flt False 8650196256718584 (-53)"
    by (simp add: fl_int_def) (simp add: fl_of_scaled_def round_by_simp)
  ultimately show "fadd (fmul (nat_ratio (Suc 0) (Suc 0)) (fsub (flit (Suc 0) 0) (nat_ratio (Suc 0) (Suc 0)))) (Flt False 8650196256718584 (-53)) = Flt False 8650196256718584 (-53)"
    by (simp only:)
  show "fadd (flit (Suc 0) 0) (Flt False 8650196256718584 (-51)) = Flt False 5450998035201916 (-50)"
    unfolding sample_floats by (simp add: fl_int_def) (simp add: fl_of_scaled_def round_by_simp)
qed

lemma sample_wilson: "\<exists>x. wilson_lower (Suc 0) (Suc 0) wilson_z = Inr x"
proof -
  have "is_finite (fl_of_int 1)" by (simp add: sample_floats)
  moreover obtain root where "fsqrt (Flt False 8650196256718584 (-53)) = Inr root" using fsqrt_ok by blast
  moreover obtain low where "fdiv (fsub (fadd (nat_ratio (Suc 0) (Suc 0)) (Flt False 8650196256718584 (-52))) (fmul wilson_z root)) (Flt False 5450998035201916 (-50)) = Inr low"
    using fdiv_ok by fastforce
  ultimately show ?thesis
    by (simp add: wilson_lower_def float_of_int_def sample_squares sample_wilson_sums Let_def)
qed

text \<open>The buckets and gates never fail, and the authority block repeats the counts of the cohort.\<close>

lemma bucket_fields:
  "dget (bucket_of rows) ''verified'' = VInt (int (verified_in rows))"
  "dget (bucket_of rows) ''wins'' = VInt (int (how_many (is_win \<circ> outcome_of) rows))"
  "dget (bucket_of rows) ''losses'' = VInt (int (how_many (is_loss \<circ> outcome_of) rows))"
  "dget (bucket_of rows) ''win_rate_pct'' = pct (how_many (is_win \<circ> outcome_of) rows) (verified_in rows)"
  by (simp_all add: bucket_of_def tally_def dget_find verified_in_def)

lemma int_of_por [simp]: "int_of (por (VInt i) (VInt 0)) = Inr i"
  by (simp add: por_def)

lemma pct_float: "\<exists>x. float_of (por (pct w n) (VFloat fzero)) = Inr x"
  by (simp add: por_def pct_def)

lemma gate_ok: "\<exists>g. gate (bucket_of rows) n t = Inr g"
proof -
  obtain x where "float_of (por (pct (how_many (is_win \<circ> outcome_of) rows) (verified_in rows)) (VFloat fzero)) = Inr x"
    using pct_float by blast
  then show ?thesis by (simp add: gate_def bucket_fields)
qed

lemma gates_ok: "\<exists>g. gates_of (bucket_of xs) (bucket_of ys) (bucket_of zs) = Inr g"
proof -
  obtain a b c where "gate (bucket_of xs) min_direction_n long_min_win_rate_pct = Inr a"
    "gate (bucket_of ys) min_direction_n short_min_win_rate_pct = Inr b"
    "gate (bucket_of zs) min_global_n global_min_win_rate_pct = Inr c" using gate_ok by metis
  then show ?thesis by (simp add: gates_of_def)
qed

lemma direction_bucket_ok:
  assumes "d \<in> set directions"
  shows "\<exists>b. direction_bucket (map (\<lambda>d. (d, VDict (bucket_of (f d)))) directions) d = Inr b"
proof -
  have "dget (map (\<lambda>d. (d, VDict (bucket_of (f d)))) directions) d = VDict (bucket_of (f d))"
    using assms by (auto simp: directions_def dget_find)
  moreover have "bucket_of (f d) \<noteq> []" by (simp add: bucket_of_def tally_def)
  moreover obtain x where
    "float_of (por (pct (how_many (is_win \<circ> outcome_of) (f d)) (verified_in (f d))) (VFloat fzero)) = Inr x"
    using pct_float by blast
  ultimately show ?thesis
    by (simp add: direction_bucket_def authority_bucket_def bucket_fields por_def [of "VDict _"])
qed

lemma authority_of_report:
  obtains authority where
    "authority_1h_payload (symbol_report k raw ind posterior gates quality) = Inr authority"
    "dget authority ''n_source'' = cohort_name"
    "dget authority ''global'' = VDict [(''verified'', VInt (int (verified_in ind))),
       (''wins'', VInt (int (how_many (is_win \<circ> outcome_of) ind))),
       (''losses'', VInt (int (how_many (is_loss \<circ> outcome_of) ind))),
       (''win_rate_pct'', VFloat (py_round 2 (if verified_in ind \<noteq> 0
          then fmul (int_ratio (int (how_many (is_win \<circ> outcome_of) ind)) (int (verified_in ind))) (flit 100 0)
          else fzero))),
       (''n_source'', cohort_name)]"
proof -
  let ?dirs = "map (\<lambda>d. (d, VDict (bucket_of (toward d ind)))) directions"
  have t: "por (VDict ?dirs) (VDict []) = VDict ?dirs" by (simp add: directions_def por_def)
  obtain a b c where "direction_bucket ?dirs ''LONG'' = Inr a" "direction_bucket ?dirs ''SHORT'' = Inr b"
    "direction_bucket ?dirs ''FLAT'' = Inr c"
    using direction_bucket_ok [of "''LONG''" "\<lambda>d. toward d ind"] direction_bucket_ok [of "''SHORT''" "\<lambda>d. toward d ind"]
      direction_bucket_ok [of "''FLAT''" "\<lambda>d. toward d ind"] by (auto simp: directions_def)
  then have "authority_1h_payload (symbol_report k raw ind posterior gates quality) = Inr
      [(''symbol'', VStr k), (''cohort'', cohort_name), (''n_source'', cohort_name), (''LONG'', a), (''SHORT'', b), (''FLAT'', c),
       (''global'', VDict [(''verified'', VInt (int (verified_in ind))),
         (''wins'', VInt (int (how_many (is_win \<circ> outcome_of) ind))),
         (''losses'', VInt (int (how_many (is_loss \<circ> outcome_of) ind))),
         (''win_rate_pct'', VFloat (py_round 2 (if verified_in ind \<noteq> 0
            then fmul (int_ratio (int (how_many (is_win \<circ> outcome_of) ind)) (int (verified_in ind))) (flit 100 0)
            else fzero))),
         (''n_source'', cohort_name)])]"
    by (simp add: authority_1h_payload_def symbol_report_fields t)
  then show thesis by (rule that) (simp_all add: dget_find)
qed

definition demo_report :: "pydict res" where
  "demo_report = build_authoritative_score (\<lambda>_. Inr 0) [demo_row] VNone (VStr ''BTC-USDT'')"

lemma demo_plain: "plain_symbol (dget demo_row ''symbol'') = ''BTCUSDT''" "plain_symbol (VStr ''BTC-USDT'') = ''BTCUSDT''"
  by (simp add: demo_row_def dget_find, code_simp) code_simp

lemma demo_cohort: "independent_1h_cohort zone [demo_row] = Inr [demo_row]"
proof -
  have "ts_seconds zone demo_row = Inr (Flt False 0 0)"
    using ts_seconds_isoformat [OF _ demo_range(1,2)] by (simp add: demo_row_def dget_find demo_ts_def sample_seconds)
  then show ?thesis by (simp add: independent_1h_cohort_def timed_cohort_def with_ts_def)
qed

lemma demo_score: "\<exists>gates posterior quality. score_symbol zone ''BTCUSDT'' [demo_row]
    = Inr (symbol_report ''BTCUSDT'' [demo_row] [demo_row] posterior gates quality)"
proof -
  have c: "how_many (is_win \<circ> outcome_of) [demo_row] = Suc 0" "verified_in [demo_row] = Suc 0"
    by (simp_all add: how_many_def verified_in_def is_win_def is_loss_def outcome_of_def demo_row_def dget_find)
  have "fadd (fl_of_int 1) (flit 2 0) = Flt False 6755399441055744 (- 51)"
    unfolding sample_floats by (simp add: fl_int_def) (simp add: fl_of_scaled_def round_by_simp)
  moreover obtain q where "fdiv (fadd (fl_of_int 1) (flit (Suc 0) 0)) (Flt False 6755399441055744 (- 51)) = Inr q"
    using fdiv_ok by fastforce
  moreover have "is_finite (fl_of_int 1)" by (simp add: sample_floats)
  ultimately have p: "posterior_of (Suc 0) (Suc 0) = Inr (Some q)"
    by (simp add: posterior_of_def float_of_int_def)
  have "confidence demo_row = Inr None"
    by (simp add: confidence_def number_of_def demo_row_def dget_find caught_def)
  moreover obtain w where "wilson_lower (Suc 0) (Suc 0) wilson_z = Inr w" using sample_wilson by blast
  ultimately obtain q where "quality_metrics [demo_row] = Inr q" by (simp add: quality_metrics_def c)
  moreover obtain g where "gates_of (bucket_of (toward ''LONG'' [demo_row])) (bucket_of (toward ''SHORT'' [demo_row]))
     (bucket_of [demo_row]) = Inr g" using gates_ok by blast
  ultimately show ?thesis using p by (auto simp: score_symbol_def demo_cohort c)
qed

lemma demo_report_ok: "\<exists>rep. demo_report = Inr rep"
proof -
  obtain gates posterior quality where sc: "score_symbol (\<lambda>_. Inr 0) ''BTCUSDT'' [demo_row]
    = Inr (symbol_report ''BTCUSDT'' [demo_row] [demo_row] posterior gates quality)" using demo_score by blast
  have g: "group_rows [demo_row] = [(''BTCUSDT'', [demo_row])]" by (simp add: group_rows_def demo_plain Let_def)
  have f: "filter_proof_qualified [demo_row] = Inr [demo_row]" by (simp add: filter_proof_qualified_def demo_qualified)
  obtain authority where "authority_1h_payload (symbol_report ''BTCUSDT'' [demo_row] [demo_row] posterior gates quality) = Inr authority"
    by (rule authority_of_report)
  then show ?thesis
    by (simp add: demo_report_def build_authoritative_score_def f g scores_by_symbol_def sc select_score_def demo_plain Let_def)
qed

theorem authority_fails_closed_witness:
  "\<exists>rep. demo_report = Inr rep \<and> dget rep ''authoritative_score_pct'' = VNone \<and> dget rep ''trade_mode'' = VStr ''PAPER''"
  using demo_report_ok authority_fails_closed unfolding demo_report_def by metis

end
