(* ===== verification/SafetyGates.thy ===== *)
theory SafetyGates
  imports AuthorityScore
begin

section \<open>The gates in front of live trading\<close>

text \<open>
  \<^verbatim>\<open>senecio_polymarket/backend/paper_lock.py\<close>, \<^verbatim>\<open>portfolio/live_gate.py\<close>,
  \<^verbatim>\<open>paper_live_gate.py\<close> and \<^verbatim>\<open>order070_contracts.py\<close>: the structural paper lock, the
  six unlock conditions, their projection for the dashboards and the audit block of a prediction.
  The reports the gate reads are values of a document; the clock is an argument.
\<close>

subsection \<open>The paper lock\<close>

definition hard_paper_lock :: bool where "hard_paper_lock = True"
definition hard_paper_lock_version :: string where "hard_paper_lock_version = ''senex-hard-paper-lock-v1''"

definition hard_paper_lock_active :: bool where "hard_paper_lock_active = hard_paper_lock"

definition assert_paper_locked :: "string \<Rightarrow> unit res" where
  "assert_paper_locked ctx =
     raise_if hard_paper_lock_active
       (HardPaperLockError (''HARD_PAPER_LOCK: live execution is structurally disabled in this ''
          @ ''candidate; refusing: '' @ ctx))"

definition safety_projection :: pydict where
  "safety_projection =
     [(''trade_mode'', VStr ''PAPER''), (''orders_enabled'', VBool False), (''live_capital_locked'', VBool True),
      (''hard_paper_lock'', VBool hard_paper_lock_active),
      (''hard_paper_lock_version'', VStr hard_paper_lock_version)]"

subsection \<open>Comparisons\<close>

text \<open>\<^verbatim>\<open><\<close> on numbers, by value; nothing compares with a NaN, and other values raise.\<close>

fun num_lt :: "pynum \<Rightarrow> pynum \<Rightarrow> bool" where
  "num_lt (NFin s m a b) (NFin t n c d) = (fl_int s m * int a * int d < fl_int t n * int c * int b)"
| "num_lt (NInf s) (NInf t) = (s \<and> \<not> t)"
| "num_lt (NInf s) (NFin t n c d) = s"
| "num_lt (NFin s m a b) (NInf t) = (\<not> t)"
| "num_lt x y = False"

definition num_le :: "pynum \<Rightarrow> pynum \<Rightarrow> bool" where
  "num_le x y = (num_lt x y \<or> num_eq x y)"

text \<open>\<^verbatim>\<open>_compare\<close>: a comparison that raises is false, as is an unknown operator.\<close>

definition compare_values :: "pyval \<Rightarrow> pyval \<Rightarrow> pyval \<Rightarrow> bool" where
  "compare_values actual operator threshold =
     (if operator = VStr ''>='' then num_le (num_of threshold) (num_of actual)
      else if operator = VStr ''>'' then num_lt (num_of threshold) (num_of actual)
      else if operator = VStr ''<='' then num_le (num_of actual) (num_of threshold)
      else if operator = VStr ''<'' then num_lt (num_of actual) (num_of threshold)
      else if operator = VStr ''=='' then py_eq actual threshold
      else if operator = VStr ''!='' then \<not> py_eq actual threshold
      else False)"

subsection \<open>The gate\<close>

definition condition :: "string \<Rightarrow> pyval \<Rightarrow> pydict" where
  "condition operator threshold = [(''op'', VStr operator), (''value'', threshold)]"

definition unlock_conditions :: "(string \<times> pydict) list" where
  "unlock_conditions =
     [(''global_win_rate_pct'', condition ''>='' (VFloat (flit 52 0))),
      (''verified'', condition ''>='' (VInt 300)),
      (''profit_factor'', condition ''>'' (VFloat (flit 120 2))),
      (''max_drawdown_pct'', condition ''<'' (VFloat (flit 10 0))),
      (''shadow_live_passed'', condition ''=='' (VBool True)),
      (''execution_engine_verified'', condition ''=='' (VBool True))]"

record gate_status =
  gs_unlocked :: bool
  gs_trade_mode :: string
  gs_live_capital_locked :: bool
  gs_conditions :: "(string \<times> pydict) list"
  gs_failed_reasons :: "string list"
  gs_evaluated_at :: string

text \<open>\<^verbatim>\<open>value.get(key)\<close> of a value that may not be a dictionary.\<close>

fun get_of :: "pyval \<Rightarrow> string \<Rightarrow> pyval res" where
  "get_of (VDict d) k = Inr (dget d k)"
| "get_of v k = Inl (AttributeError ''object has no attribute: get'')"

definition or_empty :: "pyval \<Rightarrow> pyval" where "or_empty v = por v (VDict [])"

text \<open>The score counts only with the explicit independent cohort.\<close>

definition valid_authority :: "pyval \<Rightarrow> pyval \<Rightarrow> pyval \<Rightarrow> bool res" where
  "valid_authority oracle_score authority global =
     rbind (get_of oracle_score ''score_scope'') (\<lambda>scope.
     if \<not> py_eq scope (VStr ''PER_SYMBOL'') then Inr False
     else rbind (get_of oracle_score ''requested_symbol'') (\<lambda>symbol.
       if \<not> truthy symbol then Inr False
       else rbind (get_of authority ''n_source'') (\<lambda>a.
         if \<not> py_eq a cohort_name then Inr False
         else rbind (get_of global ''n_source'') (\<lambda>g. Inr (py_eq g cohort_name)))))"

definition number_or :: "pyval \<Rightarrow> string \<Rightarrow> pyfloat res" where
  "number_or report k = rbind (get_of report k) (\<lambda>v. float_of (por v (VInt 0)))"

definition flag_of :: "pyval \<Rightarrow> string \<Rightarrow> bool res" where
  "flag_of report k = rbind (get_of report k) (\<lambda>v. Inr (truthy (por v (VBool False))))"

record gate_values =
  gv_win_rate :: pyfloat
  gv_verified :: int
  gv_profit_factor :: pyfloat
  gv_max_drawdown :: pyfloat
  gv_shadow_passed :: bool
  gv_exec_verified :: bool

definition gate_values_of :: "pyval \<Rightarrow> pyval \<Rightarrow> pyval \<Rightarrow> pyval \<Rightarrow> gate_values res" where
  "gate_values_of oracle_score analytics shadow exec =
     rbind (get_of (or_empty oracle_score) ''authority_1h'') (\<lambda>auth.
     rbind (get_of (or_empty auth) ''global'') (\<lambda>glob.
     rbind (valid_authority (or_empty oracle_score) (or_empty auth) (or_empty glob)) (\<lambda>valid.
     rbind (if valid then number_or (or_empty glob) ''win_rate_pct'' else Inr fzero) (\<lambda>rate.
     rbind (if valid then rbind (get_of (or_empty glob) ''verified'') (\<lambda>v. int_of (por v (VInt 0))) else Inr 0) (\<lambda>n.
     rbind (number_or (or_empty analytics) ''profit_factor'') (\<lambda>pf.
     rbind (number_or (or_empty analytics) ''max_drawdown_pct'') (\<lambda>dd.
     rbind (flag_of (or_empty shadow) ''passed'') (\<lambda>sp.
     rbind (flag_of (or_empty exec) ''verified'') (\<lambda>ev.
       Inr \<lparr>gv_win_rate = rate, gv_verified = n,
            gv_profit_factor = (if feq pf (FInf False) then flit 1000000 0 else pf),
            gv_max_drawdown = dd, gv_shadow_passed = sp, gv_exec_verified = ev\<rparr>)))))))))"

definition value_named :: "gate_values \<Rightarrow> string \<Rightarrow> pyval" where
  "value_named g name =
     dget [(''global_win_rate_pct'', VFloat (gv_win_rate g)), (''verified'', VInt (gv_verified g)),
           (''profit_factor'', VFloat (gv_profit_factor g)), (''max_drawdown_pct'', VFloat (gv_max_drawdown g)),
           (''shadow_live_passed'', VBool (gv_shadow_passed g)),
           (''execution_engine_verified'', VBool (gv_exec_verified g))] name"

text \<open>\<^verbatim>\<open>f"{name}: {actual} {op} {threshold} -> FAIL"\<close>, with the arrow U+2192.\<close>

definition fail_text :: "string \<Rightarrow> pyval \<Rightarrow> pyval \<Rightarrow> pyval \<Rightarrow> string" where
  "fail_text name actual operator threshold =
     name @ '': '' @ py_str actual @ '' '' @ py_str operator @ '' '' @ py_str threshold @ '' ''
       @ [CHR 0xE2, CHR 0x86, CHR 0x92] @ '' FAIL''"

definition check_condition :: "gate_values \<Rightarrow> string \<times> pydict \<Rightarrow> ((string \<times> pydict) \<times> string option) res" where
  "check_condition g c =
     (let (name, spec) = c; actual = value_named g name in
      rbind (dindex spec ''value'') (\<lambda>threshold.
      rbind (dindex spec ''op'') (\<lambda>operator.
        let passed = compare_values actual operator threshold in
        Inr ((name, [(''value'', actual), (''threshold'', threshold), (''op'', operator), (''pass'', VBool passed)]),
             if passed then None else Some (fail_text name actual operator threshold)))))"

definition evaluate_gate ::
  "(string \<times> pydict) list \<Rightarrow> int \<Rightarrow> pyval \<Rightarrow> pyval \<Rightarrow> pyval \<Rightarrow> pyval \<Rightarrow> gate_status res" where
  "evaluate_gate conditions now oracle_score analytics shadow exec =
     rbind (gate_values_of oracle_score analytics shadow exec) (\<lambda>g.
     rbind (rmap (check_condition g) (if conditions = [] then unlock_conditions else conditions)) (\<lambda>checks.
       let failed = List.map_filter snd checks;
           unlocked = (failed = [] \<and> \<not> hard_paper_lock_active)
       in Inr \<lparr>gs_unlocked = unlocked, gs_trade_mode = (if unlocked then ''LIVE'' else ''PAPER''),
               gs_live_capital_locked = (\<not> unlocked), gs_conditions = map fst checks,
               gs_failed_reasons =
                 (if hard_paper_lock_active \<and> failed = [] then [''HARD_PAPER_LOCK:STRUCTURAL_OVERRIDE''] else failed),
               gs_evaluated_at = isoformat_utc now\<rparr>))"

definition gate_state :: "(string \<times> pydict) list \<Rightarrow> pydict" where
  "gate_state conditions =
     [(''conditions'', VDict (map (\<lambda>(k, d). (k, VDict d)) (if conditions = [] then unlock_conditions else conditions))),
      (''version'', VStr ''ACT-XXV-HEDGE-FUND-TRANSITION'')]"

definition status_dict :: "gate_status \<Rightarrow> pydict" where
  "status_dict s =
     [(''unlocked'', VBool (gs_unlocked s)), (''trade_mode'', VStr (gs_trade_mode s)),
      (''live_capital_locked'', VBool (gs_live_capital_locked s)),
      (''conditions'', VDict (map (\<lambda>(k, d). (k, VDict d)) (gs_conditions s))),
      (''failed_reasons'', VList (map VStr (gs_failed_reasons s))), (''evaluated_at'', VStr (gs_evaluated_at s))]"

subsection \<open>The paper projection\<close>

definition paper_policy_reason :: string where "paper_policy_reason = ''LIVE_CAPITAL_LOCKED_BY_PAPER_POLICY''"

definition locked_by_policy :: "gate_status \<Rightarrow> gate_status" where
  "locked_by_policy s =
     s\<lparr>gs_unlocked := False, gs_trade_mode := ''PAPER'', gs_live_capital_locked := True,
       gs_failed_reasons := (if paper_policy_reason \<notin> set (gs_failed_reasons s)
          then gs_failed_reasons s @ [paper_policy_reason] else gs_failed_reasons s)\<rparr>"

text \<open>The coordinator's \<^verbatim>\<open>evaluate_live_gate\<close> is an argument: a function of the score.\<close>

definition paper_locked_live_gate_from_score :: "(pydict \<Rightarrow> gate_status res) \<Rightarrow> pydict \<Rightarrow> pydict res" where
  "paper_locked_live_gate_from_score coord sc =
     rbind (coord sc) (\<lambda>status.
       let s = locked_by_policy status in
       rbind (get_of (or_empty (dget sc ''authority_1h'')) ''n_source'') (\<lambda>n_source.
       rbind (int_of (por (dget sc ''independent_1h_rows'') (VInt 0))) (\<lambda>verified.
       rbind (int_of (por (dget sc ''proof_qualified_rows_raw'') (VInt 0))) (\<lambda>raw.
         Inr (dupdate (status_dict s)
           [(''diagnostic_only'', VBool True), (''effective_gate'', VStr ''LOCKED_BY_PAPER_POLICY''),
            (''paper_only'', VBool True), (''score_scope'', dget sc ''score_scope''),
            (''requested_symbol'', dget sc ''requested_symbol''), (''authority_cohort'', dget sc ''authority_cohort''),
            (''authority_n_source'', n_source), (''verified'', VInt verified), (''proof_qualified_rows_raw'', VInt raw),
            (''conditions_passed'', VInt (int (how_many (\<lambda>(k, d). truthy (dget d ''pass'')) (gs_conditions s)))),
            (''conditions_total'', VInt (int (length (gs_conditions s))))])))))"

subsection \<open>The audit block of a prediction\<close>

definition bps_to_decimal_factor :: pyfloat where "bps_to_decimal_factor = flit 1 4"

definition paper_instrument :: pydict where
  "paper_instrument =
     [(''contract'', VStr ''SENEX_PAPER_SPOT_1H_V1''), (''instrument_identifier'', VStr ''BTC/USDT''),
      (''market_class'', VStr ''spot''), (''quote_currency'', VStr ''USDT''), (''decision_horizon'', VStr ''1h''),
      (''execution_authority'', VStr ''PAPER_ONLY''), (''cost_model_status'', VStr ''COST_MODEL_NOT_AUTHORITATIVE''),
      (''reason'', VStr ''NO_VERSIONED_PRIMARY_SOURCE_FEE_SCHEDULE_IS_BOUND_TO_DECISION_TIME'')]"

definition bps_to_decimal :: "pyval \<Rightarrow> pyfloat res" where
  "bps_to_decimal bps = rbind (float_of bps) (\<lambda>x. Inr (fmul x bps_to_decimal_factor))"

definition canonical_ev_audit ::
  "pyval \<Rightarrow> pyval \<Rightarrow> pyval \<Rightarrow> pyval \<Rightarrow> pyval \<Rightarrow> pyval \<Rightarrow> pyval \<Rightarrow> pydict" where
  "canonical_ev_audit model_score fee_bps spread_bps slippage_bps impact_bps entropy_discount risk_multiplier =
     (let status = dget paper_instrument ''cost_model_status''; authoritative = (status = VStr ''AUTHORITATIVE'') in
      [(''version'', VStr ''order070-canonical-ev-audit-v1''), (''instrument'', VDict paper_instrument),
       (''semantic_classes'', VDict
          [(''model_score'', VStr ''HEURISTIC_MODEL_SCORE_NOT_CALIBRATED_PROBABILITY''),
           (''fee'', VStr ''EXPLICIT_EXECUTION_COST''), (''spread'', VStr ''EXPLICIT_EXECUTION_COST''),
           (''slippage'', VStr ''EXPLICIT_EXECUTION_COST_EXCLUDES_SPREAD''),
           (''impact'', VStr ''EXPLICIT_EXECUTION_COST_EXCLUDES_SPREAD_AND_SLIPPAGE''),
           (''entropy'', VStr ''UNCERTAINTY_DISCOUNT_NOT_EXECUTION_COST''),
           (''risk'', VStr ''SIZE_OR_UTILITY_MULTIPLIER_NOT_EXECUTION_COST'')]),
       (''canonical_cost_terms'', VDict
          [(''fee_bps'', fee_bps), (''spread_bps'', spread_bps), (''slippage_bps'', slippage_bps),
           (''impact_bps'', impact_bps)]),
       (''canonical_ev_after_cost'', VNone),
       (''authority'', VStr (if \<not> authoritative then ''DIAGNOSTIC_ONLY'' else ''PAPER_DECISION'')),
       (''status'', status), (''model_score'', model_score), (''entropy_discount'', entropy_discount),
       (''risk_multiplier'', risk_multiplier), (''double_counting'', VBool False),
       (''unit_contract'', VStr ''1_bp=0.0001_decimal_return'')])"

subsection \<open>The groups of a report\<close>

lemma add_row_map_of:
  "map_of (add_row k row groups) k' = (if k' = k then Some (group_of groups k @ [row]) else map_of groups k')"
  by (induction k row groups rule: add_row.induct) (auto simp: group_of_def)

definition rows_of_symbol :: "string \<Rightarrow> pydict list \<Rightarrow> pydict list" where
  "rows_of_symbol k rows = filter (\<lambda>r. plain_symbol (dget r ''symbol'') = k) rows"

lemma group_rows_snoc: "group_rows (rows @ [row])
  = (let k = plain_symbol (dget row ''symbol'') in if k \<noteq> [] then add_row k row (group_rows rows) else group_rows rows)"
  unfolding group_rows_def by simp

lemma group_rows_map_of:
  assumes "k \<noteq> []"
  shows "map_of (group_rows rows) k = (let raw = rows_of_symbol k rows in if raw = [] then None else Some raw)"
proof (induction rows rule: rev_induct)
  case Nil
  then show ?case by (simp add: group_rows_def rows_of_symbol_def)
next
  case (snoc row rows)
  then show ?case using assms
    by (auto simp: group_rows_snoc add_row_map_of group_of_def rows_of_symbol_def Let_def)
qed

lemma add_row_keys: "fst ` set (add_row k row groups) = insert k (fst ` set groups)"
  by (induction k row groups rule: add_row.induct) auto

lemma add_row_distinct: "distinct (map fst groups) \<Longrightarrow> distinct (map fst (add_row k row groups))"
  by (induction k row groups rule: add_row.induct) (auto simp: add_row_keys)

lemma group_rows_distinct: "distinct (map fst (group_rows rows))"
proof (induction rows rule: rev_induct)
  case (snoc row rows)
  then show ?case by (simp add: group_rows_snoc Let_def add_row_distinct)
qed (simp add: group_rows_def)

lemma rmap_keys: "rmap (\<lambda>(k, x). rbind (f k x) (\<lambda>y. Inr (k, y))) xs = Inr ys \<Longrightarrow> map fst ys = map fst xs"
  by (induction xs arbitrary: ys) (auto simp: rbind_Inr_iff)

lemma scores_map_of:
  assumes "scores_by_symbol zone groups = Inr by_symbol" "distinct (map fst groups)"
  shows "(case map_of by_symbol k of
      None \<Rightarrow> map_of groups k = None
    | Some sc \<Rightarrow> \<exists>raw. map_of groups k = Some raw \<and> score_symbol zone k raw = Inr sc)"
proof (cases "map_of by_symbol k")
  case None
  have "map fst by_symbol = map fst (sort_key fst groups)"
    using assms(1) unfolding scores_by_symbol_def by (rule rmap_keys)
  then have "set (map fst by_symbol) = set (map fst (sort_key fst groups))" by (rule arg_cong)
  with None have "map_of groups k = None" by (simp add: map_of_eq_None_iff)
  then show ?thesis unfolding None option.case .
next
  case (Some sc)
  then have "(k, sc) \<in> set by_symbol" by (rule map_of_SomeD)
  then obtain raw where "(k, raw) \<in> set groups" "score_symbol zone k raw = Inr sc"
    by (rule scores_by_symbol_mem [OF assms(1)])
  with Some assms(2) show ?thesis by simp
qed

lemma authority_global:
  assumes "authority_1h_payload sc = Inr authority" "dget sc ''verified'' = VInt n"
  obtains glob where "dget authority ''n_source'' = cohort_name" "dget authority ''global'' = VDict glob" "glob \<noteq> []"
    "dget glob ''n_source'' = cohort_name" "dget glob ''verified'' = VInt n" "\<exists>x. dget glob ''win_rate_pct'' = VFloat x"
  using assms by (auto simp: authority_1h_payload_def rbind_Inr_iff Let_def dget_find)

text \<open>The score that a report for a symbol is about counts the cohort of the symbol's rows.\<close>

lemma selected_counts_cohort:
  assumes "scores_by_symbol zone (group_rows good) = Inr by_symbol" "k \<noteq> []"
    "select_score (VStr k) (group_rows good) by_symbol = Inr (Some (rs, sc))"
  obtains ind where "independent_1h_cohort zone (rows_of_symbol k good) = Inr ind"
    "dget sc ''verified'' = VInt (int (verified_in ind))"
proof (cases "map_of by_symbol k")
  case None
  then have "rows_of_symbol k good = []"
    using scores_map_of [OF assms(1) group_rows_distinct, of k] group_rows_map_of [OF assms(2), of good]
    by (auto simp: Let_def split: if_split_asm)
  moreover have "empty_symbol_score (VStr k) = Inr sc"
    using assms(2,3) None by (cases k) (auto simp: select_score_def rbind_Inr_iff)
  then have "dget sc ''verified'' = VInt 0" by (auto simp: empty_symbol_score_def rbind_Inr_iff dget_find)
  ultimately show thesis
    by (intro that [of "[]"]) (simp_all add: independent_1h_cohort_def timed_cohort_def verified_in_def how_many_def)
next
  case (Some sc')
  moreover have "sc' = sc" using assms(2,3) Some by (cases k) (auto simp: select_score_def rbind_Inr_iff)
  ultimately have "score_symbol zone k (rows_of_symbol k good) = Inr sc"
    using scores_map_of [OF assms(1) group_rows_distinct, of k] group_rows_map_of [OF assms(2), of good]
    by (auto simp: Let_def split: if_split_asm)
  then show thesis by (rule score_symbol_report) (simp add: that symbol_report_fields)
qed

subsection \<open>The gate stays locked\<close>

lemma gate_opened:
  assumes "evaluate_gate conditions now sc analytics shadow exec = Inr s"
  obtains g checks where "gate_values_of sc analytics shadow exec = Inr g"
    "rmap (check_condition g) (if conditions = [] then unlock_conditions else conditions) = Inr checks"
    "gs_conditions s = map fst checks" "gs_unlocked s = False" "gs_trade_mode s = ''PAPER''"
    "gs_live_capital_locked s = True"
    "gs_failed_reasons s = (if List.map_filter snd checks = [] then [''HARD_PAPER_LOCK:STRUCTURAL_OVERRIDE'']
       else List.map_filter snd checks)"
  using assms by (auto simp: evaluate_gate_def rbind_Inr_iff Let_def hard_paper_lock_active_def hard_paper_lock_def)

lemma check_opened:
  assumes "check_condition g (name, spec) = Inr ((name', c), failure)"
  obtains threshold operator where "dget spec ''value'' = threshold" "dget spec ''op'' = operator" "name' = name"
    "dget c ''value'' = value_named g name"
    "dget c ''pass'' = VBool (compare_values (value_named g name) operator threshold)"
    "failure = (if compare_values (value_named g name) operator threshold then None
       else Some (fail_text name (value_named g name) operator threshold))"
  using assms by (auto simp: check_condition_def rbind_Inr_iff dindex_def dget_def Let_def split: option.split_asm)

lemma fail_text_last: "last (fail_text name actual operator threshold) = CHR ''L''"
  by (simp add: fail_text_def)

lemma map_filter_Nil: "List.map_filter f xs = [] \<longleftrightarrow> (\<forall>x \<in> set xs. f x = None)"
  by (auto simp: List.map_filter_def filter_empty_conv)

text \<open>C29: whatever the conditions, the score and the reports are, an evaluation leaves the gate locked on paper with
  at least one reason, and the reason is the structural override exactly when every condition passes.\<close>

theorem gate_stays_locked:
  assumes "evaluate_gate conditions now sc analytics shadow exec = Inr s"
  shows "\<not> gs_unlocked s \<and> gs_trade_mode s = ''PAPER'' \<and> gs_live_capital_locked s \<and> gs_failed_reasons s \<noteq> []
    \<and> map fst (gs_conditions s) = map fst (if conditions = [] then unlock_conditions else conditions)
    \<and> (gs_failed_reasons s = [''HARD_PAPER_LOCK:STRUCTURAL_OVERRIDE'']
         \<longleftrightarrow> (\<forall>c \<in> set (gs_conditions s). dget (snd c) ''pass'' = VBool True))"
proof -
  define conds where "conds = (if conditions = [] then unlock_conditions else conditions)"
  obtain g checks where r: "rmap (check_condition g) conds = Inr checks" and s: "gs_conditions s = map fst checks"
    "\<not> gs_unlocked s" "gs_trade_mode s = ''PAPER''" "gs_live_capital_locked s"
    "gs_failed_reasons s = (if List.map_filter snd checks = [] then [''HARD_PAPER_LOCK:STRUCTURAL_OVERRIDE'']
       else List.map_filter snd checks)"
    using gate_opened [OF assms] unfolding conds_def by metis
  have each: "(snd ch = None \<longleftrightarrow> dget (snd (fst ch)) ''pass'' = VBool True) \<and> (\<forall>t. snd ch = Some t \<longrightarrow> last t = CHR ''L'')"
    if "ch \<in> set checks" for ch
  proof -
    from that r obtain name spec where "check_condition g (name, spec) = Inr ((fst (fst ch), snd (fst ch)), snd ch)"
      by (auto simp: rmap_mem)
    then show ?thesis by (rule check_opened) (auto simp: fail_text_last split: if_split_asm)
  qed
  have names: "map fst (map fst checks) = map fst conds" using r
  proof (induction conds arbitrary: checks)
    case (Cons c cs)
    then obtain y ys where "check_condition g c = Inr y" "rmap (check_condition g) cs = Inr ys" "checks = y # ys"
      by (auto simp: rbind_Inr_iff)
    with Cons.IH [of ys] show ?case by (cases c; cases y) (auto elim!: check_opened)
  qed simp
  have "List.map_filter snd checks \<noteq> [''HARD_PAPER_LOCK:STRUCTURAL_OVERRIDE'']"
  proof
    assume "List.map_filter snd checks = [''HARD_PAPER_LOCK:STRUCTURAL_OVERRIDE'']"
    then have "''HARD_PAPER_LOCK:STRUCTURAL_OVERRIDE'' \<in> set (List.map_filter snd checks)" by simp
    then obtain ch where "ch \<in> set checks" "snd ch = Some ''HARD_PAPER_LOCK:STRUCTURAL_OVERRIDE''"
      by (auto simp: List.map_filter_def)
    with each show False by fastforce
  qed
  then have "gs_failed_reasons s = [''HARD_PAPER_LOCK:STRUCTURAL_OVERRIDE''] \<longleftrightarrow> (\<forall>ch \<in> set checks. snd ch = None)"
    unfolding s(5) map_filter_Nil [symmetric] by simp
  moreover have "gs_failed_reasons s \<noteq> []" by (simp add: s(5))
  ultimately show ?thesis using s(1-4) each names by (auto simp: conds_def)
qed

lemma report_values:
  assumes "build_authoritative_score zone rows runner_state symbol = Inr rep" "truthy symbol" "plain_symbol symbol = k" "k \<noteq> []"
  obtains good ind auth glob x where "filter_proof_qualified rows = Inr good"
    "independent_1h_cohort zone (rows_of_symbol k good) = Inr ind" "dget rep ''authority_1h'' = VDict auth"
    "auth \<noteq> []" "dget auth ''global'' = VDict glob" "glob \<noteq> []"
    "valid_authority (VDict rep) (VDict auth) (VDict glob) = Inr True"
    "dget glob ''verified'' = VInt (int (verified_in ind))" "dget glob ''win_rate_pct'' = VFloat x" "rep \<noteq> []"
proof -
  have req: "(if truthy symbol then VStr (plain_symbol symbol) else VNone) = VStr k" using assms(2,3) by simp
  obtain good by_symbol sel payload auth where b: "filter_proof_qualified rows = Inr good"
    "scores_by_symbol zone (group_rows good) = Inr by_symbol"
    and s: "select_score (VStr k) (group_rows good) by_symbol = Inr sel"
    and p: "(case sel of Some (rs, sc) \<Rightarrow> Inr sc | None \<Rightarrow> empty_symbol_score (VStr k)) = Inr payload"
    and a: "authority_1h_payload payload = Inr auth"
    and f: "dget rep ''requested_symbol'' = VStr k" "dget rep ''score_scope'' = VStr ''PER_SYMBOL''"
    "dget rep ''authority_1h'' = VDict auth"
    by (rule build_report [OF assms(1), unfolded req]) (rule that)
  obtain rs where sel: "sel = Some (rs, payload)"
    using s p assms(4) by (cases k) (auto simp: select_score_def rbind_Inr_iff)
  obtain ind where ind: "independent_1h_cohort zone (rows_of_symbol k good) = Inr ind"
    "dget payload ''verified'' = VInt (int (verified_in ind))"
    using selected_counts_cohort [OF b(2) assms(4) s [unfolded sel]] .
  obtain glob where g: "dget auth ''n_source'' = cohort_name" "dget auth ''global'' = VDict glob" "glob \<noteq> []"
    "dget glob ''n_source'' = cohort_name" "dget glob ''verified'' = VInt (int (verified_in ind))"
    "\<exists>x. dget glob ''win_rate_pct'' = VFloat x"
    using authority_global [OF a ind(2)] .
  have "auth \<noteq> []" "rep \<noteq> []" using g(2) f(3) by (auto simp: dget_def)
  moreover have "valid_authority (VDict rep) (VDict auth) (VDict glob) = Inr True"
    using assms(4) by (simp add: valid_authority_def f g cohort_name_def)
  ultimately show thesis using that b(1) ind(1) f(3) g by blast
qed

lemma verified_condition:
  assumes "rmap (check_condition g) unlock_conditions = Inr checks"
  obtains c where "(''verified'', c) \<in> set (map fst checks)" "dget c ''value'' = VInt (gv_verified g)"
    "dget c ''pass'' = VBool (300 \<le> gv_verified g)"
proof -
  have m: "(''verified'', condition ''>='' (VInt 300)) \<in> set unlock_conditions" by (simp add: unlock_conditions_def)
  have v: "value_named g ''verified'' = VInt (gv_verified g)" by (simp add: value_named_def dget_find)
  have i: "dindex (condition ''>='' (VInt 300)) ''value'' = Inr (VInt 300)" "dindex (condition ''>='' (VInt 300)) ''op'' = Inr (VStr ''>='')"
    by (simp_all add: condition_def dindex_def)
  have p: "compare_values (VInt n) (VStr ''>='') (VInt 300) = (300 \<le> n)" for n
    by (auto simp: compare_values_def num_le_def fl_int_def)
  define c where "c = [(''value'', VInt (gv_verified g)), (''threshold'', VInt 300), (''op'', VStr ''>=''),
    (''pass'', VBool (300 \<le> gv_verified g))]"
  have "\<exists>f. check_condition g (''verified'', condition ''>='' (VInt 300)) = Inr ((''verified'', c), f)"
    unfolding check_condition_def Let_def prod.case v i rbind.simps p c_def by blast
  with m have "\<exists>f. ((''verified'', c), f) \<in> set checks" using rmap_mem [OF assms] by metis
  then have "(''verified'', c) \<in> set (map fst checks)" by force
  then show thesis by (rule that) (simp_all add: c_def dget_find)
qed

text \<open>C30: of a report built from rows, the gate reads the number of won and lost rows in the hourly cohort of the
  qualified rows of the requested symbol, and its sample-size condition passes exactly from 300 on; neither raw rows
  nor rows of another symbol count.\<close>

theorem gate_reads_the_cohort:
  assumes "build_authoritative_score zone rows runner_state symbol = Inr rep" "truthy symbol" "plain_symbol symbol = k" "k \<noteq> []"
    "evaluate_gate [] now (VDict rep) analytics shadow exec = Inr s"
  shows "\<exists>good ind c. filter_proof_qualified rows = Inr good
    \<and> independent_1h_cohort zone (rows_of_symbol k good) = Inr ind \<and> (''verified'', c) \<in> set (gs_conditions s)
    \<and> dget c ''value'' = VInt (int (verified_in ind)) \<and> (dget c ''pass'' = VBool True \<longleftrightarrow> 300 \<le> verified_in ind)"
proof -
  obtain good ind auth glob x where r: "filter_proof_qualified rows = Inr good"
    "independent_1h_cohort zone (rows_of_symbol k good) = Inr ind" "dget rep ''authority_1h'' = VDict auth"
    "auth \<noteq> []" "dget auth ''global'' = VDict glob" "glob \<noteq> []"
    "valid_authority (VDict rep) (VDict auth) (VDict glob) = Inr True"
    "dget glob ''verified'' = VInt (int (verified_in ind))" "dget glob ''win_rate_pct'' = VFloat x" "rep \<noteq> []"
    using report_values [OF assms(1-4)] .
  obtain g checks where g: "gate_values_of (VDict rep) analytics shadow exec = Inr g"
    "rmap (check_condition g) unlock_conditions = Inr checks" "gs_conditions s = map fst checks"
    by (rule gate_opened [OF assms(5)]) (rule that; simp)
  from g(1) have "gv_verified g = int (verified_in ind)"
    by (auto simp: gate_values_of_def rbind_Inr_iff or_empty_def por_def r split: if_split_asm)
  with verified_condition [OF g(2)] obtain c where "(''verified'', c) \<in> set (gs_conditions s)"
    "dget c ''value'' = VInt (int (verified_in ind))" "dget c ''pass'' = VBool (300 \<le> int (verified_in ind))"
    unfolding g(3) by metis
  with r(1,2) show ?thesis by auto
qed

lemma check_unlock_ok: "\<exists>checks. rmap (check_condition g) unlock_conditions = Inr checks"
  by (simp add: unlock_conditions_def check_condition_def condition_def dindex_def Let_def)

lemma demo_gate:
  assumes "demo_report = Inr rep"
  shows "\<exists>s. evaluate_gate [] 0 (VDict rep) (VDict []) (VDict []) (VDict []) = Inr s"
proof -
  obtain good ind auth glob x where r: "dget rep ''authority_1h'' = VDict auth"
    "auth \<noteq> []" "dget auth ''global'' = VDict glob" "glob \<noteq> []"
    "valid_authority (VDict rep) (VDict auth) (VDict glob) = Inr True"
    "dget glob ''verified'' = VInt (int (verified_in ind))" "dget glob ''win_rate_pct'' = VFloat x" "rep \<noteq> []"
    by (rule report_values [OF assms [unfolded demo_report_def], of "''BTCUSDT''"]) (use demo_plain in auto)
  have z: "float_of_int 0 = Inr fzero" by (simp add: float_of_int_def fl_of_int_def fl_round_def fzero_def)
  have "\<exists>y. float_of (por (VFloat x) (VInt 0)) = Inr y" using z by (simp add: por_def)
  then obtain y where "float_of (por (VFloat x) (VInt 0)) = Inr y" by blast
  then have "\<exists>g. gate_values_of (VDict rep) (VDict []) (VDict []) (VDict []) = Inr g"
    by (simp add: gate_values_of_def or_empty_def por_def [of "VDict _"] por_def [of VNone] r number_or_def flag_of_def dget_find(2) z)
  then show ?thesis using check_unlock_ok by (auto simp: evaluate_gate_def Let_def) (metis rbind.simps(2))
qed

theorem gate_stays_locked_witness:
  "\<exists>rep s. demo_report = Inr rep \<and> evaluate_gate [] 0 (VDict rep) (VDict []) (VDict []) (VDict []) = Inr s
    \<and> \<not> gs_unlocked s \<and> gs_failed_reasons s \<noteq> []"
  using demo_report_ok demo_gate gate_stays_locked by metis

theorem gate_reads_the_cohort_witness:
  "\<exists>rep s c ind. demo_report = Inr rep \<and> evaluate_gate [] 0 (VDict rep) (VDict []) (VDict []) (VDict []) = Inr s
    \<and> (''verified'', c) \<in> set (gs_conditions s) \<and> dget c ''value'' = VInt (int (verified_in ind))"
proof -
  obtain rep where rep: "demo_report = Inr rep" using demo_report_ok by blast
  obtain s where s: "evaluate_gate [] 0 (VDict rep) (VDict []) (VDict []) (VDict []) = Inr s" using demo_gate [OF rep] by blast
  have "truthy (VStr ''BTC-USDT'')" "''BTCUSDT'' \<noteq> ([] :: string)" by simp_all
  with gate_reads_the_cohort [OF rep [unfolded demo_report_def] _ demo_plain(2) _ s] rep s show ?thesis by blast
qed

end
