(* ===== verification/Readiness.thy ===== *)
theory Readiness
  imports SafetyGates
begin

section \<open>The readiness contract\<close>

text \<open>
  \<^verbatim>\<open>senecio_polymarket/backend/readiness_contract.py\<close>: the answer of the readiness probe
  from the authority snapshot, the state of its refresh and the health of the other components. A
  snapshot that is an object is the dictionary of its attributes; the code reads both in the same way.
\<close>

definition obj_get :: "pyval \<Rightarrow> string \<Rightarrow> pyval \<Rightarrow> pyval" where
  "obj_get ob k v0 = (case ob of VDict d \<Rightarrow> dget_or d k v0 | _ \<Rightarrow> v0)"

definition dict_or_empty :: "pydict option \<Rightarrow> pydict" where
  "dict_or_empty d = (case d of None \<Rightarrow> [] | Some d' \<Rightarrow> d')"

definition error_text :: "pydict \<Rightarrow> string" where
  "error_text refresh = py_str (por (dget refresh ''last_refresh_error'') (VStr []))"

definition quota_exhausted :: "string \<Rightarrow> bool" where
  "quota_exhausted up = (contains up ''D1_QUOTA_EXCEEDED'' \<or> contains up ''DAILY ROW READ LIMIT'' \<or> contains up ''QUOTA'')"

definition d1_tokens :: "string list" where
  "d1_tokens = [''AUTHORITY_'', ''EXACT_COUNT'', ''D1'', ''HTTP_'', ''REQUEST_ERROR'']"

definition quota_state :: "string \<Rightarrow> bool \<Rightarrow> pyval \<Rightarrow> pyval \<Rightarrow> pydict" where
  "quota_state status degraded reason err =
     [(''status'', VStr status), (''degraded'', VBool degraded), (''reason'', reason), (''last_error'', err)]"

definition classify_d1_quota_state :: "pydict option \<Rightarrow> pydict" where
  "classify_d1_quota_state refresh =
     (let err = error_text (dict_or_empty refresh); up = upper err
      in if quota_exhausted up
           then quota_state ''EXHAUSTED'' True (VStr ''D1_QUOTA_EXCEEDED'') (if err = [] then VNone else VStr err)
         else if err \<noteq> []
           then quota_state (if list_ex (contains up) d1_tokens then ''DEGRADED'' else ''UNKNOWN_ERROR'') True (VStr err) (VStr err)
         else quota_state ''OK'' False VNone VNone)"

definition fresh_states :: "string list" where
  "fresh_states = [''LIVE'', ''LIVE_WS'', ''LIVE_REST'', ''OK'', ''READY'', ''CONNECTED'']"

definition adapter_report :: "pydict \<Rightarrow> bool \<times> pydict" where
  "adapter_report snap =
     (let status = upper (py_str (por (por (dget snap ''status'') (dget snap ''state'')) (VStr ''UNKNOWN'')));
          stale = truthy (dget_or snap ''stale'' (VBool False));
          fresh = (status \<in> set fresh_states \<and> \<not> stale)
      in (fresh, [(''status'', VStr status), (''fresh'', VBool fresh),
                  (''last_update'', por (por (dget snap ''last_update'') (dget snap ''last_update_at''))
                                        (dget snap ''updated_at''))]))"

definition market_data_freshness :: "pyval \<Rightarrow> pydict" where
  "market_data_freshness adapters =
     (let source = as_dict (por adapters (VDict []));
          reports = map (\<lambda>n. (n, adapter_report (as_dict (dget source n)))) [''polymarket'', ''kalshi'', ''boros''];
          fresh_any = list_ex (\<lambda>(n, f, r). f) reports
      in [(''status'', VStr (if fresh_any then ''FRESH'' else ''UNKNOWN_OR_STALE'')), (''fresh'', VBool fresh_any),
          (''required_for_authority_readiness'', VBool False),
          (''adapters'', VDict (map (\<lambda>(n, f, r). (n, VDict r)) reports))])"

subsection \<open>The age of the last persisted prediction\<close>

text \<open>The instant of the probe: the argument, in UTC when it has no offset, or the clock.\<close>

definition probe_instant :: "int \<Rightarrow> pydatetime option \<Rightarrow> int res" where
  "probe_instant clock now =
     (case now of
        None \<Rightarrow> Inr clock
      | Some d \<Rightarrow> to_utc (dt_local d) (case dt_offset d of None \<Rightarrow> 0 | Some off \<Rightarrow> off))"

definition cycle_interval :: "pyval \<Rightarrow> int res" where
  "cycle_interval v =
     (case int_of v of
        Inl e \<Rightarrow> if caught e then Inr 900 else Inl e
      | Inr i \<Rightarrow> Inr (if i \<le> 0 then 900 else i))"

definition freshness_threshold :: "int \<Rightarrow> int" where
  "freshness_threshold interval = min (45 * 60) (3 * interval)"

text \<open>A text that is no timestamp, has no offset, lies next to the ends of the calendar or in the future has no age.\<close>

definition persisted_age :: "int \<Rightarrow> pyval \<Rightarrow> pyfloat option" where
  "persisted_age current ts =
     (case fromisoformat (replace_all ''Z'' ''+00:00'' (py_str ts)) of
        None \<Rightarrow> None
      | Some d \<Rightarrow> (case dt_offset d of
            None \<Rightarrow> None
          | Some off \<Rightarrow> (case to_utc (dt_local d) off of
                Inl e \<Rightarrow> None
              | Inr u \<Rightarrow> let age = total_seconds (current - u) in if flt age fzero then None else Some age)))"

definition persisted_fresh :: "pyfloat option \<Rightarrow> int \<Rightarrow> bool" where
  "persisted_fresh age threshold = (case age of None \<Rightarrow> False | Some x \<Rightarrow> flt x (fl_of_int threshold))"

subsection \<open>The contract\<close>

record snapshot_view =
  sv_history :: bool
  sv_exact_count :: bool
  sv_provenance :: pyval
  sv_provenance_exact :: bool
  sv_paper_lock :: bool
  sv_orders_disabled :: bool
  sv_id :: pyval
  sv_generation :: pyval
  sv_sha :: pyval

definition view_of :: "pyval \<Rightarrow> snapshot_view" where
  "view_of snapshot =
     (if snapshot = VNone
      then \<lparr>sv_history = False, sv_exact_count = False, sv_provenance = VNone, sv_provenance_exact = False,
            sv_paper_lock = True, sv_orders_disabled = True, sv_id = VNone, sv_generation = VNone, sv_sha = VNone\<rparr>
      else let provenance = por (obj_get snapshot ''provenance'' (VDict [])) (VDict []);
               live_gate = por (obj_get snapshot ''live_gate'' (VDict [])) (VDict [])
        in \<lparr>sv_history = truthy (obj_get snapshot ''authority_history_complete'' (VBool False)),
            sv_exact_count = truthy (obj_get snapshot ''exact_count_complete'' (VBool False)),
            sv_provenance = provenance,
            sv_provenance_exact = truthy (obj_get provenance ''exact'' (VBool False)),
            sv_paper_lock = (py_eq (obj_get live_gate ''trade_mode'' VNone) (VStr ''PAPER'')
                             \<and> truthy (obj_get live_gate ''live_capital_locked'' (VBool False))),
            sv_orders_disabled = (obj_get live_gate ''orders_enabled'' (VBool False) = VBool False),
            sv_id = obj_get snapshot ''snapshot_id'' VNone, sv_generation = obj_get snapshot ''generation'' VNone,
            sv_sha = obj_get snapshot ''canonical_sha256'' VNone\<rparr>)"

definition snapshot_fresh :: "pyval \<Rightarrow> pydict \<Rightarrow> bool" where
  "snapshot_fresh snapshot refresh = (snapshot \<noteq> VNone \<and> dget refresh ''snapshot_stale'' = VBool False)"

definition refresh_ok :: "pydict \<Rightarrow> bool" where
  "refresh_ok refresh = (dget refresh ''last_refresh_error'' = VNone)"

definition authority_ready :: "pyval \<Rightarrow> pydict \<Rightarrow> bool" where
  "authority_ready snapshot refresh =
     (snapshot \<noteq> VNone \<and> sv_history (view_of snapshot) \<and> sv_provenance_exact (view_of snapshot)
      \<and> snapshot_fresh snapshot refresh \<and> refresh_ok refresh
      \<and> \<not> truthy (dget (classify_d1_quota_state (Some refresh)) ''degraded''))"

text \<open>What the process knows of its own components.\<close>

record process_health =
  ph_oracle_started :: bool
  ph_paper_control_ready :: bool
  ph_paper_control_status :: "pydict option"
  ph_seal_healthy :: bool
  ph_seal_status :: "pydict option"

definition all_ready :: "pyval \<Rightarrow> pydict \<Rightarrow> process_health \<Rightarrow> bool \<Rightarrow> bool" where
  "all_ready snapshot refresh h fresh =
     (authority_ready snapshot refresh \<and> ph_oracle_started h \<and> sv_paper_lock (view_of snapshot)
      \<and> sv_orders_disabled (view_of snapshot) \<and> ph_paper_control_ready h \<and> ph_seal_healthy h \<and> fresh)"

definition readiness_reason :: "pyval \<Rightarrow> pydict \<Rightarrow> process_health \<Rightarrow> bool \<Rightarrow> pyval" where
  "readiness_reason snapshot refresh h fresh =
     (if dget (classify_d1_quota_state (Some refresh)) ''status'' = VStr ''EXHAUSTED'' then VStr ''D1_QUOTA_EXCEEDED''
      else if \<not> authority_ready snapshot refresh
        then por (dget refresh ''last_refresh_error'') (VStr ''AUTHORITY_NOT_READY'')
      else if \<not> ph_oracle_started h then VStr ''ORACLE_NOT_STARTED''
      else if \<not> ph_seal_healthy h then VStr ''T0_SEAL_NOT_HEALTHY''
      else if \<not> fresh then VStr ''LAST_PERSISTED_PREDICTION_STALE''
      else if \<not> ph_paper_control_ready h then VStr ''PAPER_CONTROL_NOT_READY''
      else if \<not> sv_paper_lock (view_of snapshot) \<or> \<not> sv_orders_disabled (view_of snapshot)
        then VStr ''SAFETY_CONTRACT_VIOLATION''
      else VNone)"

definition readiness_checks :: "pyval \<Rightarrow> pydict \<Rightarrow> process_health \<Rightarrow> bool \<Rightarrow> pydict" where
  "readiness_checks snapshot refresh h fresh =
     (let v = view_of snapshot in
      [(''authority_history_complete'', VBool (sv_history v)), (''exact_count_complete'', VBool (sv_exact_count v)),
       (''exact_count_required_for_readiness'', VBool False), (''provenance_exact'', VBool (sv_provenance_exact v)),
       (''oracle_started'', VBool (ph_oracle_started h)), (''paper_lock'', VBool (sv_paper_lock v)),
       (''orders_disabled'', VBool (sv_orders_disabled v)),
       (''snapshot_fresh'', VBool (snapshot_fresh snapshot refresh)), (''last_refresh_ok'', VBool (refresh_ok refresh)),
       (''paper_control_ready'', VBool (ph_paper_control_ready h)), (''seal_healthy'', VBool (ph_seal_healthy h)),
       (''last_persisted_prediction_fresh'', VBool fresh)])"

definition readiness_components ::
  "pyval \<Rightarrow> pydict \<Rightarrow> process_health \<Rightarrow> pyval \<Rightarrow> pyval \<Rightarrow> pyfloat option \<Rightarrow> int \<Rightarrow> pydict" where
  "readiness_components snapshot refresh h adapters last_ts age threshold =
     (let ready = authority_ready snapshot refresh; fresh = persisted_fresh age threshold in
      [(''liveness'', VDict [(''status'', VStr ''ALIVE''), (''ready'', VBool True)]),
       (''authority_readiness'', VDict
          [(''status'', VStr (if ready then ''READY'' else ''DEGRADED'')), (''ready'', VBool ready),
           (''fresh_authoritative_score_allowed'', VBool ready)]),
       (''market_data_freshness'', VDict (market_data_freshness adapters)),
       (''d1_quota_state'', VDict (classify_d1_quota_state (Some refresh))),
       (''paper_control'', VDict (dupdate
          [(''status'', VStr (if ph_paper_control_ready h then ''READY'' else ''DEGRADED'')),
           (''ready'', VBool (ph_paper_control_ready h))] (dict_or_empty (ph_paper_control_status h)))),
       (''t0_seal'', VDict (dupdate
          [(''status'', VStr (if ph_seal_healthy h then ''HEALTHY'' else ''DEGRADED'')),
           (''healthy'', VBool (ph_seal_healthy h))] (dict_or_empty (ph_seal_status h)))),
       (''durable_prediction'', VDict
          [(''status'', VStr (if fresh then ''FRESH'' else ''STALE_OR_UNKNOWN'')), (''fresh'', VBool fresh),
           (''last_authority_persisted_ts'', last_ts),
           (''age_s'', case age of None \<Rightarrow> VNone | Some x \<Rightarrow> VFloat x), (''threshold_s'', VInt threshold)]),
       (''collector_liveness'', VDict
          [(''status'', VStr ''EXTERNAL_NOT_PROBED_BY_H011''), (''ready'', VNone),
           (''required_for_h011_authority_readiness'', VBool False)])])"

definition build_readiness_contract ::
  "int \<Rightarrow> pyval \<Rightarrow> pydict option \<Rightarrow> process_health \<Rightarrow> pyval \<Rightarrow> pyval \<Rightarrow> pyval \<Rightarrow> pydatetime option \<Rightarrow> pydict res" where
  "build_readiness_contract clock snapshot refresh0 h adapters last_ts interval_s now =
     (let refresh = dict_or_empty refresh0 in
      rbind (probe_instant clock now) (\<lambda>current.
      rbind (cycle_interval interval_s) (\<lambda>interval.
        let threshold = freshness_threshold interval; age = persisted_age current last_ts;
            fresh = persisted_fresh age threshold; v = view_of snapshot
        in Inr (dupdate
          [(''status'', VStr (if all_ready snapshot refresh h fresh then ''ready'' else ''not_ready'')),
           (''probe'', VStr ''readiness''), (''reason'', readiness_reason snapshot refresh h fresh),
           (''checks'', VDict (readiness_checks snapshot refresh h fresh)),
           (''components'', VDict (readiness_components snapshot refresh h adapters last_ts age threshold)),
           (''authority_snapshot_id'', sv_id v), (''generation'', sv_generation v), (''canonical_sha256'', sv_sha v),
           (''provenance'', sv_provenance v), (''safety'', VDict safety_projection)]
          refresh))))"

subsection \<open>What a ready answer means\<close>

lemma quota_degraded: "dget (classify_d1_quota_state r) ''status'' = VStr ''EXHAUSTED'' \<Longrightarrow> dget (classify_d1_quota_state r) ''degraded'' = VBool True"
  by (auto simp: classify_d1_quota_state_def quota_state_def dget_find Let_def split: if_split_asm)

lemma por_not_none: "w \<noteq> VNone \<Longrightarrow> por v w \<noteq> VNone"
  by (cases v) (auto simp: por_def)

lemma reason_none_iff: "readiness_reason snapshot refresh h fresh = VNone \<longleftrightarrow> all_ready snapshot refresh h fresh"
proof -
  have "\<not> authority_ready snapshot refresh" if "dget (classify_d1_quota_state (Some refresh)) ''status'' = VStr ''EXHAUSTED''"
    using quota_degraded [OF that] by (simp add: authority_ready_def)
  then show ?thesis by (auto simp: readiness_reason_def all_ready_def por_not_none)
qed

lemma contract_opened:
  assumes "build_readiness_contract clock snapshot refresh h adapters last_ts interval_s now = Inr rep"
    "set [''status'', ''reason'', ''safety''] \<inter> fst ` set (dict_or_empty refresh) = {}"
  obtains current interval fresh where "probe_instant clock now = Inr current" "cycle_interval interval_s = Inr interval"
    "fresh = persisted_fresh (persisted_age current last_ts) (freshness_threshold interval)"
    "dget rep ''status'' = VStr (if all_ready snapshot (dict_or_empty refresh) h fresh then ''ready'' else ''not_ready'')"
    "dget rep ''reason'' = readiness_reason snapshot (dict_or_empty refresh) h fresh"
    "dget rep ''safety'' = VDict safety_projection"
proof -
  have k: "''status'' \<notin> fst ` set (dict_or_empty refresh)" "''reason'' \<notin> fst ` set (dict_or_empty refresh)"
    "''safety'' \<notin> fst ` set (dict_or_empty refresh)" using assms(2) by auto
  from assms(1) obtain current interval where ci: "probe_instant clock now = Inr current" "cycle_interval interval_s = Inr interval"
    unfolding build_readiness_contract_def Let_def rbind_Inr_iff by blast
  note rep = assms(1) [unfolded build_readiness_contract_def Let_def ci rbind.simps sum.inject, symmetric]
  show thesis
  proof (rule that [OF ci refl])
    let ?fresh = "persisted_fresh (persisted_age current last_ts) (freshness_threshold interval)"
    show "dget rep ''status'' = VStr (if all_ready snapshot (dict_or_empty refresh) h ?fresh then ''ready'' else ''not_ready'')"
      unfolding rep dupdate_get [OF k(1)] by (simp add: dget_find)
    show "dget rep ''reason'' = readiness_reason snapshot (dict_or_empty refresh) h ?fresh"
      unfolding rep dupdate_get [OF k(2)] by (simp add: dget_find)
    show "dget rep ''safety'' = VDict safety_projection"
      unfolding rep dupdate_get [OF k(3)] by (simp add: dget_find)
  qed
qed

lemma cycle_interval_pos: "cycle_interval v = Inr i \<Longrightarrow> 0 < i"
  by (auto simp: cycle_interval_def split: sum.split_asm if_split_asm)

lemma persisted_age_cases:
  assumes "persisted_age current ts = Some age"
  obtains d off u where "fromisoformat (replace_all ''Z'' ''+00:00'' (py_str ts)) = Some d" "dt_offset d = Some off"
    "to_utc (dt_local d) off = Inr u" "age = total_seconds (current - u)" "\<not> flt age fzero"
  using assms by (auto simp: persisted_age_def Let_def split: option.split_asm sum.split_asm if_split_asm)

text \<open>C31: the probe answers ready exactly when it gives no reason; a ready answer means that the snapshot is there and
  locked on paper with orders off, its last refresh did not fail, the oracle runs and the seal is healthy, and that the
  last persisted prediction carries an offset, does not lie in the future and is younger than a threshold of at most 45
  minutes. The refresh state must not overwrite the keys of the answer.\<close>

theorem readiness_sound:
  assumes "build_readiness_contract clock snapshot refresh h adapters last_ts interval_s now = Inr rep"
    "set [''status'', ''reason'', ''safety''] \<inter> fst ` set (dict_or_empty refresh) = {}"
  shows "(dget rep ''status'' = VStr ''ready'' \<longleftrightarrow> dget rep ''reason'' = VNone)
    \<and> dget rep ''safety'' = VDict safety_projection
    \<and> (dget rep ''status'' = VStr ''ready'' \<longrightarrow>
         snapshot \<noteq> VNone \<and> sv_paper_lock (view_of snapshot) \<and> sv_orders_disabled (view_of snapshot)
         \<and> sv_provenance_exact (view_of snapshot) \<and> refresh_ok (dict_or_empty refresh)
         \<and> dget (dict_or_empty refresh) ''snapshot_stale'' = VBool False
         \<and> ph_oracle_started h \<and> ph_seal_healthy h \<and> ph_paper_control_ready h
         \<and> (\<exists>current interval d off u. probe_instant clock now = Inr current \<and> 0 < interval \<and> freshness_threshold interval \<le> 2700
              \<and> fromisoformat (replace_all ''Z'' ''+00:00'' (py_str last_ts)) = Some d \<and> dt_offset d = Some off
              \<and> to_utc (dt_local d) off = Inr u \<and> \<not> flt (total_seconds (current - u)) fzero
              \<and> flt (total_seconds (current - u)) (fl_of_int (freshness_threshold interval))))"
proof -
  obtain current interval fresh where c: "probe_instant clock now = Inr current" "cycle_interval interval_s = Inr interval"
    and fresh: "fresh = persisted_fresh (persisted_age current last_ts) (freshness_threshold interval)"
    and rep: "dget rep ''status'' = VStr (if all_ready snapshot (dict_or_empty refresh) h fresh then ''ready'' else ''not_ready'')"
    "dget rep ''reason'' = readiness_reason snapshot (dict_or_empty refresh) h fresh"
    "dget rep ''safety'' = VDict safety_projection"
    using contract_opened [OF assms] .
  have s: "dget rep ''status'' = VStr ''ready'' \<longleftrightarrow> all_ready snapshot (dict_or_empty refresh) h fresh" by (simp add: rep(1))
  have age: "\<exists>d off u. fromisoformat (replace_all ''Z'' ''+00:00'' (py_str last_ts)) = Some d \<and> dt_offset d = Some off
      \<and> to_utc (dt_local d) off = Inr u \<and> \<not> flt (total_seconds (current - u)) fzero
      \<and> flt (total_seconds (current - u)) (fl_of_int (freshness_threshold interval))" if "fresh"
  proof -
    from that fresh obtain age where "persisted_age current last_ts = Some age" "flt age (fl_of_int (freshness_threshold interval))"
      by (auto simp: persisted_fresh_def split: option.split_asm)
    then show ?thesis by (auto elim!: persisted_age_cases)
  qed
  have "freshness_threshold interval \<le> 2700" by (simp add: freshness_threshold_def)
  with cycle_interval_pos [OF c(2)] c(1) age show ?thesis
    unfolding s rep(2,3) reason_none_iff by (auto simp: all_ready_def authority_ready_def snapshot_fresh_def)
qed

subsection \<open>An example\<close>

definition demo_snapshot :: pyval where
  "demo_snapshot = VDict [(''authority_history_complete'', VBool True), (''provenance'', VDict [(''exact'', VBool True)]),
     (''live_gate'', VDict [(''trade_mode'', VStr ''PAPER''), (''live_capital_locked'', VBool True)])]"

definition demo_refresh :: pydict where
  "demo_refresh = [(''last_refresh_error'', VNone), (''snapshot_stale'', VBool False)]"

definition demo_health :: process_health where
  "demo_health = \<lparr>ph_oracle_started = True, ph_paper_control_ready = True, ph_paper_control_status = None,
     ph_seal_healthy = True, ph_seal_status = None\<rparr>"

lemma demo_all_ready: "all_ready demo_snapshot demo_refresh demo_health True"
proof -
  have "classify_d1_quota_state (Some demo_refresh) = quota_state ''OK'' False VNone VNone"
    by (simp add: classify_d1_quota_state_def error_text_def dict_or_empty_def demo_refresh_def dget_find por_def
        quota_exhausted_def upper_def)
  then show ?thesis
    by (simp add: all_ready_def authority_ready_def demo_snapshot_def demo_refresh_def demo_health_def view_of_def obj_get_def
        dget_or_def dget_find por_def quota_state_def snapshot_fresh_def refresh_ok_def Let_def)
qed

lemma demo_age: "persisted_age (unix_epoch + 900000000) demo_ts = Some (total_seconds 900000000)"
proof -
  have "replace_all ''Z'' ''+00:00'' (isoformat_utc unix_epoch) = isoformat_utc unix_epoch"
    by (rule replace_none) (use isoformat_no_z [OF demo_range(1,2)] in blast)
  moreover have "\<not> flt (total_seconds 900000000) fzero" by (simp add: demo_seconds fzero_def fl_int_def)
  ultimately show ?thesis
    using fromisoformat_isoformat [OF demo_range(1,2)] demo_range(1,2)
    by (simp add: persisted_age_def demo_ts_def to_utc_def)
qed

lemma demo_contract: "\<exists>rep. build_readiness_contract (unix_epoch + 900000000) demo_snapshot (Some demo_refresh) demo_health
    VNone demo_ts (VInt 900) None = Inr rep"
  by (simp add: build_readiness_contract_def probe_instant_def cycle_interval_def Let_def)

theorem readiness_sound_witness:
  "\<exists>rep. build_readiness_contract (unix_epoch + 900000000) demo_snapshot (Some demo_refresh) demo_health
     VNone demo_ts (VInt 900) None = Inr rep \<and> dget rep ''status'' = VStr ''ready'' \<and> dget rep ''reason'' = VNone"
proof -
  obtain rep where r: "build_readiness_contract (unix_epoch + 900000000) demo_snapshot (Some demo_refresh) demo_health
    VNone demo_ts (VInt 900) None = Inr rep" using demo_contract by blast
  have k: "set [''status'', ''reason'', ''safety''] \<inter> fst ` set (dict_or_empty (Some demo_refresh)) = {}"
    by (simp add: dict_or_empty_def demo_refresh_def)
  have "freshness_threshold 900 = 2700" by (simp add: freshness_threshold_def)
  moreover have "flt (total_seconds 900000000) (fl_of_int 2700)"
    by (simp add: demo_seconds fl_of_int_def round_by_simp fl_int_def)
  ultimately have "persisted_fresh (persisted_age (unix_epoch + 900000000) demo_ts) (freshness_threshold 900)"
    by (simp add: demo_age persisted_fresh_def)
  then have "dget rep ''status'' = VStr ''ready''"
    by (rule_tac contract_opened [OF r k])
      (use demo_all_ready in \<open>auto simp: probe_instant_def cycle_interval_def dict_or_empty_def\<close>)
  then show ?thesis using r readiness_sound [OF r k] by blast
qed

end
