(* ===== verification/AuthoritySnapshot.thy ===== *)
theory AuthoritySnapshot
  imports Readiness
begin

section \<open>The authority snapshot\<close>

text \<open>
  \<^verbatim>\<open>senecio_polymarket/backend/authority_snapshot.py\<close>: capture of a complete authority
  generation, and the store that publishes the last good generation of every symbol. SHA-256, the
  provenance of the build, the two answers of the database, the builder of the gate and both clocks
  are arguments. \<^verbatim>\<open>get\<close> is split where it awaits: \<open>begin_get\<close> up to the capture, under
  the lock of the symbol, and \<open>finish_get\<close> after it; the maps of the store are partial functions. Not modelled: \<open>clear()\<close>
  between the two, and a task that is cancelled at the await, which would leave the mark of a refresh in progress set.
\<close>

definition snapshot_symbol :: "pyval \<Rightarrow> string" where "snapshot_symbol v = plain_symbol v"

record tick =
  tk_utc :: int
  tk_mono :: pyfloat

definition utcnow :: "tick \<Rightarrow> string" where "utcnow now = isoformat_utc (tk_utc now)"

definition snapshot_json :: "pyval \<Rightarrow> string" where "snapshot_json v = canon True v"

definition snapshot_sha256 :: "(string \<Rightarrow> string) \<Rightarrow> pyval \<Rightarrow> string" where
  "snapshot_sha256 sha v = sha (snapshot_json v)"

subsection \<open>Rows\<close>

definition text_or_empty :: "pyval \<Rightarrow> string" where "text_or_empty v = py_str (por v (VStr []))"

definition cursor_key :: "pydict \<Rightarrow> string \<times> string" where
  "cursor_key row = (text_or_empty (dget row ''ts''), text_or_empty (dget row ''id''))"

fun as_row :: "pyval \<Rightarrow> pydict res" where
  "as_row (VDict d) = Inr d"
| "as_row v = Inl (AttributeError ''object has no attribute: get'')"

definition canonical_rows :: "pyval list \<Rightarrow> pydict list res" where
  "canonical_rows rows = rbind (rmap as_row rows) (\<lambda>ds. Inr (sort_key cursor_key ds))"

definition last_cursor :: "pydict list \<Rightarrow> pyval" where
  "last_cursor rows =
     (if rows = [] then VNone
      else let (ts, row_id) = cursor_key (last rows)
        in if ts = [] \<and> row_id = [] then VNone else VDict [(''ts'', VStr ts), (''id'', VStr row_id)])"

subsection \<open>Snapshots\<close>

record authority_snapshot =
  sn_id :: string
  sn_generation :: nat
  sn_captured_at :: string
  sn_captured_mono :: pyfloat
  sn_sha :: string
  sn_symbol :: string
  sn_history_complete :: bool
  sn_history_rows :: nat
  sn_exact_total :: int
  sn_exact_complete :: bool
  sn_cursor :: pyval
  sn_score :: pydict
  sn_live_gate :: pydict
  sn_provenance :: pydict
  sn_failure :: pyval

record captured_authority =
  ca_at :: string
  ca_mono :: pyfloat
  ca_sha :: string
  ca_hex :: string
  ca_symbol :: string
  ca_history_rows :: nat
  ca_exact_total :: int
  ca_cursor :: pyval
  ca_score :: pydict
  ca_live_gate :: pydict
  ca_provenance :: pydict
  ca_recent :: "pydict list"

definition snapshot_dict :: "authority_snapshot \<Rightarrow> pydict \<Rightarrow> pydict" where
  "snapshot_dict s refresh =
     dupdate
      [(''snapshot_id'', VStr (sn_id s)), (''generation'', VInt (int (sn_generation s))),
       (''captured_at'', VStr (sn_captured_at s)), (''canonical_sha256'', VStr (sn_sha s)), (''symbol'', VStr (sn_symbol s)),
       (''authority_history_complete'', VBool (sn_history_complete s)),
       (''authority_history_rows'', VInt (int (sn_history_rows s))),
       (''exact_total_predictions'', VInt (sn_exact_total s)), (''exact_count_complete'', VBool (sn_exact_complete s)),
       (''last_cursor_or_equivalent'', sn_cursor s), (''failure_reason'', sn_failure s), (''score'', VDict (sn_score s)),
       (''live_gate'', VDict (sn_live_gate s)), (''provenance'', VDict (sn_provenance s)),
       (''trade_mode'', VStr ''PAPER''), (''orders_enabled'', VBool False), (''live_capital_locked'', VBool True)]
      refresh"

subsection \<open>Capture\<close>

text \<open>An \<^verbatim>\<open>AuthoritySnapshotRefreshError\<close>, or any other exception.\<close>

datatype capture_error = RefreshError string | OtherError exc

definition or_name :: "exc \<Rightarrow> string" where
  "or_name e = (if exc_msg e \<noteq> [] then exc_msg e else exc_name e)"

definition capture_failures :: "pyval res \<Rightarrow> pyval res \<Rightarrow> string list" where
  "capture_failures history exact =
     (case history of Inl e \<Rightarrow> [''AUTHORITY_HISTORY:'' @ exc_name e @ '':'' @ or_name e] | Inr v \<Rightarrow> [])
     @ (case exact of Inl e \<Rightarrow> [''EXACT_COUNT:'' @ exc_name e @ '':'' @ or_name e] | Inr v \<Rightarrow> [])"

text \<open>The two answers, checked: rows and a count.\<close>

definition checked_answers :: "pyval res \<Rightarrow> pyval res \<Rightarrow> capture_error + (pyval list \<times> int)" where
  "checked_answers history exact =
     (case (history, exact) of
        (Inr h, Inr n) \<Rightarrow>
          (case h of
             VList rows \<Rightarrow> (case n of VInt i \<Rightarrow> Inr (rows, i) | _ \<Rightarrow> Inl (RefreshError ''EXACT_COUNT:RESPONSE_NOT_INT''))
           | _ \<Rightarrow> Inl (RefreshError ''AUTHORITY_HISTORY:RESPONSE_NOT_LIST''))
      | _ \<Rightarrow> Inl (RefreshError (join '';'' (capture_failures history exact))))"

definition with_counts :: "pydict \<Rightarrow> nat \<Rightarrow> int \<Rightarrow> pydict" where
  "with_counts sc n exact =
     dupdate sc [(''authority_history_complete'', VBool True), (''authority_history_rows'', VInt (int n)),
                 (''exact_total_predictions'', VInt exact), (''exact_count_complete'', VBool True)]"

definition built_gate :: "(pydict \<Rightarrow> pyval res) \<Rightarrow> pydict \<Rightarrow> nat \<Rightarrow> capture_error + pydict" where
  "built_gate builder sc n =
     (case builder sc of
        Inl e \<Rightarrow> Inl (RefreshError (''LIVE_GATE:'' @ exc_name e))
      | Inr (VDict g) \<Rightarrow> Inr (dset (dset g ''authority_history_complete'' (VBool True)) ''authority_history_rows'' (VInt (int n)))
      | Inr v \<Rightarrow> Inl (RefreshError ''LIVE_GATE:RESPONSE_NOT_OBJECT''))"

definition canonical_authority :: "string \<Rightarrow> pydict list \<Rightarrow> int \<Rightarrow> pydict \<Rightarrow> pydict \<Rightarrow> pydict \<Rightarrow> pyval" where
  "canonical_authority symbol rows exact sc live_gate provenance =
     VDict [(''contract'', VStr ''senex-authority-snapshot-v2''), (''symbol'', VStr symbol),
            (''authority_rows'', VList (map VDict rows)), (''authority_history_rows'', VInt (int (length rows))),
            (''last_cursor_or_equivalent'', last_cursor rows), (''exact_total_predictions'', VInt exact),
            (''score'', VDict sc), (''live_gate'', VDict live_gate), (''provenance'', VDict provenance)]"

definition scored_rows :: "local_zone \<Rightarrow> pyval list \<Rightarrow> string \<Rightarrow> (pydict list \<times> pydict) res" where
  "scored_rows zone raw symbol =
     rbind (canonical_rows raw) (\<lambda>rows.
     rbind (build_authoritative_score zone rows VNone (VStr symbol)) (\<lambda>sc. Inr (rows, sc)))"

definition capture_complete ::
  "(string \<Rightarrow> string) \<Rightarrow> local_zone \<Rightarrow> pydict \<Rightarrow> tick \<Rightarrow> pyval res \<Rightarrow> pyval res \<Rightarrow> (pydict \<Rightarrow> pyval res) \<Rightarrow> string
    \<Rightarrow> capture_error + captured_authority" where
  "capture_complete sha zone provenance now history exact builder symbol =
     (case checked_answers history exact of
        Inl e \<Rightarrow> Inl e
      | Inr (raw, n) \<Rightarrow>
          (case scored_rows zone raw symbol of
             Inl e \<Rightarrow> Inl (OtherError e)
           | Inr (rows, sc0) \<Rightarrow>
               let sc = with_counts sc0 (length rows) n in
               (case built_gate builder sc (length rows) of
                  Inl e \<Rightarrow> Inl e
                | Inr lg \<Rightarrow>
                    let hex = snapshot_sha256 sha (canonical_authority symbol rows n sc lg provenance) in
                    Inr \<lparr>ca_at = utcnow now, ca_mono = tk_mono now, ca_sha = ''sha256:'' @ hex, ca_hex = hex,
                         ca_symbol = symbol, ca_history_rows = length rows, ca_exact_total = n,
                         ca_cursor = last_cursor rows, ca_score = sc, ca_live_gate = lg, ca_provenance = provenance,
                         ca_recent = rev (last_n 50 rows)\<rparr>)))"

subsection \<open>The store\<close>

record refresh_state =
  rf_attempt_at :: "string option"
  rf_attempt_mono :: "pyfloat option"
  rf_success_at :: "string option"
  rf_success_mono :: "pyfloat option"
  rf_error :: "string option"
  rf_in_progress :: bool

definition new_refresh :: refresh_state where
  "new_refresh = \<lparr>rf_attempt_at = None, rf_attempt_mono = None, rf_success_at = None, rf_success_mono = None,
     rf_error = None, rf_in_progress = False\<rparr>"

record snapshot_store =
  ss_runtime_policy :: bool
  ss_refresh_period :: pyfloat
  ss_ttl :: pyfloat
  ss_cache :: "string \<Rightarrow> authority_snapshot option"
  ss_generation :: "string \<Rightarrow> nat option"
  ss_refresh :: "string \<Rightarrow> refresh_state option"
  ss_recent :: "string \<Rightarrow> pydict list option"

text \<open>The constructor; the two texts are the environment variables or their defaults.\<close>

definition new_store :: "pyval \<Rightarrow> string \<Rightarrow> string \<Rightarrow> snapshot_store res" where
  "new_store ttl env_interval env_ttl =
     rbind (float_of (VStr env_interval)) (\<lambda>interval.
     let period = fmax (flit 300 0) interval in
     rbind (if ttl = VNone
            then rbind (float_of (VStr env_ttl)) (\<lambda>t. Inr (fmax t (fadd period (flit 120 0))))
            else float_of ttl) (\<lambda>t.
       Inr \<lparr>ss_runtime_policy = (ttl = VNone), ss_refresh_period = period, ss_ttl = t, ss_cache = Map.empty,
            ss_generation = Map.empty, ss_refresh = Map.empty, ss_recent = Map.empty\<rparr>))"

definition clear_store :: "snapshot_store \<Rightarrow> snapshot_store" where
  "clear_store st = st\<lparr>ss_cache := Map.empty, ss_generation := Map.empty, ss_refresh := Map.empty, ss_recent := Map.empty\<rparr>"

definition refresh_interval_s :: "snapshot_store \<Rightarrow> pyfloat res" where
  "refresh_interval_s st =
     (if ss_runtime_policy st then Inr (ss_refresh_period st)
      else let ttl = fmax fzero (ss_ttl st)
        in if fle ttl fzero then Inr (flit 1 0)
           else rbind (fdiv ttl (flit 2 0)) (\<lambda>h. Inr (fmax (flit 1 0) (fmin (flit 5 0) h))))"

definition refresh_of :: "snapshot_store \<Rightarrow> string \<Rightarrow> refresh_state" where
  "refresh_of st k = (case ss_refresh st k of None \<Rightarrow> new_refresh | Some r \<Rightarrow> r)"

definition set_refresh :: "snapshot_store \<Rightarrow> string \<Rightarrow> refresh_state \<Rightarrow> snapshot_store" where
  "set_refresh st k r = st\<lparr>ss_refresh := (ss_refresh st)(k := Some r)\<rparr>"

definition mark_attempt :: "tick \<Rightarrow> snapshot_store \<Rightarrow> string \<Rightarrow> snapshot_store" where
  "mark_attempt now st k =
     set_refresh st k ((refresh_of st k)\<lparr>rf_attempt_at := Some (utcnow now), rf_attempt_mono := Some (tk_mono now),
       rf_in_progress := True\<rparr>)"

definition mark_success :: "tick \<Rightarrow> snapshot_store \<Rightarrow> string \<Rightarrow> snapshot_store" where
  "mark_success now st k =
     set_refresh st k ((refresh_of st k)\<lparr>rf_success_at := Some (utcnow now), rf_success_mono := Some (tk_mono now),
       rf_error := None, rf_in_progress := False\<rparr>)"

definition mark_failure :: "snapshot_store \<Rightarrow> string \<Rightarrow> string \<Rightarrow> snapshot_store" where
  "mark_failure st k message =
     set_refresh st k ((refresh_of st k)\<lparr>
       rf_error := Some (if message \<noteq> [] then message else ''AuthoritySnapshotRefreshError''), rf_in_progress := False\<rparr>)"

text \<open>The refresh state of a symbol, as it is shown.\<close>

definition snapshot_age :: "tick \<Rightarrow> snapshot_store \<Rightarrow> string \<Rightarrow> pyfloat option" where
  "snapshot_age now st k =
     (case rf_success_mono (refresh_of st k) of
        None \<Rightarrow> None
      | Some t \<Rightarrow> Some (fmax fzero (fsub (tk_mono now) t)))"

definition snapshot_stale :: "tick \<Rightarrow> snapshot_store \<Rightarrow> string \<Rightarrow> bool" where
  "snapshot_stale now st k =
     (case snapshot_age now st k of
        None \<Rightarrow> True
      | Some a \<Rightarrow> ss_cache st k = None \<or> flt (fmax fzero (ss_ttl st)) a)"

definition text_value :: "string option \<Rightarrow> pyval" where
  "text_value x = (case x of None \<Rightarrow> VNone | Some s \<Rightarrow> VStr s)"

definition refresh_status :: "tick \<Rightarrow> snapshot_store \<Rightarrow> pyval \<Rightarrow> pydict" where
  "refresh_status now st symbol =
     (let k = snapshot_symbol symbol; r = refresh_of st k in
      [(''last_refresh_attempt_at'', text_value (rf_attempt_at r)), (''last_refresh_success_at'', text_value (rf_success_at r)),
       (''last_refresh_error'', text_value (rf_error r)), (''refresh_in_progress'', VBool (rf_in_progress r)),
       (''snapshot_age_s'', rounded 6 (snapshot_age now st k)), (''snapshot_stale'', VBool (snapshot_stale now st k))])"

definition symbol_required :: exc where "symbol_required = ValueError ''AUTHORITY_SYMBOL_REQUIRED''"

definition observe :: "tick \<Rightarrow> snapshot_store \<Rightarrow> pyval \<Rightarrow> (authority_snapshot option \<times> pydict) res" where
  "observe now st symbol =
     (let k = snapshot_symbol symbol
      in if k = [] then Inl symbol_required else Inr (ss_cache st k, refresh_status now st (VStr k)))"

definition recent_predictions :: "snapshot_store \<Rightarrow> pyval \<Rightarrow> pyval \<Rightarrow> pydict list res" where
  "recent_predictions st symbol limit =
     rbind (int_of limit) (\<lambda>n.
       Inr (take (nat (max 1 (min n 50))) (case ss_recent st (snapshot_symbol symbol) of None \<Rightarrow> [] | Some rs \<Rightarrow> rs)))"

definition fresh_in_store :: "tick \<Rightarrow> snapshot_store \<Rightarrow> string \<Rightarrow> bool" where
  "fresh_in_store now st k =
     (ss_cache st k \<noteq> None \<and> \<not> truthy (dget (refresh_status now st (VStr k)) ''snapshot_stale'')
      \<and> dget (refresh_status now st (VStr k)) ''last_refresh_error'' = VNone)"

subsection \<open>get\<close>

text \<open>Up to the capture: the cached snapshot is served, or a capture begins that remembers it.\<close>

datatype get_start =
    Refused exc
  | Served authority_snapshot
  | Capturing "authority_snapshot option"

definition begin_get :: "tick \<Rightarrow> snapshot_store \<Rightarrow> pyval \<Rightarrow> bool \<Rightarrow> get_start \<times> snapshot_store" where
  "begin_get now st symbol force =
     (let k = snapshot_symbol symbol in
      if k = [] then (Refused symbol_required, st)
      else case ss_cache st k of
        Some s \<Rightarrow> if \<not> force \<and> fresh_in_store now st k then (Served s, st) else (Capturing (Some s), mark_attempt now st k)
      | None \<Rightarrow> (Capturing None, mark_attempt now st k))"

fun failure_text :: "capture_error \<Rightarrow> string" where
  "failure_text (RefreshError m) = m"
| "failure_text (OtherError e) = exc_name e"

definition tagged :: "pydict \<Rightarrow> captured_authority \<Rightarrow> nat \<Rightarrow> pydict" where
  "tagged payload c gen =
     dset (dset (dset payload ''authority_snapshot_id'' (VStr (ca_hex c))) ''authority_generation'' (VInt (int gen)))
       ''authority_canonical_sha256'' (VStr (ca_sha c))"

definition published :: "string \<Rightarrow> captured_authority \<Rightarrow> nat \<Rightarrow> authority_snapshot" where
  "published k c gen =
     \<lparr>sn_id = ca_hex c, sn_generation = gen, sn_captured_at = ca_at c, sn_captured_mono = ca_mono c, sn_sha = ca_sha c,
      sn_symbol = k, sn_history_complete = True, sn_history_rows = ca_history_rows c, sn_exact_total = ca_exact_total c,
      sn_exact_complete = True, sn_cursor = ca_cursor c, sn_score = tagged (ca_score c) c gen,
      sn_live_gate = tagged (ca_live_gate c) c gen, sn_provenance = ca_provenance c, sn_failure = VNone\<rparr>"

definition next_generation :: "snapshot_store \<Rightarrow> string \<Rightarrow> nat" where
  "next_generation st k = (case ss_generation st k of None \<Rightarrow> 0 | Some g \<Rightarrow> g) + 1"

text \<open>After the capture: a failure leaves the last good generation in place.\<close>

definition finish_get ::
  "tick \<Rightarrow> snapshot_store \<Rightarrow> string \<Rightarrow> authority_snapshot option \<Rightarrow> capture_error + captured_authority
    \<Rightarrow> (string + authority_snapshot) \<times> snapshot_store" where
  "finish_get now st k cached outcome =
     (case outcome of
        Inl e \<Rightarrow>
          (case cached of Some s \<Rightarrow> Inr s | None \<Rightarrow> Inl (failure_text e), mark_failure st k (failure_text e))
      | Inr c \<Rightarrow>
          let st1 = st\<lparr>ss_recent := (ss_recent st)(k := Some (ca_recent c))\<rparr> in
          (case cached of
             Some s \<Rightarrow>
               if sn_sha s = ca_sha c then (Inr s, mark_success now st1 k)
               else let s' = published k c (next_generation st1 k)
                 in (Inr s', mark_success now (st1\<lparr>ss_cache := (ss_cache st1)(k := Some s'),
                       ss_generation := (ss_generation st1)(k := Some (sn_generation s'))\<rparr>) k)
           | None \<Rightarrow>
               let s' = published k c (next_generation st1 k)
               in (Inr s', mark_success now (st1\<lparr>ss_cache := (ss_cache st1)(k := Some s'),
                     ss_generation := (ss_generation st1)(k := Some (sn_generation s'))\<rparr>) k)))"

subsection \<open>Interleavings\<close>

text \<open>Calls of \<^verbatim>\<open>get\<close> for any symbols interleave at the capture; the lock of a symbol admits one
  capture at a time. The second component maps a locked symbol to the snapshot its capture remembers.\<close>

type_synonym store_run = "snapshot_store \<times> (string \<Rightarrow> authority_snapshot option option)"

inductive store_step :: "store_run \<Rightarrow> store_run \<Rightarrow> bool" where
  serve: "begin_get now st symbol force = (Served s, st') \<Longrightarrow> store_step (st, locks) (st', locks)"
| capture: "begin_get now st symbol force = (Capturing cached, st') \<Longrightarrow> locks (snapshot_symbol symbol) = None
    \<Longrightarrow> store_step (st, locks) (st', locks(snapshot_symbol symbol := Some cached))"
| finish: "locks k = Some cached \<Longrightarrow> finish_get now st k cached (capture_complete sha zone provenance began history exact builder k) = (answer, st')
    \<Longrightarrow> store_step (st, locks) (st', locks(k := None))"

inductive store_reach :: "snapshot_store \<Rightarrow> store_run \<Rightarrow> bool" for st0 where
  start: "store_reach st0 (st0, Map.empty)"
| step: "store_reach st0 r \<Longrightarrow> store_step r r' \<Longrightarrow> store_reach st0 r'"

inductive_cases store_stepE: "store_step (st, locks) (st', locks')"

subsection \<open>Normal symbols\<close>

lemma replace_drop: "replace_all [z] [] s = filter (\<lambda>c. c \<noteq> z) s"
proof (induction s)
  case (Cons c s)
  then show ?case by (subst replace_all.simps) simp
qed (simp add: replace_all.simps)

lemma strip_again: "strip (strip s) = strip s"
  using strip_ends [of s] strip_id [of "strip s"] by (cases "strip s = []") auto

lemma plain_symbol_text: "plain_symbol v = strip (filter (\<lambda>c. c \<noteq> CHR ''-'' \<and> c \<noteq> CHR ''/'') (upper (py_str (por v (VStr [])))))"
  by (simp add: plain_symbol_def replace_drop conj_commute)

lemma plain_symbol_again [simp]: "plain_symbol (VStr (plain_symbol v)) = plain_symbol v"
proof -
  define s where "s = plain_symbol v"
  have "set s \<subseteq> {c \<in> set (upper (py_str (por v (VStr [])))). c \<noteq> CHR ''-'' \<and> c \<noteq> CHR ''/''}"
    unfolding s_def plain_symbol_text using strip_set by fastforce
  then have c: "\<forall>c \<in> set s. c \<noteq> CHR ''-'' \<and> c \<noteq> CHR ''/'' \<and> upper_char c = c"
    using upper_fixed [of "upper (py_str (por v (VStr [])))"] by auto
  then have "upper s = s" by (simp add: upper_fixed)
  moreover have "filter (\<lambda>c. c \<noteq> CHR ''-'' \<and> c \<noteq> CHR ''/'') s = s" using c by (simp add: filter_id_conv)
  moreover have "strip s = s" unfolding s_def plain_symbol_text by (rule strip_again)
  moreover have "py_str (por (VStr s) (VStr [])) = s" by (cases s) (simp_all add: por_def)
  ultimately have "plain_symbol (VStr s) = s" unfolding plain_symbol_text [of "VStr s"] by simp
  then show ?thesis by (simp add: s_def)
qed

subsection \<open>The store over time\<close>

lemma refresh_of_set [simp]: "refresh_of (set_refresh st k r) k' = (if k' = k then r else refresh_of st k')"
  by (simp add: refresh_of_def set_refresh_def)

lemma marks [simp]:
  "ss_cache (mark_attempt now st k) = ss_cache st" "ss_generation (mark_attempt now st k) = ss_generation st"
  "ss_cache (mark_success now st k) = ss_cache st" "ss_generation (mark_success now st k) = ss_generation st"
  "ss_cache (mark_failure st k m) = ss_cache st" "ss_generation (mark_failure st k m) = ss_generation st"
  "ss_ttl (mark_attempt now st k) = ss_ttl st" "ss_ttl (mark_success now st k) = ss_ttl st" "ss_ttl (mark_failure st k m) = ss_ttl st"
  by (simp_all add: mark_attempt_def mark_success_def mark_failure_def set_refresh_def)

lemma refresh_of_marks [simp]:
  "refresh_of (mark_attempt now st k) k' = (if k' = k then (refresh_of st k)\<lparr>rf_attempt_at := Some (utcnow now),
     rf_attempt_mono := Some (tk_mono now), rf_in_progress := True\<rparr> else refresh_of st k')"
  "refresh_of (mark_success now st k) k' = (if k' = k then (refresh_of st k)\<lparr>rf_success_at := Some (utcnow now),
     rf_success_mono := Some (tk_mono now), rf_error := None, rf_in_progress := False\<rparr> else refresh_of st k')"
  "refresh_of (mark_failure st k m) k' = (if k' = k then (refresh_of st k)\<lparr>
     rf_error := Some (if m \<noteq> [] then m else ''AuthoritySnapshotRefreshError''), rf_in_progress := False\<rparr> else refresh_of st k')"
  by (simp_all add: mark_attempt_def mark_success_def mark_failure_def)

lemma refresh_of_update [simp]:
  "refresh_of (st\<lparr>ss_cache := c\<rparr>) = refresh_of st" "refresh_of (st\<lparr>ss_generation := g\<rparr>) = refresh_of st"
  "refresh_of (st\<lparr>ss_recent := r\<rparr>) = refresh_of st"
  by (auto simp: refresh_of_def fun_eq_iff)

text \<open>A snapshot as it was published: under its symbol, complete, and both payloads tagged with its identity.\<close>

definition snapshot_ok :: "string \<Rightarrow> authority_snapshot \<Rightarrow> bool" where
  "snapshot_ok k s =
     (sn_symbol s = k \<and> 1 \<le> sn_generation s \<and> sn_history_complete s \<and> sn_exact_complete s \<and> sn_failure s = VNone
      \<and> sn_sha s = ''sha256:'' @ sn_id s
      \<and> (\<forall>payload \<in> {sn_score s, sn_live_gate s}.
           dget payload ''authority_snapshot_id'' = VStr (sn_id s)
           \<and> dget payload ''authority_generation'' = VInt (int (sn_generation s))
           \<and> dget payload ''authority_canonical_sha256'' = VStr (sn_sha s)))"

lemma published_ok: "ca_sha c = ''sha256:'' @ ca_hex c \<Longrightarrow> 1 \<le> g \<Longrightarrow> snapshot_ok k (published k c g)"
  by (simp add: snapshot_ok_def published_def tagged_def dset_get)

lemma captured_sha:
  "capture_complete sha zone provenance now history exact builder symbol = Inr c \<Longrightarrow> ca_sha c = ''sha256:'' @ ca_hex c"
  by (auto simp: capture_complete_def Let_def split: sum.split_asm prod.split_asm)

fun store_ok :: "store_run \<Rightarrow> bool" where
  "store_ok (st, locks) =
     (\<forall>k. (\<forall>s. ss_cache st k = Some s \<longrightarrow> snapshot_ok k s \<and> ss_generation st k = Some (sn_generation s))
        \<and> (ss_cache st k = None \<longrightarrow> ss_generation st k = None)
        \<and> (\<forall>c. locks k = Some c \<longrightarrow> c = ss_cache st k)
        \<and> (rf_in_progress (refresh_of st k) \<longleftrightarrow> locks k \<noteq> None)
        \<and> (rf_success_mono (refresh_of st k) \<noteq> None \<longleftrightarrow> ss_cache st k \<noteq> None))"

lemma store_ok_at:
  assumes "store_ok (st, locks)"
  shows "ss_cache st k = Some s \<Longrightarrow> snapshot_ok k s" "ss_cache st k = Some s \<Longrightarrow> ss_generation st k = Some (sn_generation s)"
    "ss_cache st k = None \<Longrightarrow> ss_generation st k = None" "locks k = Some c \<Longrightarrow> c = ss_cache st k"
    "rf_in_progress (refresh_of st k) \<longleftrightarrow> locks k \<noteq> None"
    "rf_success_mono (refresh_of st k) \<noteq> None \<longleftrightarrow> ss_cache st k \<noteq> None"
  using assms by auto

lemma begin_cases:
  assumes "begin_get now st symbol force = (answer, st')"
  obtains "snapshot_symbol symbol = []" "answer = Refused symbol_required" "st' = st"
  | s where "snapshot_symbol symbol \<noteq> []" "answer = Served s" "ss_cache st (snapshot_symbol symbol) = Some s" "\<not> force" "st' = st"
  | "snapshot_symbol symbol \<noteq> []" "answer = Capturing (ss_cache st (snapshot_symbol symbol))" "st' = mark_attempt now st (snapshot_symbol symbol)"
  using assms by (auto simp: begin_get_def Let_def split: if_split_asm option.split_asm)

text \<open>What a finished capture does, in three cases.\<close>

lemma finish_cases:
  assumes "finish_get now st k cached outcome = (answer, st')"
  obtains (fail) e where "outcome = Inl e" "st' = mark_failure st k (failure_text e)"
      "answer = (case cached of Some s \<Rightarrow> Inr s | None \<Rightarrow> Inl (failure_text e))"
  | (same) c s where "outcome = Inr c" "cached = Some s" "sn_sha s = ca_sha c" "answer = Inr s"
      "st' = mark_success now (st\<lparr>ss_recent := (ss_recent st)(k := Some (ca_recent c))\<rparr>) k"
  | (fresh) c s where "outcome = Inr c" "s = published k c (next_generation st k)"
      "\<forall>old. cached = Some old \<longrightarrow> sn_sha old \<noteq> ca_sha c" "answer = Inr s"
      "st' = mark_success now (st\<lparr>ss_recent := (ss_recent st)(k := Some (ca_recent c)), ss_cache := (ss_cache st)(k := Some s),
         ss_generation := (ss_generation st)(k := Some (next_generation st k))\<rparr>) k"
proof -
  have n: "next_generation (st\<lparr>ss_recent := r\<rparr>) k = next_generation st k" for r by (simp add: next_generation_def)
  have g: "sn_generation (published k c i) = i" for c i by (simp add: published_def)
  show thesis
    using assms fail same fresh by (auto simp: finish_get_def Let_def n g split: sum.split_asm option.split_asm if_split_asm)
qed

lemma finish_cache:
  assumes "finish_get now st k cached outcome = (answer, st')" "cached = ss_cache st k"
    "\<forall>c. outcome = Inr c \<longrightarrow> ca_sha c = ''sha256:'' @ ca_hex c" "store_ok (st, locks)"
  shows "\<forall>k'. k' \<noteq> k \<longrightarrow> ss_cache st' k' = ss_cache st k' \<and> ss_generation st' k' = ss_generation st k'
      \<and> refresh_of st' k' = refresh_of st k'"
    and "\<not> rf_in_progress (refresh_of st' k)"
    and "\<forall>s. ss_cache st' k = Some s \<longrightarrow> snapshot_ok k s \<and> ss_generation st' k = Some (sn_generation s)"
    and "ss_cache st' k = None \<longrightarrow> ss_generation st' k = None"
    and "rf_success_mono (refresh_of st' k) \<noteq> None \<longleftrightarrow> ss_cache st' k \<noteq> None"
proof -
  note at = store_ok_at [OF assms(4), of k]
  show "\<forall>k'. k' \<noteq> k \<longrightarrow> ss_cache st' k' = ss_cache st k' \<and> ss_generation st' k' = ss_generation st k'
      \<and> refresh_of st' k' = refresh_of st k'"
    using assms(1) by (cases rule: finish_cases) simp_all
  show "\<not> rf_in_progress (refresh_of st' k)" using assms(1) by (cases rule: finish_cases) simp_all
  show "\<forall>s. ss_cache st' k = Some s \<longrightarrow> snapshot_ok k s \<and> ss_generation st' k = Some (sn_generation s)"
    using assms(1)
  proof (cases rule: finish_cases)
    case (fresh c s)
    moreover have "snapshot_ok k s" using assms(3) fresh(1,2) published_ok by (simp add: next_generation_def)
    ultimately show ?thesis by (simp add: published_def)
  qed (simp_all add: at(1,2))
  show "ss_cache st' k = None \<longrightarrow> ss_generation st' k = None"
    using assms(1) by (cases rule: finish_cases) (simp_all add: at(3))
  show "rf_success_mono (refresh_of st' k) \<noteq> None \<longleftrightarrow> ss_cache st' k \<noteq> None"
    using assms(1)
  proof (cases rule: finish_cases)
    case (fail e)
    then show ?thesis using at(6) by simp
  next
    case (same c s)
    then show ?thesis using assms(2) by simp
  qed simp
qed

lemma store_step_ok:
  assumes "store_step r r'" "store_ok r"
  shows "store_ok r'"
  using assms
proof (induction rule: store_step.induct)
  case (serve now st symbol force s st' locks)
  then show ?case by (auto elim!: begin_cases)
next
  case (capture now st symbol force cached st' locks)
  let ?k = "snapshot_symbol symbol"
  from capture(1) have c: "cached = ss_cache st ?k" "st' = mark_attempt now st ?k" by (auto elim!: begin_cases)
  show ?case using store_ok_at [OF capture(3)] by (auto simp: c)
next
  case (finish locks k cached now st sha zone provenance began history exact builder answer st')
  have c: "cached = ss_cache st k" using store_ok_at(4) [OF finish(3), of k cached] finish(1) by simp
  have h: "\<forall>c. capture_complete sha zone provenance began history exact builder k = Inr c \<longrightarrow> ca_sha c = ''sha256:'' @ ca_hex c"
    using captured_sha by blast
  note f = finish_cache [OF finish(2) c h finish(3)]
  show ?case
  proof (unfold store_ok.simps, intro allI, goal_cases)
    case (1 k')
    then show ?case using f store_ok_at [OF finish(3), of k'] by (cases "k' = k") auto
  qed
qed

lemma new_store_ok: "new_store ttl env_interval env_ttl = Inr st0 \<Longrightarrow> store_ok (st0, Map.empty)"
  by (auto simp: new_store_def rbind_Inr_iff Let_def refresh_of_def new_refresh_def)

lemma store_reach_ok: "store_reach st0 r \<Longrightarrow> store_ok (st0, Map.empty) \<Longrightarrow> store_ok r"
  by (induction rule: store_reach.induct) (auto dest: store_step_ok)

lemma finish_keeps:
  assumes "finish_get now st k cached outcome = (answer, st')" "cached = ss_cache st k" "store_ok (st, locks)"
    "ss_cache st k' = Some s"
  shows "\<exists>s'. ss_cache st' k' = Some s' \<and> (s' = s \<or> sn_generation s' = Suc (sn_generation s) \<and> sn_sha s' \<noteq> sn_sha s)"
  using assms(1)
proof (cases rule: finish_cases)
  case (fresh c s')
  then show ?thesis
    using assms(2,4) store_ok_at(2) [OF assms(3), of k]
    by (cases "k' = k") (auto simp: published_def next_generation_def)
qed (use assms(4) in auto)

lemma begin_cache: "begin_get now st symbol force = (answer, st') \<Longrightarrow> ss_cache st' = ss_cache st"
  by (auto elim!: begin_cases)

text \<open>C32: in every state that interleaved calls reach, a published snapshot is complete, stands under its symbol with the
  recorded generation, its payloads carry its identity, and the symbol is marked as refreshing exactly while it is locked.
  One more step keeps the snapshot or replaces it by the next generation with another content.\<close>

theorem snapshot_store_invariant:
  assumes "new_store ttl env_interval env_ttl = Inr st0" "store_reach st0 (st, locks)"
    "store_step (st, locks) (st', locks')" "ss_cache st k = Some s"
  shows "snapshot_ok k s \<and> ss_generation st k = Some (sn_generation s)
    \<and> (rf_in_progress (refresh_of st k) \<longleftrightarrow> locks k \<noteq> None)
    \<and> (\<exists>s'. ss_cache st' k = Some s' \<and> snapshot_ok k s'
         \<and> (s' = s \<or> sn_generation s' = Suc (sn_generation s) \<and> sn_sha s' \<noteq> sn_sha s))"
proof -
  have ok: "store_ok (st, locks)" using store_reach_ok [OF assms(2) new_store_ok [OF assms(1)]] .
  have "\<exists>s'. ss_cache st' k = Some s' \<and> (s' = s \<or> sn_generation s' = Suc (sn_generation s) \<and> sn_sha s' \<noteq> sn_sha s)"
  proof (rule store_stepE [OF assms(3)], goal_cases)
    case 1
    then show ?case using assms(4) by (auto dest: begin_cache)
  next
    case 2
    then show ?case using assms(4) by (auto dest: begin_cache)
  next
    case (3 k0 cached)
    then have "cached = ss_cache st k0" by (intro store_ok_at(4) [OF ok])
    from finish_keeps [OF 3(3) this ok assms(4)] show ?case .
  qed
  then obtain s' where s': "ss_cache st' k = Some s'"
    "s' = s \<or> sn_generation s' = Suc (sn_generation s) \<and> sn_sha s' \<noteq> sn_sha s" by blast
  have "snapshot_ok k s'" using store_ok_at(1) [OF store_step_ok [OF assms(3) ok] s'(1)] .
  with s' show ?thesis using store_ok_at(1,2,5) [OF ok, of k] assms(4) by simp
qed

lemma failed_status:
  assumes "outcome = Inl e" "finish_get now st k cached outcome = (answer, st')" "snapshot_symbol (VStr k) = k"
  shows "dget (refresh_status later st' (VStr k)) ''last_refresh_error'' \<noteq> VNone"
  using assms by (auto simp: finish_get_def refresh_status_def dget_find text_value_def Let_def)

text \<open>C33: once a generation of a symbol was published, a call of get that captures again always returns a snapshot: the
  last good one when the capture fails, and then the probe is not ready; the captured content when it succeeds, which
  later calls are served without a new capture until the time to live has passed.\<close>

theorem last_good_served:
  assumes "new_store ttl env_interval env_ttl = Inr st0" "store_reach st0 (st, locks)" "locks k = Some cached"
    "ss_cache st k = Some s" "snapshot_symbol symbol = k" "k \<noteq> []" "finish_get now st k cached outcome = (answer, st')"
  shows "\<exists>s'. answer = Inr s' \<and> ss_cache st' k = Some s'
    \<and> (\<forall>e. outcome = Inl e \<longrightarrow> s' = s \<and> (\<forall>later v. \<not> authority_ready v (refresh_status later st' symbol)))
    \<and> (\<forall>c. outcome = Inr c \<longrightarrow> sn_sha s' = ca_sha c \<and>
         (\<forall>later. \<not> flt (fmax fzero (ss_ttl st)) (fmax fzero (fsub (tk_mono later) (tk_mono now)))
            \<longrightarrow> begin_get later st' symbol False = (Served s', st')))"
proof -
  have ok: "store_ok (st, locks)" using store_reach_ok [OF assms(2) new_store_ok [OF assms(1)]] .
  have cached: "cached = Some s" using store_ok_at(4) [OF ok assms(3)] assms(4) by simp
  have k: "snapshot_symbol (VStr k) = k" "refresh_status later st' symbol = refresh_status later st' (VStr k)" for later
    using assms(5) by (auto simp: snapshot_symbol_def refresh_status_def Let_def)
  have served: "begin_get later st' symbol False = (Served s', st')"
    if "ss_cache st' k = Some s'" "rf_error (refresh_of st' k) = None" "rf_success_mono (refresh_of st' k) = Some (tk_mono now)"
      "ss_ttl st' = ss_ttl st" "\<not> flt (fmax fzero (ss_ttl st)) (fmax fzero (fsub (tk_mono later) (tk_mono now)))" for later s'
    using that assms(5,6) k(1)
    by (simp add: begin_get_def fresh_in_store_def refresh_status_def dget_find text_value_def snapshot_stale_def snapshot_age_def Let_def)
  show ?thesis using assms(7)
  proof (cases rule: finish_cases)
    case (fail e)
    have "dget (refresh_status later st' symbol) ''last_refresh_error'' \<noteq> VNone" for later
      using failed_status [OF fail(1) assms(7) k(1)] k(2) by simp
    then show ?thesis using fail cached assms(4) by (simp add: authority_ready_def refresh_ok_def)
  next
    case (same c s')
    then show ?thesis using cached assms(4) served [of s] by simp
  next
    case (fresh c s')
    then show ?thesis using served [of s'] by (simp add: published_def)
  qed
qed

subsection \<open>An example run\<close>

lemma empty_score_ok: "\<exists>sc. empty_symbol_score v = Inr sc"
  using gates_ok [of "[]" "[]" "[]"] by (auto simp: empty_symbol_score_def quality_metrics_def)

lemma empty_authority_ok:
  assumes "empty_symbol_score v = Inr sc"
  shows "\<exists>authority. authority_1h_payload sc = Inr authority"
proof -
  let ?dirs = "map (\<lambda>d. (d, VDict (bucket_of []))) directions"
  have d: "dget sc ''by_direction'' = VDict ?dirs" "dget sc ''verified'' = VInt 0" "dget sc ''wins'' = VInt 0" "dget sc ''losses'' = VInt 0"
    using assms by (auto simp: empty_symbol_score_def rbind_Inr_iff dget_find)
  have t: "por (VDict ?dirs) (VDict []) = VDict ?dirs" by (simp add: directions_def por_def)
  obtain a b c where "direction_bucket ?dirs ''LONG'' = Inr a" "direction_bucket ?dirs ''SHORT'' = Inr b"
    "direction_bucket ?dirs ''FLAT'' = Inr c"
    using direction_bucket_ok [of "''LONG''" "\<lambda>d. []"] direction_bucket_ok [of "''SHORT''" "\<lambda>d. []"]
      direction_bucket_ok [of "''FLAT''" "\<lambda>d. []"] by (auto simp: directions_def)
  then show ?thesis by (simp add: authority_1h_payload_def d t)
qed

definition demo_symbol :: string where "demo_symbol = ''BTCUSDT''"

lemma demo_normal: "plain_symbol (VStr demo_symbol) = demo_symbol" "demo_symbol \<noteq> []"
  unfolding demo_symbol_def using demo_plain(2) plain_symbol_again [of "VStr ''BTC-USDT''"] by simp_all

definition demo_capture :: "tick \<Rightarrow> capture_error + captured_authority" where
  "demo_capture now = capture_complete (\<lambda>s. s) (\<lambda>_. Inr 0) [] now (Inr (VList [])) (Inr (VInt 0)) (\<lambda>_. Inr (VDict [])) demo_symbol"

lemma demo_capture_ok: "\<exists>c. demo_capture now = Inr c"
proof -
  obtain sc where sc: "empty_symbol_score (VStr demo_symbol) = Inr sc" using empty_score_ok by blast
  obtain authority where a: "authority_1h_payload sc = Inr authority" using empty_authority_ok [OF sc] by blast
  obtain c s where d: "demo_symbol = c # s" using demo_normal(2) by (cases demo_symbol) auto
  have t: "truthy (VStr demo_symbol)" using demo_normal(2) by simp
  have "\<exists>rep. build_authoritative_score (\<lambda>_. Inr 0) [] VNone (VStr demo_symbol) = Inr rep"
    using sc a demo_normal t
    by (simp add: build_authoritative_score_def filter_proof_qualified_def group_rows_def scores_by_symbol_def select_score_def
        Let_def d)
  then obtain rep where "build_authoritative_score (\<lambda>_. Inr 0) [] VNone (VStr demo_symbol) = Inr rep" by blast
  then show ?thesis
    by (simp add: demo_capture_def capture_complete_def checked_answers_def scored_rows_def canonical_rows_def built_gate_def Let_def)
qed

lemma demo_texts: "\<exists>x. float_of (VStr ''300'') = Inr x" "\<exists>x. float_of (VStr ''600'') = Inr x"
proof -
  have "dec_parse ''300'' = PFinite (Dec False 300 0)" "dec_parse ''600'' = PFinite (Dec False 600 0)" by code_simp+
  moreover have "strip ''300'' = ''300''" "strip ''600'' = ''600''" by code_simp+
  ultimately show "\<exists>x. float_of (VStr ''300'') = Inr x" "\<exists>x. float_of (VStr ''600'') = Inr x"
    by (simp_all add: float_of_text_def take_sign_def lower_def lower_char_def)
qed

lemma demo_store: "\<exists>st0. new_store VNone ''300'' ''600'' = Inr st0"
  using demo_texts by (auto simp: new_store_def Let_def)

lemma demo_reached:
  assumes "new_store ttl env_interval env_ttl = Inr st0"
  obtains st locks s where "store_reach st0 (st, locks)" "locks demo_symbol = Some (Some s)" "ss_cache st demo_symbol = Some s"
proof -
  define now where "now = \<lparr>tk_utc = 0, tk_mono = fzero\<rparr>"
  have k: "snapshot_symbol (VStr demo_symbol) = demo_symbol" by (simp add: snapshot_symbol_def demo_normal)
  have e: "ss_cache st0 demo_symbol = None" using assms by (auto simp: new_store_def rbind_Inr_iff Let_def)
  let ?st1 = "mark_attempt now st0 demo_symbol"
  have b1: "begin_get now st0 (VStr demo_symbol) True = (Capturing None, ?st1)"
    using demo_normal(2) by (simp add: begin_get_def k e)
  have "store_step (st0, Map.empty) (?st1, Map.empty(demo_symbol := Some None))"
    using store_step.capture [OF b1, of Map.empty] by (simp add: k)
  then have r1: "store_reach st0 (?st1, Map.empty(demo_symbol := Some None))"
    by (rule store_reach.step [OF store_reach.start])
  obtain c where c: "demo_capture now = Inr c" using demo_capture_ok by blast
  obtain answer st2 where f: "finish_get now ?st1 demo_symbol None (demo_capture now) = (answer, st2)" by force
  obtain s where s: "ss_cache st2 demo_symbol = Some s"
    using f c by (auto simp: finish_get_def Let_def)
  have "store_step (?st1, Map.empty(demo_symbol := Some None)) (st2, (Map.empty(demo_symbol := Some None))(demo_symbol := None))"
    by (rule store_step.finish) (use f in \<open>simp_all add: demo_capture_def\<close>)
  then have r2: "store_reach st0 (st2, Map.empty)" using store_reach.step [OF r1] by simp
  let ?st3 = "mark_attempt now st2 demo_symbol"
  have b3: "begin_get now st2 (VStr demo_symbol) True = (Capturing (Some s), ?st3)"
    using demo_normal(2) by (simp add: begin_get_def k s)
  have "store_step (st2, Map.empty) (?st3, Map.empty(demo_symbol := Some (Some s)))"
    using store_step.capture [OF b3, of Map.empty] by (simp add: k)
  then have "store_reach st0 (?st3, Map.empty(demo_symbol := Some (Some s)))" by (rule store_reach.step [OF r2])
  then show thesis by (rule that) (simp_all add: s)
qed

theorem snapshot_store_invariant_witness:
  "\<exists>st0 st locks s. new_store VNone ''300'' ''600'' = Inr st0 \<and> store_reach st0 (st, locks) \<and> ss_cache st demo_symbol = Some s
     \<and> snapshot_ok demo_symbol s \<and> ss_generation st demo_symbol = Some (sn_generation s)"
proof -
  obtain st0 where st0: "new_store VNone ''300'' ''600'' = Inr st0" using demo_store by blast
  obtain st locks s where r: "store_reach st0 (st, locks)" "locks demo_symbol = Some (Some s)" "ss_cache st demo_symbol = Some s"
    using demo_reached [OF st0] .
  define now where "now = \<lparr>tk_utc = 0, tk_mono = fzero\<rparr>"
  obtain answer st' where f: "finish_get now st demo_symbol (Some s) (demo_capture now) = (answer, st')" by force
  have "store_step (st, locks) (st', locks(demo_symbol := None))"
    by (rule store_step.finish [where k = demo_symbol and cached = "Some s" and locks = locks, OF r(2) f [unfolded demo_capture_def]])
  then show ?thesis using snapshot_store_invariant [OF st0 r(1) _ r(3)] st0 r by blast
qed

theorem last_good_served_witness:
  "\<exists>st0 st locks s st'. new_store VNone ''300'' ''600'' = Inr st0 \<and> store_reach st0 (st, locks) \<and> ss_cache st demo_symbol = Some s
     \<and> finish_get \<lparr>tk_utc = 0, tk_mono = fzero\<rparr> st demo_symbol (Some s) (Inl (RefreshError ''D1'')) = (Inr s, st')"
proof -
  obtain st0 where st0: "new_store VNone ''300'' ''600'' = Inr st0" using demo_store by blast
  obtain st locks s where r: "store_reach st0 (st, locks)" "locks demo_symbol = Some (Some s)" "ss_cache st demo_symbol = Some s"
    using demo_reached [OF st0] .
  obtain answer st' where f: "finish_get \<lparr>tk_utc = 0, tk_mono = fzero\<rparr> st demo_symbol (Some s) (Inl (RefreshError ''D1'')) = (answer, st')"
    by force
  have "snapshot_symbol (VStr demo_symbol) = demo_symbol" by (simp add: snapshot_symbol_def demo_normal)
  from last_good_served [OF st0 r this demo_normal(2) f] obtain s' where "answer = Inr s'" "s' = s" by auto
  with st0 r f show ?thesis by blast
qed

end
