(* ===== verification/Reconciler.thy ===== *)
theory Reconciler
  imports Settlement PyJson
begin

section \<open>Settlement reconciliation\<close>

text \<open>
  \<^verbatim>\<open>senecio_polymarket/backend/settlement_reconciler.py\<close>: the repair of settled rows
  that lack the dual-window metadata. The exchange, the database that takes the patch, the local rows
  and the clock at each of its readings are arguments; the patch a repair sends is part of the result.
\<close>

definition audit_dict :: "pyval \<Rightarrow> pydict" where
  "audit_dict v =
     (case v of
        VDict d \<Rightarrow> d
      | VStr s \<Rightarrow> (case json_loads s of Some (VDict d) \<Rightarrow> d | _ \<Rightarrow> [])
      | _ \<Rightarrow> [])"

record patch_request =
  pr_id :: string
  pr_outcome :: string
  pr_price_15m :: pyfloat
  pr_audit :: pydict

record patch_response =
  ps_status :: int
  ps_content :: bool
  ps_json :: "pyval option"

type_synonym database = "patch_request \<Rightarrow> patch_response res"

definition accepted :: "patch_response \<Rightarrow> bool" where
  "accepted r =
     (let body = (if ps_content r then (case ps_json r of None \<Rightarrow> VList [] | Some v \<Rightarrow> v) else VList [])
      in ps_status r \<in> {200, 204} \<and> (case body of VList xs \<Rightarrow> xs \<noteq> [] | _ \<Rightarrow> False))"

text \<open>The instants at which the clock is read: for the evidence of both windows and for the patch.\<close>

record repair_clock =
  rc_15m :: int
  rc_1h :: int
  rc_patch :: int

definition origin_price_of :: "pydict \<Rightarrow> pyfloat option res" where
  "origin_price_of row =
     (case float_of (por (dget row ''price_now'') (VInt 0)) of
        Inl e \<Rightarrow> if caught e then Inr None else Inl e
      | Inr x \<Rightarrow> Inr (if fle x fzero then None else Some x))"

text \<open>The origin witness of the row: of its source, at its time.\<close>

definition witness_ok :: "pydict \<Rightarrow> pyval \<Rightarrow> string option res" where
  "witness_ok row origin =
     (case (origin, normalize_exchange (dget row ''exchange_used'')) of
        (VDict op, Some source) \<Rightarrow>
          if \<not> py_eq (dget op ''version'') (VStr ''origin-price-v1'') then Inr None
          else if normalize_exchange (dget op ''source'') \<noteq> Some source then Inr None
          else rbind (parse_utc (dget op ''timestamp'')) (\<lambda>a. rbind (parse_utc (dget row ''ts'')) (\<lambda>b.
            Inr (if a = b then Some source else None)))
      | _ \<Rightarrow> Inr None)"

definition dual_metadata :: "string \<Rightarrow> string \<Rightarrow> pyfloat \<Rightarrow> pyfloat \<Rightarrow> pydict \<Rightarrow> pydict \<Rightarrow> int \<Rightarrow> pydict" where
  "dual_metadata o15 o1h p15 p1h ev15 ev1h now =
     [(''outcome_15m'', VStr o15), (''outcome_1h'', VStr o1h), (''price_15m_later'', VFloat p15),
      (''price_1h_later'', VFloat p1h), (''primary_window'', VStr ''1h''),
      (''settlement_contract_version'', VStr ''aud063-v1''),
      (''price_evidence_v1'', VDict [(''15m'', VDict ev15), (''1h'', VDict ev1h)]),
      (''reconciled_by'', VStr ''SENEX-SCORE-002-REPAIR-ONLY''), (''reconciled_at'', VStr (isoformat_utc now)),
      (''settlement_observation_v1'', VDict
        [(''version'', VStr ''settlement-observation-v1''), (''observed_at'', VStr (isoformat_utc now)),
         (''writer'', VStr ''SENEX_SCORE_002_RECONCILER_REPAIR_ONLY''),
         (''availability_semantics'', VStr ''PERSISTED_BY_COMPARE_AND_SET_AT_OR_AFTER_THIS_TIME'')])]"

datatype repair_result = Repaired | Conflict | Skipped | Failed

text \<open>The evidence of both windows is there: the outcomes, the comparison with the stored one, and the patch.\<close>

definition repair_with_evidence ::
  "database \<Rightarrow> int \<Rightarrow> pydict \<Rightarrow> string \<Rightarrow> string \<Rightarrow> pyfloat \<Rightarrow> pydict \<Rightarrow> pydict \<Rightarrow> pydict
    \<Rightarrow> (repair_result \<times> patch_request option) res" where
  "repair_with_evidence db now row stored direction origin audit ev15 ev1h =
     rbind (rbind (dindex ev15 ''price'') float_of) (\<lambda>p15.
     rbind (rbind (dindex ev1h ''price'') float_of) (\<lambda>p1h.
     rbind (directional_outcome (VStr direction) (VFloat origin) (VFloat p15)) (\<lambda>o15.
     rbind (directional_outcome (VStr direction) (VFloat origin) (VFloat p1h)) (\<lambda>o1h.
       case (o15, o1h) of
         (Some a, Some b) \<Rightarrow>
           if stored \<noteq> b then Inr (Conflict, None)
           else rbind (dindex row ''id'') (\<lambda>i.
             let request = \<lparr>pr_id = ''eq.'' @ py_str i, pr_outcome = ''eq.'' @ stored, pr_price_15m = p15,
                   pr_audit = dset audit ''outcomes_dual'' (VDict (dual_metadata a b p15 p1h ev15 ev1h now))\<rparr>
             in rbind (db request) (\<lambda>response.
               Inr (if accepted response then Repaired else Failed, Some request)))
       | _ \<Rightarrow> Inr (Skipped, None)))))"

definition repair_row ::
  "exchange_api \<Rightarrow> database \<Rightarrow> repair_clock \<Rightarrow> pydict \<Rightarrow> (repair_result \<times> patch_request option) res" where
  "repair_row api db clock row =
     rbind (in_text_set (dget row ''outcome'') valid_outcomes) (\<lambda>settled.
     if \<not> settled then Inr (Skipped, None)
     else if row_direction row \<notin> {''LONG'', ''SHORT''} then Inr (Skipped, None)
     else rbind (origin_price_of row) (\<lambda>origin_price.
       case origin_price of
         None \<Rightarrow> Inr (Skipped, None)
       | Some origin \<Rightarrow>
           let audit = audit_dict (dget row ''audit'') in
           if dget audit ''outcomes_dual'' \<noteq> VNone then Inr (Skipped, None)
           else rbind (witness_ok row (dget audit ''origin_price_v1'')) (\<lambda>witness.
             case witness of
               None \<Rightarrow> Inr (Skipped, None)
             | Some source \<Rightarrow>
                 let symbol = VStr (normalize_symbol (dget row ''symbol'')) in
                 rbind (fetch_historical_price_evidence api (rc_15m clock) (VStr source) symbol (dget row ''ts'') window_15m_s) (\<lambda>ev15.
                 rbind (fetch_historical_price_evidence api (rc_1h clock) (VStr source) symbol (dget row ''ts'') window_1h_s) (\<lambda>ev1h.
                   case (ev15, ev1h) of
                     (Some a, Some b) \<Rightarrow>
                       repair_with_evidence db (rc_patch clock) row (py_str (dget row ''outcome'')) (row_direction row) origin audit a b
                   | _ \<Rightarrow> Inr (Failed, None))))))"

subsection \<open>One pass\<close>

record counters =
  ct_scanned :: nat
  ct_d1_rows_read :: nat
  ct_considered :: nat
  ct_repaired :: nat
  ct_skipped :: nat
  ct_errors :: nat
  ct_conflicts :: nat
  ct_scan_cap_hit :: nat

definition no_counts :: counters where
  "no_counts = \<lparr>ct_scanned = 0, ct_d1_rows_read = 0, ct_considered = 0, ct_repaired = 0, ct_skipped = 0, ct_errors = 0,
     ct_conflicts = 0, ct_scan_cap_hit = 0\<rparr>"

text \<open>A settled row without dual metadata whose hour is over.\<close>

definition eligible :: "int \<Rightarrow> pydict \<Rightarrow> bool res" where
  "eligible cutoff row =
     (case int_of (por (dget row ''id'') (VInt 0)) of
        Inl e \<Rightarrow> if caught e then Inr False else Inl e
      | Inr i \<Rightarrow>
          rbind (in_text_set (dget row ''outcome'') valid_outcomes) (\<lambda>settled.
          if \<not> settled then Inr False
          else if dget (audit_dict (dget row ''audit'')) ''outcomes_dual'' \<noteq> VNone then Inr False
          else rbind (parse_utc (dget row ''ts'')) (\<lambda>dt.
            Inr (case dt of None \<Rightarrow> False | Some u \<Rightarrow> u \<le> cutoff))))"

definition id_key :: "pydict \<Rightarrow> int" where
  "id_key row = (case int_of (por (dget row ''id'') (VInt 0)) of Inr i \<Rightarrow> i | Inl e \<Rightarrow> 0)"

definition counted :: "repair_result \<Rightarrow> counters \<Rightarrow> counters" where
  "counted r c =
     (case r of
        Repaired \<Rightarrow> c\<lparr>ct_repaired := ct_repaired c + 1\<rparr> | Conflict \<Rightarrow> c\<lparr>ct_conflicts := ct_conflicts c + 1\<rparr>
      | Skipped \<Rightarrow> c\<lparr>ct_skipped := ct_skipped c + 1\<rparr> | Failed \<Rightarrow> c\<lparr>ct_errors := ct_errors c + 1\<rparr>)"

text \<open>The loop over the candidates ends at the first error; the patches sent are collected. The clock of the
  \<open>n\<close>-th repair is an argument.\<close>

fun repair_all ::
  "(pydict \<Rightarrow> repair_clock) \<Rightarrow> exchange_api \<Rightarrow> database \<Rightarrow> pydict list \<Rightarrow> counters
    \<Rightarrow> (counters \<times> (pydict \<times> patch_request) list) res" where
  "repair_all clock api db [] c = Inr (c, [])"
| "repair_all clock api db (row # rows) c =
     rbind (repair_row api db (clock row) row) (\<lambda>(r, request).
       let c' = counted r (c\<lparr>ct_scanned := ct_scanned c + 1\<rparr>);
           sent = (case request of None \<Rightarrow> [] | Some q \<Rightarrow> [(row, q)])
       in if r = Failed then Inr (c', sent)
          else rbind (repair_all clock api db rows c') (\<lambda>(c'', sent'). Inr (c'', sent @ sent')))"

definition reconcile_once ::
  "bool \<Rightarrow> nat \<Rightarrow> int \<Rightarrow> (pydict \<Rightarrow> repair_clock) \<Rightarrow> exchange_api \<Rightarrow> database \<Rightarrow> pydict list
    \<Rightarrow> (counters \<times> (pydict \<times> patch_request) list) res" where
  "reconcile_once configured batch_limit now clock api db rows =
     (if \<not> configured
      then Inl (RuntimeError ''SUPABASE_URL and SUPABASE_KEY must be provided by the runtime environment'')
      else rbind (plus_seconds now (- window_1h_s)) (\<lambda>cutoff.
      rbind (filter_res (eligible cutoff) rows) (\<lambda>found.
        let candidates = take (max 1 batch_limit) (sort_key id_key found)
        in repair_all clock api db candidates
             (no_counts\<lparr>ct_considered := length rows,
                ct_scan_cap_hit := (if length candidates < length found then 1 else 0)\<rparr>))))"

subsection \<open>A repaired row passes the proof gate\<close>

lemma rbind_InrE: "rbind m f = Inr y \<Longrightarrow> (\<And>x. m = Inr x \<Longrightarrow> f x = Inr y \<Longrightarrow> P) \<Longrightarrow> P"
  by (cases m) auto

lemma repair_opened:
  assumes "repair_row api db clock row = Inr (r, Some req)"
  obtains origin op source ev15 ev1h where
    "in_text_set (dget row ''outcome'') valid_outcomes = Inr True" "row_direction row \<in> {''LONG'', ''SHORT''}"
    "origin_price_of row = Inr (Some origin)" "dget (audit_dict (dget row ''audit'')) ''origin_price_v1'' = VDict op"
    "witness_ok row (VDict op) = Inr (Some source)"
    "fetch_historical_price_evidence api (rc_15m clock) (VStr source) (VStr (normalize_symbol (dget row ''symbol'')))
       (dget row ''ts'') window_15m_s = Inr (Some ev15)"
    "fetch_historical_price_evidence api (rc_1h clock) (VStr source) (VStr (normalize_symbol (dget row ''symbol'')))
       (dget row ''ts'') window_1h_s = Inr (Some ev1h)"
    "repair_with_evidence db (rc_patch clock) row (py_str (dget row ''outcome'')) (row_direction row) origin
       (audit_dict (dget row ''audit'')) ev15 ev1h = Inr (r, Some req)"
proof -
  note a = assms [unfolded repair_row_def Let_def rbind_Inr_iff]
  from a obtain origin where o: "in_text_set (dget row ''outcome'') valid_outcomes = Inr True"
    "row_direction row \<in> {''LONG'', ''SHORT''}" "origin_price_of row = Inr (Some origin)"
    by (auto simp: rbind_Inr_iff split: if_split_asm option.split_asm)
  from a obtain source where w: "witness_ok row (dget (audit_dict (dget row ''audit'')) ''origin_price_v1'') = Inr (Some source)"
    by (auto simp: rbind_Inr_iff o split: if_split_asm option.split_asm)
  then obtain op where op: "dget (audit_dict (dget row ''audit'')) ''origin_price_v1'' = VDict op"
    by (auto simp: witness_ok_def split: pyval.split_asm)
  from a obtain ev15 ev1h where "fetch_historical_price_evidence api (rc_15m clock) (VStr source)
       (VStr (normalize_symbol (dget row ''symbol''))) (dget row ''ts'') window_15m_s = Inr (Some ev15)"
    "fetch_historical_price_evidence api (rc_1h clock) (VStr source) (VStr (normalize_symbol (dget row ''symbol'')))
       (dget row ''ts'') window_1h_s = Inr (Some ev1h)"
    "repair_with_evidence db (rc_patch clock) row (py_str (dget row ''outcome'')) (row_direction row) origin
       (audit_dict (dget row ''audit'')) ev15 ev1h = Inr (r, Some req)"
    using o w by (auto simp: rbind_Inr_iff split: if_split_asm option.split_asm)
  with o w op that show thesis by simp
qed

lemma patch_opened:
  assumes "repair_with_evidence db now row stored direction origin audit ev15 ev1h = Inr (r, Some req)"
  obtains p15 p1h a b i where "rbind (dindex ev15 ''price'') float_of = Inr p15" "rbind (dindex ev1h ''price'') float_of = Inr p1h"
    "directional_outcome (VStr direction) (VFloat origin) (VFloat p15) = Inr (Some a)"
    "directional_outcome (VStr direction) (VFloat origin) (VFloat p1h) = Inr (Some b)" "stored = b" "dindex row ''id'' = Inr i"
    "req = \<lparr>pr_id = ''eq.'' @ py_str i, pr_outcome = ''eq.'' @ stored, pr_price_15m = p15,
       pr_audit = dset audit ''outcomes_dual'' (VDict (dual_metadata a b p15 p1h ev15 ev1h now))\<rparr>"
proof -
  from assms obtain p15 p1h o15 o1h where p: "rbind (dindex ev15 ''price'') float_of = Inr p15"
    "rbind (dindex ev1h ''price'') float_of = Inr p1h"
    "directional_outcome (VStr direction) (VFloat origin) (VFloat p15) = Inr o15"
    "directional_outcome (VStr direction) (VFloat origin) (VFloat p1h) = Inr o1h"
    unfolding repair_with_evidence_def by (elim rbind_InrE) (rule that; simp)
  note r = assms [unfolded repair_with_evidence_def p rbind.simps]
  from r obtain a b where ab: "o15 = Some a" "o1h = Some b" by (cases o15; cases o1h) auto
  from r [unfolded ab prod.case option.case] have sb: "stored = b" by (cases "stored = b") auto
  from r [unfolded ab prod.case option.case sb Let_def] obtain i where i: "dindex row ''id'' = Inr i"
    by (cases "dindex row ''id''") auto
  from r [unfolded ab prod.case option.case sb Let_def i rbind.simps] show thesis
    using that [OF p(1,2) p(3) [unfolded ab] p(4) [unfolded ab] sb i] sb by (auto simp: rbind_Inr_iff)
qed

lemma directional_prices:
  assumes "directional_outcome d (VFloat a) (VFloat b) = Inr (Some x)"
  shows "\<not> fle a fzero" "\<not> fle b fzero" "is_finite a" "is_finite b"
  using assms by (auto simp: directional_outcome_def split: if_split_asm)

lemma directional_word:
  assumes "directional_outcome d a b = Inr (Some x)"
  shows "x \<in> {''WIN'', ''LOSS''}"
  using assms by (auto simp: directional_outcome_def Let_def split: if_split_asm sum.split_asm)

lemma feq_refl: "is_finite x \<Longrightarrow> feq x x"
  by (cases x) (simp_all add: Let_def)

lemma isclose_refl: "is_finite x \<Longrightarrow> isclose rel tol x x"
  by (simp add: isclose_def feq_refl)

lemma fmin_sign: "\<not> fle b fzero \<Longrightarrow> fle (fmin a b) fzero \<longleftrightarrow> fle a fzero"
  using fle_flt_trans [of b a fzero] by (auto simp: fmin_def fle_def)

text \<open>The evidence the exchange gave for a window, with its price.\<close>

lemma evidence_given:
  assumes "fetch_historical_price_evidence api now (VStr source) (VStr (normalize_symbol sy)) ts w = Inr (Some d)"
    "0 \<le> now" "now < max_instant" "rbind (dindex d ''price'') float_of = Inr p"
  shows "dget d ''price'' = VFloat p" "normalize_symbol sy \<noteq> []" "\<exists>t. target_epoch_ms ts w = Inr (Some t) \<and> dget d ''target_epoch_ms'' = VInt t"
    "validate_price_evidence (VDict d) (VStr source) (VStr (normalize_symbol sy)) ts w = Inr True"
proof -
  obtain source' target a q u where f: "target_epoch_ms ts w = Inr (Some target)" "normalize_symbol (VStr (normalize_symbol sy)) \<noteq> []"
    "d = evidence_fields source' (normalize_symbol (VStr (normalize_symbol sy))) w target a q u"
    "validate_price_evidence (VDict d) (VStr source) (VStr (normalize_symbol sy)) ts w = Inr True"
    using fetched_cases [OF assms(1-3)] by metis
  then have "q = p" using assms(4) by (simp add: evidence_fields_def dindex_def)
  with f show "dget d ''price'' = VFloat p" "normalize_symbol sy \<noteq> []"
    "\<exists>t. target_epoch_ms ts w = Inr (Some t) \<and> dget d ''target_epoch_ms'' = VInt t"
    "validate_price_evidence (VDict d) (VStr source) (VStr (normalize_symbol sy)) ts w = Inr True"
    by (simp_all add: evidence_fields_def dget_find normalize_symbol_again)
qed

lemma origin_price_opened:
  assumes "origin_price_of row = Inr (Some x)"
  shows "float_of (dget row ''price_now'') = Inr x"
proof -
  have z: "float_of (VInt 0) = Inr fzero" by (simp add: float_of_int_def fl_of_int_def fl_round_def fzero_def)
  have f: "float_of (por (dget row ''price_now'') (VInt 0)) = Inr x" "\<not> fle x fzero"
    using assms by (auto simp: origin_price_of_def split: sum.split_asm if_split_asm)
  moreover have "fle fzero fzero" by (simp add: fle_def fzero_def)
  ultimately show ?thesis using z by (auto simp: por_def split: if_split_asm)
qed

lemma dual_fields:
  "dget (dual_metadata a b p15 p1h ev15 ev1h now) ''outcome_15m'' = VStr a"
  "dget (dual_metadata a b p15 p1h ev15 ev1h now) ''outcome_1h'' = VStr b"
  "dget (dual_metadata a b p15 p1h ev15 ev1h now) ''price_15m_later'' = VFloat p15"
  "dget (dual_metadata a b p15 p1h ev15 ev1h now) ''price_1h_later'' = VFloat p1h"
  "dget (dual_metadata a b p15 p1h ev15 ev1h now) ''primary_window'' = VStr ''1h''"
  "dget (dual_metadata a b p15 p1h ev15 ev1h now) ''settlement_contract_version'' = VStr ''aud063-v1''"
  "dget (dual_metadata a b p15 p1h ev15 ev1h now) ''price_evidence_v1'' = VDict [(''15m'', VDict ev15), (''1h'', VDict ev1h)]"
  "\<exists>ob. dget (dual_metadata a b p15 p1h ev15 ev1h now) ''settlement_observation_v1'' = VDict ob
     \<and> dget ob ''version'' = VStr ''settlement-observation-v1'' \<and> dget ob ''observed_at'' = VStr (isoformat_utc now)"
  by (simp_all add: dual_metadata_def dget_find)

lemma witness_fields:
  assumes "witness_ok row (VDict op) = Inr (Some source)" "parse_utc (dget row ''ts'') = Inr (Some dt)"
  shows "normalize_exchange (dget row ''exchange_used'') = Some source" "normalize_exchange (dget op ''source'') = Some source"
    "dget op ''version'' = VStr ''origin-price-v1''" "parse_utc (dget op ''timestamp'') = Inr (Some dt)"
  using assms by (auto simp: witness_ok_def rbind_Inr_iff split: option.split_asm if_split_asm)

lemma dual_observation:
  assumes "parse_utc (dget row ''ts'') = Inr (Some dt)" "dt + 3600000000 \<le> now" "now < max_instant"
    and "\<exists>t. target_epoch_ms (dget row ''ts'') window_1h_s = Inr (Some t) \<and> dget ev1h ''target_epoch_ms'' = VInt t"
  shows "observation_ok row dt (dual_metadata a b p15 p1h ev15 ev1h now) = Inr True"
proof -
  let ?dual = "dual_metadata a b p15 p1h ev15 ev1h now"
  have z: "0 \<le> now" using parse_utc_range [OF assms(1)] assms(2) by simp
  have due: "plus_seconds dt window_1h_s = Inr (dt + 3600000000)"
    using parse_utc_range [OF assms(1)] assms(2,3) by (simp add: plus_seconds_def to_utc_def window_1h_s_def)
  obtain ob where ob: "dget ?dual ''settlement_observation_v1'' = VDict ob" "dget ob ''version'' = VStr ''settlement-observation-v1''"
    "dget ob ''observed_at'' = VStr (isoformat_utc now)" using dual_fields(8) by blast
  show ?thesis
    using assms(2,4) by (auto simp: observation_ok_def ob parse_utc_isoformat [OF z assms(3)] due dual_fields dget_find)
qed

text \<open>What \<open>repaired_row_qualifies\<close> needs of a repair that sends a patch.\<close>

lemma patched_parts:
  assumes "repair_row api db clock row = Inr (r, Some req)"
    and "0 \<le> rc_15m clock" "rc_15m clock < max_instant" "0 \<le> rc_1h clock" "rc_1h clock < max_instant"
    and "dget (audit_dict (dget row ''audit'')) ''origin_price_v1'' = VDict op"
  obtains origin source ev15 ev1h p15 p1h a b where
    "dget row ''outcome'' = VStr b" "b \<in> set valid_outcomes" "pr_outcome req = ''eq.'' @ b"
    "row_direction row \<in> {''LONG'', ''SHORT''}" "origin_price_of row = Inr (Some origin)" "witness_ok row (VDict op) = Inr (Some source)"
    "directional_outcome (VStr (row_direction row)) (VFloat origin) (VFloat p15) = Inr (Some a)"
    "directional_outcome (VStr (row_direction row)) (VFloat origin) (VFloat p1h) = Inr (Some b)"
    "pr_audit req = dset (audit_dict (dget row ''audit'')) ''outcomes_dual''
       (VDict (dual_metadata a b p15 p1h ev15 ev1h (rc_patch clock)))"
    "normalize_symbol (dget row ''symbol'') \<noteq> []" "dget ev15 ''price'' = VFloat p15" "dget ev1h ''price'' = VFloat p1h"
    "validate_price_evidence (VDict ev15) (VStr source) (VStr (normalize_symbol (dget row ''symbol''))) (dget row ''ts'') window_15m_s = Inr True"
    "validate_price_evidence (VDict ev1h) (VStr source) (VStr (normalize_symbol (dget row ''symbol''))) (dget row ''ts'') window_1h_s = Inr True"
    "\<exists>t. target_epoch_ms (dget row ''ts'') window_1h_s = Inr (Some t) \<and> dget ev1h ''target_epoch_ms'' = VInt t"
proof -
  obtain origin op' source ev15 ev1h where o:
    "in_text_set (dget row ''outcome'') valid_outcomes = Inr True" "row_direction row \<in> {''LONG'', ''SHORT''}"
    "origin_price_of row = Inr (Some origin)" "dget (audit_dict (dget row ''audit'')) ''origin_price_v1'' = VDict op'"
    "witness_ok row (VDict op') = Inr (Some source)"
    "fetch_historical_price_evidence api (rc_15m clock) (VStr source) (VStr (normalize_symbol (dget row ''symbol'')))
       (dget row ''ts'') window_15m_s = Inr (Some ev15)"
    "fetch_historical_price_evidence api (rc_1h clock) (VStr source) (VStr (normalize_symbol (dget row ''symbol'')))
       (dget row ''ts'') window_1h_s = Inr (Some ev1h)"
    "repair_with_evidence db (rc_patch clock) row (py_str (dget row ''outcome'')) (row_direction row) origin
       (audit_dict (dget row ''audit'')) ev15 ev1h = Inr (r, Some req)"
    using repair_opened [OF assms(1)] .
  have op: "op' = op" using o(4) assms(6) by simp
  obtain p15 p1h a b i where p: "rbind (dindex ev15 ''price'') float_of = Inr p15" "rbind (dindex ev1h ''price'') float_of = Inr p1h"
    "directional_outcome (VStr (row_direction row)) (VFloat origin) (VFloat p15) = Inr (Some a)"
    "directional_outcome (VStr (row_direction row)) (VFloat origin) (VFloat p1h) = Inr (Some b)"
    "py_str (dget row ''outcome'') = b" and req: "pr_outcome req = ''eq.'' @ py_str (dget row ''outcome'')"
    "pr_audit req = dset (audit_dict (dget row ''audit'')) ''outcomes_dual''
       (VDict (dual_metadata a b p15 p1h ev15 ev1h (rc_patch clock)))"
    using patch_opened [OF o(8)] by (metis patch_request.select_convs(2,4))
  have stored: "dget row ''outcome'' = VStr b" "b \<in> set valid_outcomes" using o(1) p(5) by (cases "dget row ''outcome''"; auto)+
  note e15 = evidence_given [OF o(6) assms(2,3) p(1)] and e1 = evidence_given [OF o(7) assms(4,5) p(2)]
  show thesis
    by (rule that [OF stored req(1) [unfolded p(5)] o(2,3) o(5) [unfolded op] p(3,4) req(2) e15(2,1) e1(1) e15(4) e1(4,3)])
qed

definition repaired_row :: "pydict \<Rightarrow> patch_request \<Rightarrow> pydict" where
  "repaired_row row request = dset (dset row ''price_15m_later'' (VFloat (pr_price_15m request))) ''audit'' (VDict (pr_audit request))"

text \<open>C34: what the row is worth after a patch that a repair sends once the hour is over. Of everything the proof gate asks, only
  the price of the origin witness is open, which the repair never looks at: the gate refuses the row when that price is not
  positive or not within the tolerance of the price of the row, and otherwise recomputes the two outcomes from it. When the two
  prices are equal the row is admitted. The patch asks the database to leave a row alone whose outcome has changed.\<close>

theorem repaired_row_qualifies:
  assumes "repair_row api db clock row = Inr (r, Some req)"
    and "0 \<le> rc_15m clock" "rc_15m clock < max_instant" "0 \<le> rc_1h clock" "rc_1h clock < max_instant"
    and "dget (audit_dict (dget row ''audit'')) ''origin_price_v1'' = VDict op"
    and "parse_utc (dget row ''ts'') = Inr (Some dt)" "dt + 3600000000 \<le> rc_patch clock" "rc_patch clock < max_instant"
  shows "dget row ''outcome'' = VStr (drop 3 (pr_outcome req))
    \<and> (\<exists>dual. dget (pr_audit req) ''outcomes_dual'' = VDict dual
         \<and> is_proof_qualified (repaired_row row req) =
             (case row_prices_of (repaired_row row req) op dual of
                Inl e \<Rightarrow> if caught e then Inr False else Inl e
              | Inr p \<Rightarrow> if fle (rp_origin p) fzero \<or> \<not> isclose origin_price_tol origin_price_tol (rp_origin p) (rp_row p) then Inr False
                         else outcomes_ok (row_direction row) p dual))
    \<and> (float_of (dget op ''price'') = float_of (dget row ''price_now'') \<longrightarrow> is_proof_qualified (repaired_row row req) = Inr True)"
proof -
  obtain origin source ev15 ev1h p15 p1h a b where o:
    "dget row ''outcome'' = VStr b" "b \<in> set valid_outcomes" "pr_outcome req = ''eq.'' @ b"
    "row_direction row \<in> {''LONG'', ''SHORT''}" "origin_price_of row = Inr (Some origin)" "witness_ok row (VDict op) = Inr (Some source)"
    "directional_outcome (VStr (row_direction row)) (VFloat origin) (VFloat p15) = Inr (Some a)"
    "directional_outcome (VStr (row_direction row)) (VFloat origin) (VFloat p1h) = Inr (Some b)"
    "pr_audit req = dset (audit_dict (dget row ''audit'')) ''outcomes_dual''
       (VDict (dual_metadata a b p15 p1h ev15 ev1h (rc_patch clock)))"
    and e: "normalize_symbol (dget row ''symbol'') \<noteq> []" "dget ev15 ''price'' = VFloat p15" "dget ev1h ''price'' = VFloat p1h"
    "validate_price_evidence (VDict ev15) (VStr source) (VStr (normalize_symbol (dget row ''symbol''))) (dget row ''ts'') window_15m_s = Inr True"
    "validate_price_evidence (VDict ev1h) (VStr source) (VStr (normalize_symbol (dget row ''symbol''))) (dget row ''ts'') window_1h_s = Inr True"
    "\<exists>t. target_epoch_ms (dget row ''ts'') window_1h_s = Inr (Some t) \<and> dget ev1h ''target_epoch_ms'' = VInt t"
    using patched_parts [OF assms(1-6)] .
  let ?row = "repaired_row row req" and ?dual = "dual_metadata a b p15 p1h ev15 ev1h (rc_patch clock)"
  let ?p = "\<lambda>w. \<lparr>rp_origin = w, rp_row = origin, rp_15m = p15, rp_1h = p1h\<rparr>"
  have g: "dget ?row k = dget row k" if "k \<noteq> ''audit''" "k \<noteq> ''price_15m_later''" for k using that by (simp add: repaired_row_def dset_get)
  have dir: "row_direction ?row = row_direction row" by (simp add: row_direction_def g)
  have price_now: "dget ?row ''price_now'' = dget row ''price_now''" by (simp add: g)
  have "as_audit ?row = pr_audit req" by (simp add: as_audit_def repaired_row_def dset_get por_def)
  then have au: "dget (as_audit ?row) ''origin_price_v1'' = VDict op" "dget (as_audit ?row) ''outcomes_dual'' = VDict ?dual"
    using assms(6) by (simp_all add: o(9) dset_get)
  note w = witness_fields [OF o(6) assms(7)] and fl = origin_price_opened [OF o(5)]
  note d15 = directional_prices [OF o(7)] and d1 = directional_prices [OF o(8)]
  have prices: "row_prices_of ?row op ?dual = rbind (float_of (dget op ''price'')) (\<lambda>w. Inr (?p w))"
    by (simp add: row_prices_of_def dual_fields fl price_now)
  have small: "fle (smallest_price (?p w)) fzero \<longleftrightarrow> fle w fzero" for w
    using d15(1,2) d1(2) by (simp add: smallest_price_def fmin_sign)
  have agreed: "agreed_instant ?row op = Inr (Some dt)" by (simp add: agreed_instant_def g w(4) assms(7))
  have dual: "dual_ok ?row ?dual = Inr True"
    using directional_word [OF o(7)] directional_word [OF o(8)] by (simp add: dual_ok_def dual_fields g o(1) valid_outcomes_def)
  have evidence: "evidence_ok ?row source (?p w) ?dual = Inr True" for w
    using e d15(4) d1(4) by (simp add: evidence_ok_def dual_fields g dget_find price_matches_def isclose_refl)
  have obs: "observation_ok ?row dt ?dual = Inr True" using dual_observation [of ?row dt] e(6) assms(7-9) by (simp add: g)
  have gate: "is_proof_qualified ?row = (case row_prices_of ?row op ?dual of
      Inl e \<Rightarrow> if caught e then Inr False else Inl e
    | Inr p \<Rightarrow> if fle (rp_origin p) fzero \<or> \<not> isclose origin_price_tol origin_price_tol (rp_origin p) (rp_row p) then Inr False
               else outcomes_ok (row_direction row) p ?dual)"
    unfolding is_proof_qualified_def au prod.case pyval.case agreed rbind.simps option.case prices
    using o(1,2,4) e(1) dual evidence obs by (cases "float_of (dget op ''price'')") (simp_all add: g dir w small)
  have "outcomes_ok (row_direction row) (?p origin) ?dual = Inr True" by (simp add: outcomes_ok_def o(7,8) dual_fields)
  then have "is_proof_qualified ?row = Inr True" if "float_of (dget op ''price'') = float_of (dget row ''price_now'')"
    unfolding gate prices that fl(1) using d15(1,3) by (simp add: isclose_refl)
  moreover have "dget (pr_audit req) ''outcomes_dual'' = VDict ?dual" by (simp add: o(9) dset_get)
  ultimately show ?thesis using o(1) gate by (simp add: o(3))
qed

subsection \<open>Witness\<close>

definition bare_row :: pydict where
  "bare_row =
     [(''id'', VInt 7), (''outcome'', VStr ''WIN''), (''prediction'', VStr ''LONG''), (''ts'', demo_ts), (''exchange_used'', VStr ''okx''),
      (''symbol'', VStr ''BTC/USDT''), (''price_now'', VInt 100), (''audit'', VDict [(''origin_price_v1'', VDict demo_origin)])]"

lemma bare_fields:
  "dget bare_row ''outcome'' = VStr ''WIN''" "row_direction bare_row = ''LONG''" "dget bare_row ''ts'' = demo_ts"
  "dget bare_row ''exchange_used'' = VStr ''okx''" "dget bare_row ''symbol'' = VStr ''BTC/USDT''" "dget bare_row ''price_now'' = VInt 100"
  "dget (audit_dict (dget bare_row ''audit'')) ''origin_price_v1'' = VDict demo_origin"
  "dget (audit_dict (dget bare_row ''audit'')) ''outcomes_dual'' = VNone" "dindex bare_row ''id'' = Inr (VInt 7)"
  by (simp_all add: bare_row_def dget_def audit_dict_def row_direction_def por_def upper_def upper_char_def dindex_def)

definition demo_market :: exchange_api where
  "demo_market source symbol since = Inr [VList [VInt (since + 60000), VInt 100, VInt 130, VInt 99, VInt 128, VInt 7]]"

definition demo_database :: database where
  "demo_database q = Inr \<lparr>ps_status = 200, ps_content = True, ps_json = Some (VList [VDict []])\<rparr>"

lemma market_evidence:
  assumes "target_epoch_ms demo_ts w = Inr (Some t)" "t = 900000 \<or> t = 3600000"
  shows "fetch_historical_price_evidence demo_market (unix_epoch + 7200000000) (VStr ''okx'') (VStr ''BTC/USDT'') demo_ts w
    = Inr (Some (evidence_fields ''okx'' ''BTC/USDT'' w t t (fl_of_int 128) (unix_epoch + 7200000000)))"
proof -
  let ?c = "VList [VInt t, VInt 100, VInt 130, VInt 99, VInt 128, VInt 7]"
  have c: "candle_open ?c = Inr t" "candle_price ?c = Inr (fl_of_int 128)"
    by (simp_all add: candle_open_def candle_price_def float_of_int_def demo_price)
  have "admissible t ?c = Inr True" by (simp add: admissible_def c demo_price candle_interval_ms_def)
  then have "select_containing_candle [?c] t = Inr (Some ?c)" by (simp add: select_containing_candle_def)
  then show ?thesis using assms(2)
    by (auto simp: fetch_historical_price_evidence_def demo_names assms(1) price_evidence_from_candles_def demo_market_def
      evidence_of_candle_def c demo_millis candle_interval_ms_def)
qed

definition demo_clock :: repair_clock where
  "demo_clock = \<lparr>rc_15m = unix_epoch + 7200000000, rc_1h = unix_epoch + 7200000000, rc_patch = unix_epoch + 7200000000\<rparr>"

lemma bare_repair: "\<exists>q. repair_row demo_market demo_database demo_clock bare_row = Inr (Repaired, Some q)"
proof -
  have w: "witness_ok bare_row (VDict demo_origin) = Inr (Some ''okx'')"
    by (simp add: witness_ok_def bare_fields demo_names demo_fields demo_ts_def parse_utc_isoformat [OF demo_range(1,2)])
  have p: "origin_price_of bare_row = Inr (Some (fl_of_int 100))"
    by (simp add: origin_price_of_def bare_fields por_def float_of_int_def demo_price)
  have i: "dindex (evidence_fields s y u t o' x n) ''price'' = Inr (VFloat x)" for s y u t o' x n
    by (simp add: evidence_fields_def dindex_def)
  show ?thesis
    unfolding repair_row_def bare_fields p rbind.simps Let_def
    by (simp add: w valid_outcomes_def demo_clock_def demo_names market_evidence [OF demo_targets(1)] market_evidence [OF demo_targets(2)]
      repair_with_evidence_def i demo_directional bare_fields demo_database_def accepted_def)
qed

theorem repaired_row_qualifies_witness:
  "\<exists>q. repair_row demo_market demo_database demo_clock bare_row = Inr (Repaired, Some q)
     \<and> is_proof_qualified (repaired_row bare_row q) = Inr True \<and> dget bare_row ''outcome'' = VStr (drop 3 (pr_outcome q))"
proof -
  obtain q where q: "repair_row demo_market demo_database demo_clock bare_row = Inr (Repaired, Some q)" using bare_repair by blast
  have t: "parse_utc (dget bare_row ''ts'') = Inr (Some unix_epoch)"
    by (simp add: bare_fields demo_ts_def parse_utc_isoformat [OF demo_range(1,2)])
  have f: "float_of (dget demo_origin ''price'') = Inr (fl_of_int 100)" "float_of (dget bare_row ''price_now'') = Inr (fl_of_int 100)"
    by (simp_all add: bare_fields demo_fields float_of_int_def demo_price)
  note c = repaired_row_qualifies [OF q _ _ _ _ bare_fields(7) t]
  have "is_proof_qualified (repaired_row bare_row q) = Inr True" using c demo_range f by (simp add: demo_clock_def)
  moreover have "dget bare_row ''outcome'' = VStr (drop 3 (pr_outcome q))" using c demo_range by (simp add: demo_clock_def)
  ultimately show ?thesis using q by blast
qed

subsection \<open>What one pass may do\<close>

definition pass_sum :: "counters \<Rightarrow> nat" where
  "pass_sum c = ct_repaired c + ct_skipped c + ct_errors c + ct_conflicts c"

lemma counted_sum [simp]: "pass_sum (counted r c) = pass_sum c + 1" "ct_scanned (counted r c) = ct_scanned c"
  "ct_errors (counted r c) = ct_errors c + (if r = Failed then 1 else 0)"
  "ct_repaired (counted r c) = ct_repaired c + (if r = Repaired then 1 else 0)"
  "pass_sum (c\<lparr>ct_scanned := n\<rparr>) = pass_sum c"
  by (cases r; simp add: counted_def pass_sum_def)+

lemma repair_with_evidence_repaired:
  "repair_with_evidence db now row stored direction origin audit ev15 ev1h = Inr (Repaired, req) \<Longrightarrow> \<exists>q. req = Some q"
  unfolding repair_with_evidence_def Let_def
  by (elim rbind_InrE) (auto elim!: rbind_InrE split: option.split_asm if_split_asm)

lemma repaired_is_sent: "repair_row api db clock row = Inr (Repaired, req) \<Longrightarrow> req \<noteq> None"
  unfolding repair_row_def Let_def
  by (auto elim!: rbind_InrE dest!: repair_with_evidence_repaired split: option.split_asm if_split_asm)

lemma repair_all_pass:
  assumes "repair_all clock api db rows c = Inr (c', sent)"
  shows "(\<forall>(row, req) \<in> set sent. row \<in> set rows \<and> (\<exists>r. repair_row api db (clock row) row = Inr (r, Some req)))
    \<and> ct_scanned c' \<le> ct_scanned c + length rows \<and> ct_errors c' \<le> ct_errors c + 1
    \<and> pass_sum c' + ct_scanned c = pass_sum c + ct_scanned c' \<and> ct_repaired c' \<le> ct_repaired c + length sent
    \<and> length sent + ct_scanned c \<le> ct_scanned c'"
  using assms
proof (induction rows arbitrary: c sent)
  case (Cons row rows)
  from Cons.prems obtain r req where r: "repair_row api db (clock row) row = Inr (r, req)"
    by (auto simp: rbind_Inr_iff)
  let ?c = "counted r (c\<lparr>ct_scanned := ct_scanned c + 1\<rparr>)" and ?s = "case req of None \<Rightarrow> [] | Some q \<Rightarrow> [(row, q)]"
  have s: "(x, y) \<in> set ?s \<Longrightarrow> x = row \<and> req = Some y" "length ?s \<le> 1" "r = Repaired \<Longrightarrow> length ?s = 1" for x y
    using repaired_is_sent [of api db "clock row" row req] r by (auto split: option.split_asm option.split)
  note sent = Cons.prems [unfolded repair_all.simps r rbind.simps prod.case Let_def]
  show ?case
  proof (cases "r = Failed")
    case True
    then have m: "c' = ?c" "sent = ?s" using sent by simp_all
    have "\<forall>(x, y) \<in> set ?s. x \<in> set (row # rows) \<and> (\<exists>r. repair_row api db (clock x) x = Inr (r, Some y))"
      using r by (auto split: option.split)
    then show ?thesis using s(2) True unfolding m by simp
  next
    case False
    then obtain sent' where m: "repair_all clock api db rows ?c = Inr (c', sent')" "sent = ?s @ sent'"
      using sent by (auto simp: rbind_Inr_iff)
    have i: "\<forall>(x, y) \<in> set sent'. x \<in> set rows \<and> (\<exists>r. repair_row api db (clock x) x = Inr (r, Some y))"
      and n: "ct_scanned c' \<le> ct_scanned c + 1 + length rows" "ct_errors c' \<le> ct_errors c + 1"
        "pass_sum c' + (ct_scanned c + 1) = pass_sum c + 1 + ct_scanned c'"
        "ct_repaired c' \<le> ct_repaired c + (if r = Repaired then 1 else 0) + length sent'"
        "length sent' + (ct_scanned c + 1) \<le> ct_scanned c'"
      using Cons.IH [OF m(1)] False by simp_all
    have "\<forall>(x, y) \<in> set sent. x \<in> set (row # rows) \<and> (\<exists>r. repair_row api db (clock x) x = Inr (r, Some y))"
      using i r unfolding m(2) by (auto split: option.split)
    then show ?thesis using n s(2,3) unfolding m(2) by (auto split: if_split_asm)
  qed
qed simp

lemma eligible_settled:
  assumes "eligible cutoff row = Inr True"
  shows "in_text_set (dget row ''outcome'') valid_outcomes = Inr True"
    "dget (audit_dict (dget row ''audit'')) ''outcomes_dual'' = VNone"
    "\<exists>u. parse_utc (dget row ''ts'') = Inr (Some u) \<and> u \<le> cutoff"
  using assms by (auto simp: eligible_def rbind_Inr_iff split: sum.split_asm if_split_asm option.split_asm)

text \<open>C35: a pass patches only settled rows of the given ones that have no dual metadata and whose hour is over, at
  most as many as the batch allows; it counts every row it looks at once, stops at the first error, and counts no
  repair that it has not sent.\<close>

theorem reconcile_pass_bounded:
  assumes "reconcile_once configured limit now clock api db rows = Inr (c, sent)"
  shows "(\<forall>(row, req) \<in> set sent. row \<in> set rows \<and> (\<exists>r. repair_row api db (clock row) row = Inr (r, Some req))
        \<and> in_text_set (dget row ''outcome'') valid_outcomes = Inr True
        \<and> dget (audit_dict (dget row ''audit'')) ''outcomes_dual'' = VNone
        \<and> (\<exists>u. parse_utc (dget row ''ts'') = Inr (Some u) \<and> u + 3600000000 \<le> now))
    \<and> length sent \<le> ct_scanned c \<and> ct_scanned c \<le> max 1 limit
    \<and> ct_scanned c = ct_repaired c + ct_skipped c + ct_errors c + ct_conflicts c
    \<and> ct_errors c \<le> 1 \<and> ct_repaired c \<le> length sent"
proof -
  obtain cutoff found c0 where f: "plus_seconds now (- window_1h_s) = Inr cutoff" "filter_res (eligible cutoff) rows = Inr found"
    and a: "repair_all clock api db (take (max 1 limit) (sort_key id_key found)) c0 = Inr (c, sent)"
    and z: "pass_sum c0 = 0" "ct_scanned c0 = 0" "ct_errors c0 = 0" "ct_repaired c0 = 0"
    using assms by (auto simp: reconcile_once_def rbind_Inr_iff Let_def no_counts_def pass_sum_def split: if_split_asm)
  note p = repair_all_pass [OF a]
  have cut: "cutoff = now - 3600000000" using f(1) by (auto simp: plus_seconds_def to_utc_def window_1h_s_def Let_def split: if_split_asm)
  have "row \<in> set rows \<and> eligible cutoff row = Inr True" if "row \<in> set (take (max 1 limit) (sort_key id_key found))" for row
    using filter_res_mem [OF f(2), of row] in_set_takeD [OF that] by simp
  then have m: "\<forall>row \<in> set (take (max 1 limit) (sort_key id_key found)). row \<in> set rows
      \<and> in_text_set (dget row ''outcome'') valid_outcomes = Inr True
      \<and> dget (audit_dict (dget row ''audit'')) ''outcomes_dual'' = VNone
      \<and> (\<exists>u. parse_utc (dget row ''ts'') = Inr (Some u) \<and> u + 3600000000 \<le> now)"
    using eligible_settled cut by fastforce
  have n: "length (take (max 1 limit) (sort_key id_key found)) \<le> max 1 limit" by simp
  have "\<forall>(row, req) \<in> set sent. row \<in> set rows \<and> (\<exists>r. repair_row api db (clock row) row = Inr (r, Some req))
        \<and> in_text_set (dget row ''outcome'') valid_outcomes = Inr True
        \<and> dget (audit_dict (dget row ''audit'')) ''outcomes_dual'' = VNone
        \<and> (\<exists>u. parse_utc (dget row ''ts'') = Inr (Some u) \<and> u + 3600000000 \<le> now)"
    using p m by fast
  then show ?thesis using p n z unfolding pass_sum_def by simp
qed

theorem reconcile_pass_bounded_witness:
  "\<exists>c q. reconcile_once True 200 (unix_epoch + 7200000000) (\<lambda>_. demo_clock) demo_market demo_database [bare_row] = Inr (c, [(bare_row, q)])
     \<and> ct_scanned c = 1 \<and> ct_repaired c = 1"
proof -
  obtain q where q: "repair_row demo_market demo_database demo_clock bare_row = Inr (Repaired, Some q)" using bare_repair by blast
  have u: "plus_seconds (unix_epoch + 7200000000) (- window_1h_s) = Inr (unix_epoch + 3600000000)"
    by (simp add: plus_seconds_def to_utc_def window_1h_s_def unix_epoch_def max_instant_def us_per_day_def)
  have i: "int_of (por (dget bare_row ''id'') (VInt 0)) = Inr 7" by (simp add: bare_row_def dget_def por_def)
  have e: "eligible (unix_epoch + 3600000000) bare_row = Inr True"
    by (simp add: eligible_def i bare_fields valid_outcomes_def demo_ts_def parse_utc_isoformat [OF demo_range(1,2)])
  obtain c where c: "reconcile_once True 200 (unix_epoch + 7200000000) (\<lambda>_. demo_clock) demo_market demo_database [bare_row] = Inr (c, [(bare_row, q)])"
    by (simp add: reconcile_once_def u e q Let_def)
  with reconcile_pass_bounded [OF c] show ?thesis
    by (simp add: reconcile_once_def u e q Let_def) (auto simp: counted_def no_counts_def)
qed

end
