(* ===== verification/PaperControl.thy ===== *)
theory PaperControl
  imports Settlement RiskKernel PyJson
begin

section \<open>Durable state of the paper control lane\<close>

text \<open>
  \<^verbatim>\<open>senecio_polymarket/backend/portfolio/paper_control_state.py\<close>: the validation of the state
  file, its text, the journal of closed trades and the migration that rebuilds the state from that journal.
  \<^verbatim>\<open>Position\<close> and \<^verbatim>\<open>KernelState\<close> are rebuilt without any check of types, so a restored
  one is the dictionary of its attributes. Files are not modelled; their contents are. The class name that the
  code appends to \<^verbatim>\<open>PAPER_CONTROL_STATE_CORRUPT\<close> when the file cannot be read is left out.
\<close>

subsection \<open>Finite values\<close>

definition corrupt :: "string \<Rightarrow> exc" where
  "corrupt label = PaperControlStateError (''PAPER_CONTROL_STATE_CORRUPT:'' @ label)"

fun finite_tree :: "pyval \<Rightarrow> string \<Rightarrow> unit res"
and finite_items :: "pyval list \<Rightarrow> nat \<Rightarrow> string \<Rightarrow> unit res"
and finite_members :: "pydict \<Rightarrow> string \<Rightarrow> unit res" where
  "finite_tree VNone path = Inr ()"
| "finite_tree (VBool b) path = Inr ()"
| "finite_tree (VStr s) path = Inr ()"
| "finite_tree (VInt i) path = Inr ()"
| "finite_tree (VFloat x) path = (if is_finite x then Inr () else Inl (corrupt (''NONFINITE:'' @ path)))"
| "finite_tree (VList xs) path = finite_items xs 0 path"
| "finite_tree (VDict d) path = finite_members d path"
| "finite_tree (VDec d) path = Inl (corrupt (''UNSUPPORTED_TYPE:'' @ path))"
| "finite_items [] i path = Inr ()"
| "finite_items (x # xs) i path =
     rbind (finite_tree x (path @ ''['' @ show_nat i @ '']'')) (\<lambda>_. finite_items xs (Suc i) path)"
| "finite_members [] path = Inr ()"
| "finite_members ((k, v) # d) path = rbind (finite_tree v (path @ ''.'' @ k)) (\<lambda>_. finite_members d path)"

fun exact_nonnegative :: "pyval \<Rightarrow> string \<Rightarrow> int res" where
  "exact_nonnegative (VInt i) label = (if i < 0 then Inl (corrupt label) else Inr i)"
| "exact_nonnegative v label = Inl (corrupt label)"

text \<open>\<^verbatim>\<open>isinstance(value, (int, float))\<close> but not a bool, and finite as a float: an integer beyond the
  range of floats raises \<^verbatim>\<open>OverflowError\<close>.\<close>

fun plain_number :: "pyval \<Rightarrow> string \<Rightarrow> pyfloat res" where
  "plain_number (VInt i) label = float_of_int i"
| "plain_number (VFloat x) label = (if is_finite x then Inr x else Inl (corrupt label))"
| "plain_number v label = Inl (corrupt label)"

subsection \<open>Validation of the state\<close>

definition state_version :: string where "state_version = ''paper-control-state-v1''"

definition check_sections :: "pydict \<Rightarrow> (pydict \<times> pydict \<times> pydict) res" where
  "check_sections p =
     (if \<not> py_eq (dget p ''version'') (VStr state_version) then Inl (corrupt ''VERSION'')
      else if dget p ''paper_only'' \<noteq> VBool True then Inl (corrupt ''PAPER_ONLY'')
      else case (dget p ''execution'', dget p ''risk_state'') of
        (VDict ex, VDict risk) \<Rightarrow>
          (case dget p ''last_prices'' of
             VDict prices \<Rightarrow>
               if \<not> is_dict (dget p ''meta_labeler_state'') then Inl (corrupt ''META_LABELER_STATE'')
               else if \<not> is_dict (dget p ''microstructure_state'') then Inl (corrupt ''MICROSTRUCTURE_STATE'')
               else Inr (ex, risk, prices)
           | _ \<Rightarrow> Inl (corrupt ''LAST_PRICES''))
      | _ \<Rightarrow> Inl (corrupt ''SECTIONS''))"

definition blank_text :: "pyval \<Rightarrow> bool" where
  "blank_text v = (case v of VStr s \<Rightarrow> strip s = [] | _ \<Rightarrow> True)"

definition check_history :: "pyval \<Rightarrow> int \<Rightarrow> unit res" where
  "check_history v offset =
     (case v of
        VList ids \<Rightarrow>
          if int (length ids) \<noteq> offset \<or> list_ex blank_text ids \<or> \<not> distinct ids
          then Inl (corrupt ''HISTORICAL_CLOSED_TRADE_IDS'') else Inr ()
      | _ \<Rightarrow> Inl (corrupt ''HISTORICAL_CLOSED_TRADE_IDS''))"

fun check_counts :: "string list \<Rightarrow> pydict \<Rightarrow> unit res" where
  "check_counts [] risk = Inr ()"
| "check_counts (k # ks) risk =
     rbind (exact_nonnegative (dget_or risk k (VInt 0)) (upper k)) (\<lambda>_. check_counts ks risk)"

definition count_keys :: "string list" where
  "count_keys = [''consecutive_losses'', ''proposals_evaluated'', ''proposals_approved'', ''proposals_rejected'']"

fun check_stops :: "string \<Rightarrow> nat \<Rightarrow> pyval list \<Rightarrow> unit res" where
  "check_stops name i [] = Inr ()"
| "check_stops name i (row # rows) =
     (case row of
        VDict d \<Rightarrow>
          rbind (case map_of d ''time_stop_minutes'' of
                   None \<Rightarrow> Inr 0
                 | Some v \<Rightarrow> exact_nonnegative v (name @ ''_'' @ show_nat i @ ''_TIME_STOP_MINUTES''))
            (\<lambda>_. check_stops name (Suc i) rows)
      | _ \<Rightarrow> Inl (corrupt name))"

fun check_prices :: "pydict \<Rightarrow> unit res" where
  "check_prices [] = Inr ()"
| "check_prices ((k, v) # d) = rbind (plain_number v ''LAST_PRICES'') (\<lambda>_. check_prices d)"

definition list_of :: "pyval \<Rightarrow> string \<Rightarrow> pyval list res" where
  "list_of v label = (case v of VList xs \<Rightarrow> Inr xs | _ \<Rightarrow> Inl (corrupt label))"

definition validate_state :: "pyval \<Rightarrow> unit res" where
  "validate_state v =
     (case v of
        VDict p \<Rightarrow>
          rbind (check_sections p) (\<lambda>(ex, risk, prices).
          rbind (finite_tree v ''ROOT'') (\<lambda>_.
          rbind (plain_number (dget ex ''cash'') ''CASH'') (\<lambda>_.
          rbind (plain_number (dget ex ''starting_cash'') ''STARTING_CASH'') (\<lambda>_.
          rbind (list_of (dget ex ''open_positions'') ''OPEN_POSITIONS'') (\<lambda>open_rows.
          rbind (list_of (dget ex ''closed_positions'') ''CLOSED_POSITIONS'') (\<lambda>closed_rows.
          rbind (exact_nonnegative (dget_or ex ''total_orders'' (VInt 0)) ''TOTAL_ORDERS'') (\<lambda>_.
          rbind (exact_nonnegative (dget_or ex ''closed_position_count_offset'' (VInt 0)) ''CLOSED_POSITION_COUNT_OFFSET'') (\<lambda>offset.
          rbind (check_history (dget ex ''historical_closed_trade_ids'') offset) (\<lambda>_.
          rbind (check_counts count_keys risk) (\<lambda>_.
          rbind (check_stops ''OPEN_POSITIONS'' 0 open_rows) (\<lambda>_.
          rbind (check_stops ''CLOSED_POSITIONS'' 0 closed_rows) (\<lambda>_.
            check_prices prices))))))))))))
      | _ \<Rightarrow> Inl (corrupt ''NOT_OBJECT''))"

subsection \<open>The file\<close>

datatype stored_file = Absent | Unreadable | Content string

definition load_state :: "stored_file \<Rightarrow> pyval res" where
  "load_state f =
     (case f of
        Content t \<Rightarrow>
          (case json_read False t of
             None \<Rightarrow> Inl (corrupt [])
           | Some raw \<Rightarrow> rbind (validate_state raw) (\<lambda>_. Inr raw))
      | _ \<Rightarrow> Inl (corrupt []))"

text \<open>What \<^verbatim>\<open>save\<close> writes; the file is replaced in one step or not at all.\<close>

definition save_state :: "pyval \<Rightarrow> string res" where
  "save_state v =
     rbind (validate_state v) (\<lambda>_.
       case json_err v of Some e \<Rightarrow> Inl e | None \<Rightarrow> Inr (canon True v @ [CHR 10]))"

definition position_fields :: "(string \<times> pyval option) list" where
  "position_fields =
     [(''position_id'', None), (''symbol'', None), (''direction'', None), (''qty'', None), (''avg_entry_price'', None),
      (''entry_ts'', None), (''stop_price'', None), (''target_price'', None), (''time_stop_minutes'', Some (VInt 60)),
      (''status'', Some (VStr ''OPEN'')), (''exit_price'', Some (VFloat fzero)), (''exit_ts'', Some (VStr [])),
      (''exit_reason'', Some (VStr [])), (''realized_pnl'', Some (VFloat fzero)), (''fees_paid'', Some (VFloat fzero)),
      (''risk_usd'', Some (VFloat fzero)), (''mae_price'', Some (VFloat fzero)), (''mfe_price'', Some (VFloat fzero)),
      (''proposal_id'', Some VNone), (''order_ids'', Some (VList [])), (''audit_trail'', Some (VList []))]"

definition kernel_fields :: "(string \<times> pyval option) list" where
  "kernel_fields =
     [(''current_day'', None), (''daily_pnl_usd'', Some (VFloat fzero)), (''daily_pnl_pct'', Some (VFloat fzero)),
      (''peak_equity'', Some (VFloat fzero)), (''current_equity'', Some (VFloat fzero)), (''drawdown_pct'', Some (VFloat fzero)),
      (''consecutive_losses'', Some (VInt 0)), (''last_loss_ts'', Some VNone), (''cooldown_until'', Some VNone),
      (''kill_switch_active'', Some (VBool False)), (''kill_switch_reason'', Some (VStr [])), (''kill_switch_set_at'', Some VNone),
      (''vol_regime'', Some (VStr ''NORMAL'')), (''vol_pct'', Some (VFloat fzero)), (''proposals_evaluated'', Some (VInt 0)),
      (''proposals_approved'', Some (VInt 0)), (''proposals_rejected'', Some (VInt 0))]"

text \<open>\<^verbatim>\<open>Class(**data)\<close> of a dataclass: no unknown field, every field without a default given.\<close>

definition from_fields :: "(string \<times> pyval option) list \<Rightarrow> pydict \<Rightarrow> pydict option" where
  "from_fields fs d =
     (if list_all (\<lambda>(k, _). k \<in> fst ` set fs) d \<and> list_all (\<lambda>(k, v0). v0 \<noteq> None \<or> k \<in> fst ` set d) fs
      then Some (map (\<lambda>(k, v0). (k, case map_of d k of Some v \<Rightarrow> v | None \<Rightarrow> (case v0 of Some v \<Rightarrow> v | None \<Rightarrow> VNone))) fs)
      else None)"

definition position_from_state :: "pyval \<Rightarrow> pydict res" where
  "position_from_state v =
     (case v of
        VDict d \<Rightarrow> (case from_fields position_fields d of Some p \<Rightarrow> Inr p | None \<Rightarrow> Inl (corrupt ''POSITION''))
      | _ \<Rightarrow> Inl (corrupt ''POSITION''))"

definition kernel_state_from_state :: "pyval \<Rightarrow> pydict res" where
  "kernel_state_from_state v =
     (case v of
        VDict d \<Rightarrow> (case from_fields kernel_fields d of Some p \<Rightarrow> Inr p | None \<Rightarrow> Inl (corrupt ''RISK_STATE''))
      | _ \<Rightarrow> Inl (corrupt ''RISK_STATE''))"

subsection \<open>The journal of closed trades\<close>

definition journal_schema :: "string \<Rightarrow> exc" where
  "journal_schema label = PaperControlStateError (''PAPER_CONTROL_JOURNAL_SCHEMA:'' @ label)"

definition journal_corrupt :: "string \<Rightarrow> exc" where
  "journal_corrupt label = PaperControlStateError (''PAPER_CONTROL_JOURNAL_CORRUPT:'' @ label)"

definition parse_ts :: "pyval \<Rightarrow> int option res" where
  "parse_ts v = (if \<not> truthy v then Inr None else parse_utc v)"

text \<open>The lines of a text file, with universal newlines.\<close>

fun text_lines :: "string \<Rightarrow> string \<Rightarrow> string list" where
  "text_lines acc [] = (if acc = [] then [] else [acc])"
| "text_lines acc (c # s) =
     (if c = CHR 10 then acc # text_lines [] s
      else if c = CHR 13 then acc # (case s of d # t \<Rightarrow> text_lines [] (if d = CHR 10 then t else s) | [] \<Rightarrow> [])
      else text_lines (acc @ [c]) s)"

definition journal_has_nonblank_content :: "stored_file \<Rightarrow> bool res" where
  "journal_has_nonblank_content f =
     (case f of
        Absent \<Rightarrow> Inr False
      | Unreadable \<Rightarrow> Inl (journal_corrupt [])
      | Content t \<Rightarrow> Inr (list_ex (\<lambda>l. strip l \<noteq> []) (text_lines [] t)))"

datatype bound = Any_Number | Nonnegative | Positive

definition journal_number :: "pydict \<Rightarrow> string \<Rightarrow> bound \<Rightarrow> pyfloat res" where
  "journal_number row k b =
     rbind (case dget row k of
              VInt i \<Rightarrow> float_of_int i
            | VFloat x \<Rightarrow> if is_finite x then Inr x else Inl (journal_schema (upper k))
            | _ \<Rightarrow> Inl (journal_schema (upper k))) (\<lambda>x.
       if b = Nonnegative \<and> flt x fzero then Inl (journal_schema (upper k))
       else if b = Positive \<and> fle x fzero then Inl (journal_schema (upper k))
       else Inr x)"

fun check_texts :: "string list \<Rightarrow> pydict \<Rightarrow> unit res" where
  "check_texts [] row = Inr ()"
| "check_texts (k # ks) row = (if blank_text (dget row k) then Inl (journal_schema (upper k)) else check_texts ks row)"

definition text_keys :: "string list" where
  "text_keys = [''trade_id'', ''symbol'', ''direction'', ''entry_ts'', ''exit_ts'', ''exit_reason'']"

definition exit_reasons :: "string list" where
  "exit_reasons = [''STOP'', ''TARGET'', ''TIME_STOP'', ''MANUAL'', ''KILL_SWITCH'']"

definition check_row_times :: "pydict \<Rightarrow> unit res" where
  "check_row_times row =
     rbind (parse_ts (dget row ''entry_ts'')) (\<lambda>a. rbind (parse_ts (dget row ''exit_ts'')) (\<lambda>b.
       case (a, b) of
         (Some t0, Some t1) \<Rightarrow> if t1 < t0 then Inl (journal_schema ''TIMESTAMPS'') else Inr ()
       | _ \<Rightarrow> Inl (journal_schema ''TIMESTAMPS'')))"

definition check_row_numbers :: "pydict \<Rightarrow> unit res" where
  "check_row_numbers row =
     rbind (journal_number row ''qty'' Positive) (\<lambda>_.
     rbind (journal_number row ''entry_price'' Positive) (\<lambda>_.
     rbind (journal_number row ''exit_price'' Positive) (\<lambda>_.
     rbind (journal_number row ''realized_pnl_usd'' Any_Number) (\<lambda>_.
     rbind (journal_number row ''risk_usd'' Nonnegative) (\<lambda>_.
     rbind (journal_number row ''entry_fee_usd'' Nonnegative) (\<lambda>entry_fee.
     rbind (journal_number row ''exit_fee_usd'' Nonnegative) (\<lambda>exit_fee.
     rbind (journal_number row ''total_fees_usd'' Nonnegative) (\<lambda>total_fee.
       if flt (flit 1 2) (fabs (fsub (fadd entry_fee exit_fee) total_fee))
       then Inl (journal_schema ''FEE_RECONCILIATION'') else Inr ()))))))))"

definition validate_closed_row :: "pyval \<Rightarrow> pydict res" where
  "validate_closed_row v =
     (case v of
        VDict row \<Rightarrow>
          rbind (finite_tree v ''JOURNAL_ROW'') (\<lambda>_.
          rbind (check_texts text_keys row) (\<lambda>_.
            if upper (py_str (dget row ''direction'')) \<notin> {''LONG'', ''SHORT''} then Inl (journal_schema ''DIRECTION'')
            else if upper (py_str (dget row ''exit_reason'')) \<notin> set exit_reasons then Inl (journal_schema ''EXIT_REASON'')
            else rbind (check_row_times row) (\<lambda>_. rbind (check_row_numbers row) (\<lambda>_. Inr row))))
      | _ \<Rightarrow> Inl (journal_schema ''ROW''))"

definition trade_id :: "pydict \<Rightarrow> string" where "trade_id row = py_str (dget row ''trade_id'')"

fun read_rows :: "nat \<Rightarrow> string list \<Rightarrow> string list \<Rightarrow> pydict list res" where
  "read_rows n seen [] = Inr []"
| "read_rows n seen (l # ls) =
     (if strip l = [] then read_rows (Suc n) seen ls
      else case json_read False (strip l) of
        None \<Rightarrow> Inl (journal_corrupt (''JSON_LINE_'' @ show_nat n))
      | Some v \<Rightarrow>
          rbind (validate_closed_row v) (\<lambda>row.
            if trade_id row \<in> set seen then Inl (PaperControlStateError ''PAPER_CONTROL_JOURNAL_DUPLICATE:TRADE_ID'')
            else rbind (read_rows (Suc n) (seen @ [trade_id row]) ls) (\<lambda>rows. Inr (row # rows))))"

text \<open>\<^verbatim>\<open>except PaperControlStateError: raise\<close>, \<^verbatim>\<open>except Exception\<close>: another one is wrapped.\<close>

fun wrap_journal :: "'a res \<Rightarrow> 'a res" where
  "wrap_journal (Inr x) = Inr x"
| "wrap_journal (Inl (PaperControlStateError m)) = Inl (PaperControlStateError m)"
| "wrap_journal (Inl e) = Inl (journal_corrupt (exc_name e))"

definition load_journal :: "stored_file \<Rightarrow> pydict list res" where
  "load_journal f =
     (case f of
        Absent \<Rightarrow> Inr []
      | Unreadable \<Rightarrow> Inl (journal_corrupt [])
      | Content t \<Rightarrow> wrap_journal (read_rows 1 [] (text_lines [] t)))"

subsection \<open>Migration from the journal\<close>

record boot =
  bt_cash :: pyfloat
  bt_peak :: pyfloat
  bt_daily :: pyfloat
  bt_streak :: int
  bt_last_loss :: "string option"
  bt_ids :: "pyval list"
  bt_prices :: pydict

definition boot_start :: "pyfloat \<Rightarrow> boot" where
  "boot_start cash = \<lparr>bt_cash = cash, bt_peak = cash, bt_daily = fzero, bt_streak = 0, bt_last_loss = None, bt_ids = [], bt_prices = []\<rparr>"

definition boot_streak :: "pyfloat \<Rightarrow> pydict \<Rightarrow> boot \<Rightarrow> boot" where
  "boot_streak pnl row st =
     (if flt pnl fzero then st\<lparr>bt_streak := bt_streak st + 1, bt_last_loss := Some (py_str (dget row ''exit_ts''))\<rparr>
      else if flt fzero pnl then st\<lparr>bt_streak := 0, bt_last_loss := None\<rparr>
      else st)"

definition boot_row :: "string \<Rightarrow> pydict \<Rightarrow> boot \<Rightarrow> boot res" where
  "boot_row today row st =
     rbind (float_of (dget row ''realized_pnl_usd'')) (\<lambda>pnl.
     rbind (parse_ts (dget row ''exit_ts'')) (\<lambda>exit_dt.
     rbind (float_of (dget row ''exit_price'')) (\<lambda>price.
       let cash = fadd (bt_cash st) pnl;
           st1 = st\<lparr>bt_cash := cash, bt_peak := fmax (bt_peak st) cash,
             bt_daily := (case exit_dt of
               Some u \<Rightarrow> if date_text u = today then fadd (bt_daily st) pnl else bt_daily st | None \<Rightarrow> bt_daily st)\<rparr>;
           st2 = boot_streak pnl row st1
       in Inr (st2\<lparr>bt_prices := dset (bt_prices st2) (py_str (dget row ''symbol'')) (VFloat price),
                   bt_ids := bt_ids st2 @ [VStr (trade_id row)]\<rparr>))))"

fun boot_rows :: "string \<Rightarrow> pydict list \<Rightarrow> boot \<Rightarrow> boot res" where
  "boot_rows today [] st = Inr st"
| "boot_rows today (row # rows) st = rbind (boot_row today row st) (boot_rows today rows)"

definition boot_drawdown :: "boot \<Rightarrow> pyfloat res" where
  "boot_drawdown st =
     (if flt fzero (bt_peak st)
      then rbind (fdiv (fsub (bt_peak st) (bt_cash st)) (bt_peak st)) (\<lambda>d. Inr (percent d)) else Inr fzero)"

definition boot_daily_pct :: "pyfloat \<Rightarrow> boot \<Rightarrow> pyfloat res" where
  "boot_daily_pct cash st = rbind (fdiv (bt_daily st) (fmax cash (flit 1 0))) (\<lambda>d. Inr (percent d))"

definition boot_cooldown :: "int \<Rightarrow> risk_config \<Rightarrow> boot \<Rightarrow> string option res" where
  "boot_cooldown now c st =
     (if consecutive_loss_threshold c \<le> bt_streak st \<and> bt_last_loss st \<noteq> None \<and> bt_last_loss st \<noteq> Some []
      then rbind (parse_ts (VStr (the (bt_last_loss st)))) (\<lambda>dt.
        case dt of
          None \<Rightarrow> Inr None
        | Some u \<Rightarrow> rbind (to_utc (u + cooldown_minutes c * 60000000) 0) (\<lambda>until.
            Inr (if now < until then Some (isoformat_utc until) else None)))
      else Inr None)"

text \<open>The last limit that is reached gives the reason.\<close>

definition boot_kill :: "risk_config \<Rightarrow> boot \<Rightarrow> pyfloat \<Rightarrow> pyfloat \<Rightarrow> string option" where
  "boot_kill c st daily_pct drawdown =
     (if fle (percent (max_drawdown_pct c)) drawdown then Some (''migration:auto:drawdown='' @ fmt_fixed 2 drawdown @ ''%'')
      else if fle daily_pct (fmul (fneg (max_daily_loss_pct c)) (flit 100 0))
        then Some (''migration:auto:daily_loss='' @ fmt_fixed 2 daily_pct @ ''%'')
      else if consecutive_loss_threshold c * 2 \<le> bt_streak st
        then Some (''migration:auto:'' @ show_int (bt_streak st) @ ''_consecutive_losses'')
      else None)"

definition opt_text :: "string option \<Rightarrow> pyval" where
  "opt_text t = (case t of None \<Rightarrow> VNone | Some s \<Rightarrow> VStr s)"

definition kernel_state_dict :: "risk_state \<Rightarrow> pydict" where
  "kernel_state_dict s =
     [(''current_day'', VStr (current_day s)), (''daily_pnl_usd'', VFloat (daily_pnl_usd s)), (''daily_pnl_pct'', VFloat (daily_pnl_pct s)),
      (''peak_equity'', VFloat (peak_equity s)), (''current_equity'', VFloat (current_equity s)), (''drawdown_pct'', VFloat (drawdown_pct s)),
      (''consecutive_losses'', VInt (consecutive_losses s)), (''last_loss_ts'', opt_text (last_loss_ts s)),
      (''cooldown_until'', opt_text (cooldown_until s)), (''kill_switch_active'', VBool (kill_active s)),
      (''kill_switch_reason'', VStr (kill_reason s)), (''kill_switch_set_at'', opt_text (kill_set_at s)),
      (''vol_regime'', VStr (regime_value (regime s))), (''vol_pct'', VFloat (vol_pct s)), (''proposals_evaluated'', VInt (n_evaluated s)),
      (''proposals_approved'', VInt (n_approved s)), (''proposals_rejected'', VInt (n_rejected s))]"

definition boot_risk :: "int \<Rightarrow> risk_config \<Rightarrow> pyfloat \<Rightarrow> boot \<Rightarrow> risk_state res" where
  "boot_risk now c cash st =
     rbind (boot_drawdown st) (\<lambda>drawdown. rbind (boot_daily_pct cash st) (\<lambda>daily_pct.
     rbind (boot_cooldown now c st) (\<lambda>cooldown.
       let kill = boot_kill c st daily_pct drawdown
       in Inr \<lparr>current_day = date_text now, daily_pnl_usd = bt_daily st, daily_pnl_pct = daily_pct, peak_equity = bt_peak st,
            current_equity = bt_cash st, drawdown_pct = drawdown, consecutive_losses = bt_streak st, last_loss_ts = bt_last_loss st,
            cooldown_until = cooldown, kill_active = kill \<noteq> None, kill_reason = (case kill of Some r \<Rightarrow> r | None \<Rightarrow> []),
            kill_set_at = (if kill \<noteq> None then Some (isoformat_utc now) else None), regime = Vol_Normal, vol_pct = fzero,
            n_evaluated = 0, n_approved = 0, n_rejected = 0\<rparr>)))"

definition boot_payload :: "int \<Rightarrow> pyfloat \<Rightarrow> nat \<Rightarrow> boot \<Rightarrow> risk_state \<Rightarrow> pydict" where
  "boot_payload now cash n st risk =
     [(''version'', VStr state_version), (''paper_only'', VBool True), (''saved_at'', VStr (isoformat_utc now)),
      (''migration'', VStr ''JOURNAL_BOOTSTRAP_EXPLICIT''),
      (''execution'', VDict
        [(''cash'', VFloat (bt_cash st)), (''starting_cash'', VFloat cash), (''total_orders'', VInt (int n)),
         (''order_count_semantics'', VStr ''MINIMUM_CLOSED_TRADES_AT_BOOTSTRAP''), (''closed_position_count_offset'', VInt (int n)),
         (''historical_closed_trade_ids'', VList (bt_ids st)), (''open_positions'', VList []), (''closed_positions'', VList [])]),
      (''risk_state'', VDict (kernel_state_dict risk)), (''last_prices'', VDict (bt_prices st))]"

definition bootstrap :: "int \<Rightarrow> risk_config \<Rightarrow> pyfloat \<Rightarrow> pydict list \<Rightarrow> pydict res" where
  "bootstrap now c cash rows =
     rbind (rmap (\<lambda>row. validate_closed_row (VDict row)) rows) (\<lambda>records.
     if records = [] then Inl (PaperControlStateError ''PAPER_CONTROL_STATE_BOOTSTRAP_EMPTY_JOURNAL'')
     else rbind (boot_rows (date_text now) records (boot_start cash)) (\<lambda>st.
       rbind (boot_risk now c cash st) (\<lambda>risk. Inr (boot_payload now cash (length records) st risk))))"

subsection \<open>The coordinator's side\<close>

definition mismatch :: "string \<Rightarrow> exc" where
  "mismatch label = RuntimeError (''PAPER_CONTROL_STATE_JOURNAL_MISMATCH:'' @ label)"

definition id_text :: "pydict \<Rightarrow> string \<Rightarrow> string" where
  "id_text row k = py_str (por (dget row k) (VStr []))"

definition rows_of :: "pyval \<Rightarrow> pyval list" where
  "rows_of v = (case v of VList xs \<Rightarrow> xs | _ \<Rightarrow> [])"

fun index_closed :: "pyval list \<Rightarrow> (string \<times> pydict) list \<Rightarrow> (string \<times> pydict) list res" where
  "index_closed [] acc = Inr acc"
| "index_closed (v # vs) acc =
     (case v of
        VDict row \<Rightarrow>
          if id_text row ''position_id'' = [] \<or> id_text row ''position_id'' \<in> fst ` set acc then Inl (mismatch ''CLOSED_IDENTITY'')
          else index_closed vs (acc @ [(id_text row ''position_id'', row)])
      | _ \<Rightarrow> Inl (mismatch ''CLOSED_POSITION''))"

fun compare_closed :: "(string \<times> pydict) list \<Rightarrow> (string \<times> pydict) list \<Rightarrow> unit res" where
  "compare_closed journal [] = Inr ()"
| "compare_closed journal ((i, position) # ps) =
     (let row = (case map_of journal i of Some r \<Rightarrow> r | None \<Rightarrow> [])
      in if id_text position ''symbol'' \<noteq> id_text row ''symbol'' then Inl (mismatch ''SYMBOL'')
         else if upper (id_text position ''direction'') \<noteq> upper (id_text row ''direction'') then Inl (mismatch ''DIRECTION'')
         else rbind (float_of (por (dget position ''realized_pnl'') (VFloat fzero))) (\<lambda>a.
           rbind (float_of (por (dget row ''realized_pnl_usd'') (VFloat fzero))) (\<lambda>b.
             if flt (flit 1 9) (fabs (fsub a b)) then Inl (mismatch ''REALIZED_PNL'') else compare_closed journal ps)))"

definition journal_state_consistent :: "pydict list \<Rightarrow> pydict \<Rightarrow> unit res" where
  "journal_state_consistent rows p =
     (let ids = map (\<lambda>r. id_text r ''trade_id'') rows; journal = zip ids rows;
          ex = as_dict (dget p ''execution'');
          open_rows = rows_of (dget ex ''open_positions''); closed_rows = rows_of (dget ex ''closed_positions'');
          open_ids = map (\<lambda>v. id_text (as_dict v) ''position_id'') (filter is_dict open_rows);
          history = rows_of (dget ex ''historical_closed_trade_ids'')
      in if [] \<in> set ids \<or> \<not> distinct ids then Inl (mismatch ''JOURNAL_IDENTITY'')
         else rbind (index_closed closed_rows []) (\<lambda>closed_ps.
           let closed_ids = map (\<lambda>(i, _). VStr i) closed_ps
           in if set history \<inter> set closed_ids \<noteq> {} then Inl (mismatch ''DUPLICATE_CLOSED_ID'')
              else if set open_ids \<inter> set ids \<noteq> {} then Inl (mismatch ''OPEN_ALREADY_CLOSED'')
              else if set history \<union> set closed_ids \<noteq> set (map VStr ids) then Inl (mismatch ''CLOSED_ID_SET'')
              else compare_closed journal closed_ps))"

definition migrated :: "pyval \<Rightarrow> pyval \<Rightarrow> pydict \<Rightarrow> pydict" where
  "migrated meta micro p =
     p @ [(''meta_labeler_state'', meta), (''microstructure_state'', micro),
          (''decision_state_migration'', VDict
            [(''meta_labeler'', VStr ''RECONSTRUCTED_FROM_JOURNAL''), (''microstructure'', VStr ''RESET_AT_LEGACY_BOOTSTRAP'')])]"

text \<open>Restart: the state that is applied, when there is one, and the text that is written. The state of the meta labeler
  after the outcomes of the rows, and that of the microstructure, are arguments.\<close>

definition restore_or_initialize ::
  "bool \<Rightarrow> int \<Rightarrow> risk_config \<Rightarrow> pyfloat \<Rightarrow> (pydict list \<Rightarrow> pyval) \<Rightarrow> pyval \<Rightarrow> stored_file \<Rightarrow> stored_file
    \<Rightarrow> (pydict option \<times> string option) res" where
  "restore_or_initialize allow now c cash meta micro store journal =
     (if store \<noteq> Absent
      then rbind (load_state store) (\<lambda>v. rbind (load_journal journal) (\<lambda>rows.
        rbind (journal_state_consistent rows (as_dict v)) (\<lambda>_. Inr (Some (as_dict v), None))))
      else rbind (journal_has_nonblank_content journal) (\<lambda>nonblank.
        if \<not> nonblank then Inr (None, None)
        else if \<not> allow then Inl (RuntimeError ''PAPER_CONTROL_STATE_MISSING_WITH_DURABLE_JOURNAL'')
        else rbind (load_journal journal) (\<lambda>rows. rbind (bootstrap now c cash rows) (\<lambda>b.
          let p = migrated (meta rows) micro b
          in rbind (journal_state_consistent rows p) (\<lambda>_. rbind (save_state (VDict p)) (\<lambda>t. Inr (Some p, Some t)))))))"

subsection \<open>Values without lost information\<close>

fun all_finite :: "pyval \<Rightarrow> bool" where
  "all_finite (VFloat x) = is_finite x"
| "all_finite (VDec d) = False"
| "all_finite (VList xs) = list_all all_finite xs"
| "all_finite (VDict d) = list_all (\<lambda>(k, v). all_finite v) d"
| "all_finite v = True"

lemma finite_tree_iff:
  "finite_tree v path = Inr () \<longleftrightarrow> all_finite v"
  "finite_items xs i path = Inr () \<longleftrightarrow> list_all all_finite xs"
  "finite_members d path = Inr () \<longleftrightarrow> list_all (\<lambda>(k, v). all_finite v) d"
  by (induction v path and xs i path and d path rule: finite_tree_finite_items_finite_members.induct)
    (auto simp: rbind_Inr_iff)

text \<open>What the parser gives: floats in normal form, each key once.\<close>

fun parsed :: "pyval \<Rightarrow> bool" where
  "parsed (VFloat x) = (is_finite x \<longrightarrow> fl_proper x)"
| "parsed (VDec d) = False"
| "parsed (VList xs) = list_all parsed xs"
| "parsed (VDict d) = (distinct (map fst d) \<and> list_all (\<lambda>(k, v). parsed v) d)"
| "parsed v = True"

lemma parsed_finite_tidy: "parsed v \<Longrightarrow> all_finite v \<Longrightarrow> tidy v"
  by (induction v rule: tidy.induct) (fastforce simp: list_all_iff)+

lemma float_of_text_parsed: "float_of_text t = Some x \<Longrightarrow> is_finite x \<Longrightarrow> fl_proper x"
  by (auto simp: float_of_text_def Let_def fl_of_dec_proper split: if_splits prod.splits parsed.splits)

lemma jword_parsed: "jword con s = Some (v, r) \<Longrightarrow> parsed v"
  by (auto simp: jword_def jnumber_def junsigned_def Let_def float_of_text_parsed split: if_splits)

lemma dset_parsed:
  assumes "parsed (VDict d)" "parsed v"
  shows "parsed (VDict (dset d k v))"
  using assms
proof (induction d k v rule: dset.induct)
  case (2 k' v' d k v)
  have "fst ` set (dset d k v) = insert k (fst ` set d)" for d k v by (induction d k v rule: dset.induct) auto
  with 2 show ?case by auto
qed simp

lemma jvalue_parsed:
  "jvalue con n s = Some (v, r) \<Longrightarrow> parsed v"
  "jitems con n s acc = Some (v, r) \<Longrightarrow> list_all parsed acc \<Longrightarrow> parsed v"
  "jmembers con n s d = Some (v, r) \<Longrightarrow> parsed (VDict d) \<Longrightarrow> parsed v"
proof (induction con n s and con n s acc and con n s d arbitrary: v r and v r and v r rule: jvalue_jitems_jmembers.induct)
  case (2 con n s)
  then show ?case by (auto simp: jword_parsed split: list.split_asm if_split_asm)
next
  case (4 con n s acc)
  then show ?case by (auto split: list.split_asm if_split_asm option.split_asm)
next
  case (6 con n s acc)
  then show ?case by (auto simp: dset_parsed simp del: parsed.simps(4) split: list.split_asm if_split_asm option.split_asm)
qed simp_all

lemma json_read_parsed: "json_read con s = Some v \<Longrightarrow> parsed v"
  by (auto simp: json_read_def simp del: jvalue.simps split: if_splits option.splits prod.splits dest: jvalue_parsed(1))

text \<open>Texts of printable and control characters of ASCII are written in the same way with and without
  \<^verbatim>\<open>ensure_ascii\<close>.\<close>

definition ascii :: "string \<Rightarrow> bool" where
  "ascii s = list_all (\<lambda>c. (of_char c :: nat) < 127) s"

fun ascii_tree :: "pyval \<Rightarrow> bool" where
  "ascii_tree (VStr s) = ascii s"
| "ascii_tree (VList xs) = list_all ascii_tree xs"
| "ascii_tree (VDict d) = list_all (\<lambda>(k, v). ascii k \<and> ascii_tree v) d"
| "ascii_tree (VDec d) = False"
| "ascii_tree v = True"

lemma jstr_ascii: "ascii s \<Longrightarrow> jstr True s = jstr False s"
proof -
  have "ascii s \<Longrightarrow> ascii_text s = concat (map esc_char s)" for s
    by (induction s) (auto simp: ascii_def Let_def)
  then show "ascii s \<Longrightarrow> jstr True s = jstr False s" by (simp add: jstr_def)
qed

lemma canon_ascii: "ascii_tree v \<Longrightarrow> canon True v = canon False v"
proof (induction v rule: ascii_tree.induct)
  case (3 d)
  then have "map (\<lambda>(k, v). (k, jstr True k @ '':'' @ canon True v)) d = map (\<lambda>(k, v). (k, jstr False k @ '':'' @ canon False v)) d"
    by (fastforce simp: list_all_iff jstr_ascii)
  then show ?case unfolding canon.simps by (simp only:)
next
  case (2 xs)
  then have "map (canon True) xs = map (canon False) xs" by (auto simp: list_all_iff)
  then show ?case unfolding canon.simps by (simp only:)
qed (simp_all add: jstr_ascii)

subsection \<open>Validation does not depend on the order of the keys\<close>

lemma dget_key_sorted:
  assumes "distinct (map fst d)" "key_sorted (VDict d) = VDict e"
  shows "dget e k = key_sorted (dget d k)" "map_of e k = map_option key_sorted (map_of d k)" "dget_or e k v0 = (case map_of d k of Some v \<Rightarrow> key_sorted v | None \<Rightarrow> v0)"
  using assms(2) key_sorted_lookup [OF assms(1), of k] by (auto simp: dget_def dget_or_def split: option.split)

lemma key_sorted_cases:
  "key_sorted v = VNone \<longleftrightarrow> v = VNone" "key_sorted v = VBool b \<longleftrightarrow> v = VBool b" "key_sorted v = VInt i \<longleftrightarrow> v = VInt i"
  "key_sorted v = VFloat x \<longleftrightarrow> v = VFloat x" "key_sorted v = VStr s \<longleftrightarrow> v = VStr s"
  by (cases v; auto)+

lemma all_finite_sorted: "all_finite v \<Longrightarrow> all_finite (key_sorted v)"
  by (induction v rule: all_finite.induct) (auto simp: list_all_iff)

lemma plain_number_sorted: "plain_number (key_sorted v) l = plain_number v l"
  by (cases v) auto

lemma exact_nonnegative_sorted: "exact_nonnegative (key_sorted v) l = exact_nonnegative v l"
  by (cases v) auto

lemma blank_text_sorted: "blank_text (key_sorted v) = blank_text v"
  by (cases v) (auto simp: blank_text_def)

lemma check_history_sorted: "check_history v n = Inr () \<Longrightarrow> check_history (key_sorted v) n = Inr ()"
proof -
  assume a: "check_history v n = Inr ()"
  then obtain ids where v: "v = VList ids" by (cases v) (auto simp: check_history_def)
  then have ids: "int (length ids) = n" "\<forall>x \<in> set ids. \<not> blank_text x" "distinct ids"
    using a by (auto simp: check_history_def list_ex_iff split: if_split_asm)
  have "key_sorted x = x" if "x \<in> set ids" for x using ids(2) that by (cases x) (auto simp: blank_text_def)
  then have "map key_sorted ids = ids" by (simp add: map_idI)
  then show "check_history (key_sorted v) n = Inr ()" using a v by simp
qed

lemma check_counts_sorted:
  assumes "distinct (map fst d)" "key_sorted (VDict d) = VDict e"
  shows "check_counts ks e = check_counts ks d"
proof (induction ks)
  case (Cons k ks)
  have "exact_nonnegative (dget_or e k (VInt 0)) l = exact_nonnegative (dget_or d k (VInt 0)) l" for l
    unfolding dget_key_sorted(3) [OF assms] by (auto simp: dget_or_def exact_nonnegative_sorted split: option.split)
  with Cons show ?case by simp
qed simp

lemma check_stops_sorted:
  assumes "check_stops name i rows = Inr ()" "list_all tidy rows"
  shows "check_stops name i (map key_sorted rows) = Inr ()"
  using assms
proof (induction rows arbitrary: i)
  case (Cons row rows)
  obtain d where d: "row = VDict d" using Cons.prems(1) by (cases row) auto
  obtain e where e: "key_sorted (VDict d) = VDict e" by simp
  have "distinct (map fst d)" using Cons.prems(2) d by simp
  note m = dget_key_sorted(2) [OF this e, of "''time_stop_minutes''"]
  show ?case using Cons d e m by (auto simp: rbind_Inr_iff exact_nonnegative_sorted split: option.split_asm)
qed simp

lemma check_prices_iff: "check_prices d = Inr () \<longleftrightarrow> (\<forall>(k, v) \<in> set d. \<exists>x. plain_number v ''LAST_PRICES'' = Inr x)"
  by (induction d rule: check_prices.induct) (auto simp: rbind_Inr_iff)

lemma check_prices_sorted:
  assumes "check_prices d = Inr ()" "key_sorted (VDict d) = VDict e"
  shows "check_prices e = Inr ()"
  using assms unfolding check_prices_iff by (fastforce simp: plain_number_sorted)

definition valid_parts :: "pydict \<Rightarrow> pydict \<Rightarrow> pydict \<Rightarrow> pydict \<Rightarrow> pyval list \<Rightarrow> pyval list \<Rightarrow> int \<Rightarrow> bool" where
  "valid_parts p ex risk prices opens closeds offset =
     (dget p ''version'' = VStr state_version \<and> dget p ''paper_only'' = VBool True
      \<and> dget p ''execution'' = VDict ex \<and> dget p ''risk_state'' = VDict risk \<and> dget p ''last_prices'' = VDict prices
      \<and> is_dict (dget p ''meta_labeler_state'') \<and> is_dict (dget p ''microstructure_state'') \<and> all_finite (VDict p)
      \<and> (\<exists>x. plain_number (dget ex ''cash'') ''CASH'' = Inr x) \<and> (\<exists>x. plain_number (dget ex ''starting_cash'') ''STARTING_CASH'' = Inr x)
      \<and> dget ex ''open_positions'' = VList opens \<and> dget ex ''closed_positions'' = VList closeds
      \<and> (\<exists>n. exact_nonnegative (dget_or ex ''total_orders'' (VInt 0)) ''TOTAL_ORDERS'' = Inr n)
      \<and> exact_nonnegative (dget_or ex ''closed_position_count_offset'' (VInt 0)) ''CLOSED_POSITION_COUNT_OFFSET'' = Inr offset
      \<and> check_history (dget ex ''historical_closed_trade_ids'') offset = Inr () \<and> check_counts count_keys risk = Inr ()
      \<and> check_stops ''OPEN_POSITIONS'' 0 opens = Inr () \<and> check_stops ''CLOSED_POSITIONS'' 0 closeds = Inr () \<and> check_prices prices = Inr ())"

lemma check_sections_iff:
  "check_sections p = Inr (ex, risk, prices) \<longleftrightarrow>
     dget p ''version'' = VStr state_version \<and> dget p ''paper_only'' = VBool True
     \<and> dget p ''execution'' = VDict ex \<and> dget p ''risk_state'' = VDict risk \<and> dget p ''last_prices'' = VDict prices
     \<and> is_dict (dget p ''meta_labeler_state'') \<and> is_dict (dget p ''microstructure_state'')"
  by (auto simp: check_sections_def split: pyval.split)

lemma list_of_iff: "list_of v l = Inr xs \<longleftrightarrow> v = VList xs"
  by (cases v) (auto simp: list_of_def)

lemma validate_iff:
  "validate_state v = Inr () \<longleftrightarrow> (\<exists>p ex risk prices opens closeds offset. v = VDict p \<and> valid_parts p ex risk prices opens closeds offset)"
proof (cases v)
  case (VDict p)
  show ?thesis unfolding VDict validate_state_def valid_parts_def pyval.case rbind_Inr_iff finite_tree_iff
    by (auto simp: check_sections_iff list_of_iff rbind_Inr_iff finite_tree_iff)
qed (auto simp: validate_state_def)

lemma sorted_dict: "key_sorted v = VDict e \<longleftrightarrow> (\<exists>d. v = VDict d \<and> key_sorted (VDict d) = VDict e)"
  by (cases v) auto

lemma validate_sorted:
  assumes "validate_state v = Inr ()" "tidy v"
  shows "validate_state (key_sorted v) = Inr ()"
proof -
  obtain p ex risk prices opens closeds offset where v: "v = VDict p" and q: "valid_parts p ex risk prices opens closeds offset"
    using assms(1) unfolding validate_iff by blast
  obtain p' ex' risk' prices' where s: "key_sorted (VDict p) = VDict p'" "key_sorted (VDict ex) = VDict ex'"
    "key_sorted (VDict risk) = VDict risk'" "key_sorted (VDict prices) = VDict prices'" by simp
  have sub: "tidy (dget d k)" if "tidy (VDict d)" for d k
    using that by (auto simp: dget_def list_all_iff split: option.split dest: map_of_SomeD)
  have t: "tidy (VDict p)" "tidy (VDict ex)" "tidy (VDict risk)" "list_all tidy opens" "list_all tidy closeds"
  proof -
    show p: "tidy (VDict p)" using assms(2) v by simp
    show ex: "tidy (VDict ex)" using sub [OF p, of "''execution''"] q unfolding valid_parts_def by metis
    show "tidy (VDict risk)" using sub [OF p, of "''risk_state''"] q unfolding valid_parts_def by metis
    show "list_all tidy opens" using sub [OF ex, of "''open_positions''"] q unfolding valid_parts_def by (metis tidy.simps(3))
    show "list_all tidy closeds" using sub [OF ex, of "''closed_positions''"] q unfolding valid_parts_def by (metis tidy.simps(3))
  qed
  have di: "distinct (map fst p)" "distinct (map fst ex)" "distinct (map fst risk)" using t by simp_all
  note gp = dget_key_sorted(1) [OF di(1) s(1)] and ge = dget_key_sorted(1) [OF di(2) s(2)]
  have num: "exact_nonnegative (dget_or ex' k (VInt 0)) l = exact_nonnegative (dget_or ex k (VInt 0)) l" for k l
    unfolding dget_key_sorted(3) [OF di(2) s(2)] by (auto simp: dget_or_def exact_nonnegative_sorted split: option.split)
  have dict: "is_dict (key_sorted w) = is_dict w" for w by (cases w) auto
  have "valid_parts p' ex' risk' prices' (map key_sorted opens) (map key_sorted closeds) offset"
    using q s all_finite_sorted [of "VDict p"] check_counts_sorted [OF di(3) s(3)] check_stops_sorted t(4,5)
      check_history_sorted check_prices_sorted [OF _ s(4)]
    unfolding valid_parts_def gp ge num by (simp add: dict plain_number_sorted del: key_sorted.simps(2) all_finite.simps)
  then show ?thesis unfolding v s(1) validate_iff by blast
qed

lemma validated_finite: "validate_state v = Inr () \<Longrightarrow> all_finite v"
  unfolding validate_iff valid_parts_def by auto

lemma saved_loads:
  assumes "save_state v = Inr text" "parsed v" "ascii_tree v"
  shows "load_state (Content text) = Inr (key_sorted v) \<and> validate_state (key_sorted v) = Inr ()"
proof -
  have v: "validate_state v = Inr ()" and t0: "text = canon True v @ [CHR 10]"
    using assms(1) by (auto simp: save_state_def rbind_Inr_iff split: option.split_asm)
  have t: "tidy v" by (rule parsed_finite_tidy [OF assms(2) validated_finite [OF v]])
  have "json_read False text = Some (key_sorted v)"
    unfolding t0 canon_ascii [OF assms(3)] by (rule json_read_canon [OF t]) (simp add: json_space_def)
  with validate_sorted [OF v t] show ?thesis by (simp add: load_state_def)
qed

text \<open>C36: what was saved loads as the same state, up to the order of the keys, and passes the validation again:
  for a state of the program, each key once, floats as its operations give them, texts in ASCII.\<close>

theorem control_state_round_trip:
  assumes "save_state v = Inr text" "parsed v" "ascii_tree v"
  shows "load_state (Content text) = Inr (key_sorted v) \<and> validate_state (key_sorted v) = Inr ()"
  by (rule saved_loads [OF assms])

lemma check_counts_iff: "check_counts ks d = Inr () \<longleftrightarrow> (\<forall>k \<in> set ks. \<exists>n \<ge> 0. dget_or d k (VInt 0) = VInt n)"
proof -
  have "exact_nonnegative v l = Inr n \<longleftrightarrow> v = VInt n \<and> 0 \<le> n" for v l n by (cases v) auto
  then show ?thesis by (induction ks) (auto simp: rbind_Inr_iff)
qed

lemma check_stops_dicts: "check_stops name i rows = Inr () \<Longrightarrow> row \<in> set rows \<Longrightarrow> is_dict row"
  by (induction name i rows rule: check_stops.induct) (auto simp: rbind_Inr_iff split: pyval.split_asm)

lemma plain_number_float: "plain_number v l = Inr x \<Longrightarrow> float_of v = Inr x \<and> is_finite x \<and> (\<forall>b. v \<noteq> VBool b)"
  by (cases v) (auto simp: float_of_int_def Let_def split: if_split_asm)

text \<open>C37: a state that loads is of the declared shape: for paper only, every float in it finite, prices and cash
  finite numbers, counters non-negative integers, positions dictionaries, and as many distinct non-blank identifiers of
  historical trades as the offset says.\<close>

theorem loaded_state_typed:
  assumes "load_state f = Inr v"
  shows "tidy v \<and> (\<exists>p ex risk prices ids offset. v = VDict p \<and> dget p ''paper_only'' = VBool True \<and> dget p ''execution'' = VDict ex
    \<and> dget p ''risk_state'' = VDict risk \<and> dget p ''last_prices'' = VDict prices
    \<and> (\<forall>k \<in> {''cash'', ''starting_cash''}. \<exists>x. float_of (dget ex k) = Inr x \<and> is_finite x)
    \<and> (\<forall>(s, w) \<in> set prices. \<exists>x. float_of w = Inr x \<and> is_finite x)
    \<and> (\<forall>k \<in> set count_keys. \<exists>n \<ge> 0. dget_or risk k (VInt 0) = VInt n)
    \<and> (\<forall>k \<in> {''open_positions'', ''closed_positions''}. \<exists>rows. dget ex k = VList rows \<and> list_all is_dict rows)
    \<and> dget_or ex ''closed_position_count_offset'' (VInt 0) = VInt offset \<and> dget ex ''historical_closed_trade_ids'' = VList (map VStr ids)
    \<and> int (length ids) = offset \<and> distinct ids \<and> (\<forall>i \<in> set ids. strip i \<noteq> []))"
proof -
  obtain t where r: "json_read False t = Some v" and va: "validate_state v = Inr ()"
    using assms by (auto simp: load_state_def rbind_Inr_iff split: stored_file.split_asm option.split_asm)
  have t: "tidy v" by (rule parsed_finite_tidy [OF json_read_parsed [OF r] validated_finite [OF va]])
  obtain p ex risk prices opens closeds offset where v: "v = VDict p" and q: "valid_parts p ex risk prices opens closeds offset"
    using va unfolding validate_iff by blast
  obtain hs where hs: "dget ex ''historical_closed_trade_ids'' = VList hs" "int (length hs) = offset" "distinct hs" "\<forall>h \<in> set hs. \<not> blank_text h"
    using q unfolding valid_parts_def check_history_def by (auto simp: list_ex_iff split: pyval.split_asm if_split_asm)
  define ids where "ids = map py_str hs"
  have "\<exists>s. h = VStr s \<and> strip s \<noteq> []" if "h \<in> set hs" for h using hs(4) that by (cases h) (auto simp: blank_text_def)
  then have "map VStr ids = hs" "\<forall>i \<in> set ids. strip i \<noteq> []" unfolding ids_def by (fastforce intro: map_idI simp: o_def)+
  moreover have "distinct ids" using hs(3) \<open>map VStr ids = hs\<close> by (metis distinct_map)
  moreover have "int (length ids) = offset" using hs(2) by (simp add: ids_def)
  moreover have "dget_or ex ''closed_position_count_offset'' (VInt 0) = VInt offset"
    using q unfolding valid_parts_def by (cases "dget_or ex ''closed_position_count_offset'' (VInt 0)") (auto split: if_split_asm)
  moreover have "\<forall>(s, w) \<in> set prices. \<exists>x. float_of w = Inr x \<and> is_finite x"
    using q plain_number_float unfolding valid_parts_def check_prices_iff by fastforce
  moreover have "\<forall>k \<in> {''open_positions'', ''closed_positions''}. \<exists>rows. dget ex k = VList rows \<and> list_all is_dict rows"
    using q check_stops_dicts unfolding valid_parts_def by (auto simp: list_all_iff)
  ultimately show ?thesis using t v q hs(1) plain_number_float unfolding valid_parts_def check_counts_iff by fastforce
qed

subsection \<open>The journal is read whole or not at all\<close>

lemma journal_number_float:
  assumes "journal_number row k b = Inr x"
  shows "float_of (dget row k) = Inr x" "is_finite x" "b = Positive \<Longrightarrow> \<not> fle x fzero" "b = Nonnegative \<Longrightarrow> \<not> flt x fzero"
  using assms by (auto simp: journal_number_def rbind_Inr_iff float_of_int_def Let_def split: if_split_asm pyval.split_asm)

definition sound_row :: "pydict \<Rightarrow> bool" where
  "sound_row row =
     ((\<exists>s. dget row ''trade_id'' = VStr s \<and> strip s \<noteq> []) \<and> upper (py_str (dget row ''direction'')) \<in> {''LONG'', ''SHORT''}
      \<and> (\<exists>t0 t1. parse_ts (dget row ''entry_ts'') = Inr (Some t0) \<and> parse_ts (dget row ''exit_ts'') = Inr (Some t1) \<and> t0 \<le> t1)
      \<and> (\<forall>k \<in> {''qty'', ''entry_price'', ''exit_price''}. \<exists>x. float_of (dget row k) = Inr x \<and> is_finite x \<and> \<not> fle x fzero)
      \<and> (\<exists>x. float_of (dget row ''realized_pnl_usd'') = Inr x \<and> is_finite x)
      \<and> all_finite (VDict row))"

lemma validated_row:
  assumes "validate_closed_row v = Inr row"
  shows "v = VDict row" "sound_row row"
proof -
  show v: "v = VDict row" using assms by (cases v) (auto simp: validate_closed_row_def rbind_Inr_iff split: if_split_asm)
  note a = assms [unfolded v validate_closed_row_def pyval.case rbind_Inr_iff]
  have "\<not> blank_text (dget row ''trade_id'')" using a by (auto simp: text_keys_def split: if_split_asm)
  then have i: "\<exists>s. dget row ''trade_id'' = VStr s \<and> strip s \<noteq> []" by (cases "dget row ''trade_id''") (auto simp: blank_text_def)
  have "check_row_times row = Inr ()" "check_row_numbers row = Inr ()" using a by (auto simp: rbind_Inr_iff split: if_split_asm)
  then show "sound_row row" unfolding sound_row_def using a i
    by (auto simp: check_row_times_def check_row_numbers_def rbind_Inr_iff finite_tree_iff list_all_iff
      split: option.split_asm if_split_asm dest: journal_number_float)
qed

lemma read_rows_whole:
  assumes "read_rows n seen ls = Inr rows"
  shows "map (\<lambda>l. json_read False (strip l)) (filter (\<lambda>l. strip l \<noteq> []) ls) = map (\<lambda>row. Some (VDict row)) rows"
    and "\<forall>row \<in> set rows. validate_closed_row (VDict row) = Inr row" and "distinct (map trade_id rows)"
    and "set (map trade_id rows) \<inter> set seen = {}"
proof -
  have "map (\<lambda>l. json_read False (strip l)) (filter (\<lambda>l. strip l \<noteq> []) ls) = map (\<lambda>row. Some (VDict row)) rows
    \<and> (\<forall>row \<in> set rows. validate_closed_row (VDict row) = Inr row) \<and> distinct (map trade_id rows) \<and> set (map trade_id rows) \<inter> set seen = {}"
    using assms
  proof (induction n seen ls arbitrary: rows rule: read_rows.induct)
    case (2 n seen l ls)
    show ?case
    proof (cases "strip l = []")
      case True
      then show ?thesis using 2(1,3) by simp
    next
      case False
      then obtain v row rs where j: "json_read False (strip l) = Some v" "validate_closed_row v = Inr row" "trade_id row \<notin> set seen"
        "read_rows (Suc n) (seen @ [trade_id row]) ls = Inr rs" "rows = row # rs"
        using 2(3) by (auto simp: rbind_Inr_iff split: option.split_asm if_split_asm)
      note ih = 2(2) [OF False j(1) j(3,4)]
      show ?thesis using ih j validated_row(1) [OF j(2)] False by auto
    qed
  qed simp
  then show "map (\<lambda>l. json_read False (strip l)) (filter (\<lambda>l. strip l \<noteq> []) ls) = map (\<lambda>row. Some (VDict row)) rows"
    "\<forall>row \<in> set rows. validate_closed_row (VDict row) = Inr row" "distinct (map trade_id rows)" "set (map trade_id rows) \<inter> set seen = {}"
    by blast+
qed

lemma wrap_journal_error: "wrap_journal m = Inl e \<Longrightarrow> \<exists>t. e = PaperControlStateError t"
  by (cases m rule: wrap_journal.cases) (auto simp: journal_corrupt_def)

lemma wrap_journal_Inr [simp]: "wrap_journal m = Inr x \<longleftrightarrow> m = Inr x"
  by (cases m rule: wrap_journal.cases) auto

text \<open>C38: the journal is read whole or refused with the error of this module: every non-blank line is a row of it, in
  order, each row a closed trade with positive quantity and prices that ends no earlier than it began, and no
  trade is there twice.\<close>

theorem journal_whole_or_refused:
  "case load_journal (Content t) of
     Inl e \<Rightarrow> \<exists>m. e = PaperControlStateError m
   | Inr rows \<Rightarrow>
       map (\<lambda>l. json_read False (strip l)) (filter (\<lambda>l. strip l \<noteq> []) (text_lines [] t)) = map (\<lambda>row. Some (VDict row)) rows
       \<and> (\<forall>row \<in> set rows. sound_row row) \<and> distinct (map trade_id rows)"
proof (cases "load_journal (Content t)")
  case (Inl e)
  then show ?thesis using wrap_journal_error by (auto simp: load_journal_def)
next
  case (Inr rows)
  then show ?thesis using read_rows_whole [of 1 "[]" "text_lines [] t" rows] validated_row(2) by (auto simp: load_journal_def)
qed

subsection \<open>The migrated state\<close>

lemma boot_rows_ids:
  assumes "boot_rows today rows st = Inr st'"
  shows "bt_ids st' = bt_ids st @ map (\<lambda>r. VStr (trade_id r)) rows"
  using assms
proof (induction rows arbitrary: st)
  case (Cons row rows)
  then obtain st1 where r: "boot_row today row st = Inr st1" "boot_rows today rows st1 = Inr st'" by (auto simp: rbind_Inr_iff)
  have "bt_ids st1 = bt_ids st @ [VStr (trade_id row)]" using r(1) by (auto simp: boot_row_def rbind_Inr_iff Let_def boot_streak_def)
  with Cons.IH [OF r(2)] show ?case by simp
qed simp

lemma validated_rows: "rmap (\<lambda>row. validate_closed_row (VDict row)) rows = Inr records \<Longrightarrow> records = rows"
proof (induction rows arbitrary: records)
  case (Cons row rows)
  then obtain r rs where "validate_closed_row (VDict row) = Inr r" "rmap (\<lambda>row. validate_closed_row (VDict row)) rows = Inr rs" "records = r # rs"
    by (auto simp: rbind_Inr_iff)
  with Cons.IH validated_row(1) show ?case by fastforce
qed simp

lemma bootstrap_opened:
  assumes "bootstrap now c cash rows = Inr b"
  obtains st risk where "boot_rows (date_text now) rows (boot_start cash) = Inr st" "boot_risk now c cash st = Inr risk"
    "b = boot_payload now cash (length rows) st risk" "rows \<noteq> []"
proof -
  obtain records where r: "rmap (\<lambda>row. validate_closed_row (VDict row)) rows = Inr records" "records \<noteq> []"
    using assms by (auto simp: bootstrap_def rbind_Inr_iff split: if_split_asm)
  have "records = rows" by (rule validated_rows [OF r(1)])
  with assms r that show thesis by (auto simp: bootstrap_def rbind_Inr_iff)
qed

lemma id_text_trade: "sound_row row \<Longrightarrow> id_text row ''trade_id'' = trade_id row \<and> strip (trade_id row) \<noteq> []"
  by (auto simp: sound_row_def id_text_def trade_id_def por_def strip_def lstrip_def rstrip_def)

lemma boot_streak_nonneg: "boot_rows today rows st = Inr st' \<Longrightarrow> 0 \<le> bt_streak st \<Longrightarrow> 0 \<le> bt_streak st'"
proof (induction rows arbitrary: st)
  case (Cons row rows)
  then obtain st1 where r: "boot_row today row st = Inr st1" "boot_rows today rows st1 = Inr st'" by (auto simp: rbind_Inr_iff)
  have "0 \<le> bt_streak st1" using r(1) Cons.prems(2) by (auto simp: boot_row_def rbind_Inr_iff Let_def boot_streak_def)
  with Cons.IH [OF r(2)] show ?case by simp
qed simp

text \<open>The floats of the migrated state are in normal form.\<close>

abbreviation normal :: "pyfloat \<Rightarrow> bool" where "normal x \<equiv> is_finite x \<longrightarrow> fl_proper x"

lemma normal_ops: "normal (fadd x y)" "normal (fmul x y)" "normal (percent x)" "normal fzero" "normal x \<Longrightarrow> normal y \<Longrightarrow> normal (fmax x y)"
  by (simp_all add: fadd_proper fmul_proper percent_def fzero_def fmax_def)

lemma float_of_normal: "parsed v \<Longrightarrow> float_of v = Inr x \<Longrightarrow> normal x"
  by (cases v) (auto simp: float_of_int_def Let_def fl_of_int_proper float_of_text_parsed split: if_split_asm option.split_asm)

lemma dget_parsed: "parsed (VDict d) \<Longrightarrow> parsed (dget d k)"
  by (auto simp: dget_def list_all_iff split: option.split dest: map_of_SomeD)

lemma boot_rows_normal:
  assumes "boot_rows today rows st = Inr st'" "\<forall>row \<in> set rows. parsed (VDict row)"
    "normal (bt_cash st) \<and> normal (bt_peak st) \<and> normal (bt_daily st) \<and> parsed (VDict (bt_prices st))"
  shows "normal (bt_cash st') \<and> normal (bt_peak st') \<and> normal (bt_daily st') \<and> parsed (VDict (bt_prices st'))"
  using assms
proof (induction rows arbitrary: st)
  case (Cons row rows)
  then obtain st1 where r: "boot_row today row st = Inr st1" "boot_rows today rows st1 = Inr st'" by (auto simp: rbind_Inr_iff)
  have row: "parsed (VDict row)" using Cons.prems(2) by simp
  obtain pnl u price where b: "float_of (dget row ''exit_price'') = Inr price"
    "st1 = (let cash = fadd (bt_cash st) pnl;
           st1 = st\<lparr>bt_cash := cash, bt_peak := fmax (bt_peak st) cash,
             bt_daily := (case u of Some u \<Rightarrow> if date_text u = today then fadd (bt_daily st) pnl else bt_daily st | None \<Rightarrow> bt_daily st)\<rparr>;
           st2 = boot_streak pnl row st1
       in st2\<lparr>bt_prices := dset (bt_prices st2) (py_str (dget row ''symbol'')) (VFloat price), bt_ids := bt_ids st2 @ [VStr (trade_id row)]\<rparr>)"
    using r(1) by (auto simp: boot_row_def rbind_Inr_iff Let_def)
  have p: "normal price" using float_of_normal [OF dget_parsed [OF row] b(1)] .
  have "normal (bt_cash st1) \<and> normal (bt_peak st1) \<and> normal (bt_daily st1) \<and> parsed (VDict (bt_prices st1))"
    using Cons.prems(3) p normal_ops dset_parsed [of "bt_prices st" "VFloat price" "py_str (dget row ''symbol'')"]
    unfolding b(2) Let_def boot_streak_def by (auto simp del: parsed.simps(4) split: option.split)
  with Cons.IH [OF r(2)] Cons.prems(2) show ?case by simp
qed simp

lemma boot_drawdown_normal: "boot_drawdown st = Inr x \<Longrightarrow> normal x"
  by (auto simp: boot_drawdown_def rbind_Inr_iff normal_ops split: if_split_asm)

lemma boot_daily_normal: "boot_daily_pct cash st = Inr x \<Longrightarrow> normal x"
  by (auto simp: boot_daily_pct_def rbind_Inr_iff normal_ops)

lemma parsed_opt_text [simp]: "parsed (opt_text t)"
  by (cases t) (simp_all add: opt_text_def)

lemma boot_payload_parsed:
  assumes "boot_rows today rows (boot_start cash) = Inr st" "boot_risk now c cash st = Inr risk" "normal cash"
    "\<forall>row \<in> set rows. parsed (VDict row)" "parsed meta" "parsed micro"
  shows "parsed (VDict (migrated meta micro (boot_payload now cash n st risk)))"
proof -
  have st: "normal (bt_cash st) \<and> normal (bt_peak st) \<and> normal (bt_daily st) \<and> parsed (VDict (bt_prices st))"
    by (rule boot_rows_normal [OF assms(1,4)]) (use assms(3) in \<open>simp add: boot_start_def normal_ops\<close>)
  have ids: "list_all parsed (bt_ids st)" using boot_rows_ids [OF assms(1)] by (simp add: boot_start_def list_all_iff)
  have risk: "normal (daily_pnl_usd risk)" "normal (daily_pnl_pct risk)" "normal (peak_equity risk)" "normal (current_equity risk)"
    "normal (drawdown_pct risk)" "normal (vol_pct risk)"
    using assms(2) st boot_drawdown_normal boot_daily_normal normal_ops(4) by (auto simp: boot_risk_def rbind_Inr_iff Let_def)
  have "parsed (VDict (kernel_state_dict risk))" using risk by (simp add: kernel_state_dict_def)
  then show ?thesis using st ids assms(3,5,6) by (simp add: migrated_def boot_payload_def)
qed

definition migrated_execution :: "pyfloat \<Rightarrow> nat \<Rightarrow> boot \<Rightarrow> pydict" where
  "migrated_execution cash n st =
     [(''cash'', VFloat (bt_cash st)), (''starting_cash'', VFloat cash), (''total_orders'', VInt (int n)),
      (''order_count_semantics'', VStr ''MINIMUM_CLOSED_TRADES_AT_BOOTSTRAP''), (''closed_position_count_offset'', VInt (int n)),
      (''historical_closed_trade_ids'', VList (bt_ids st)), (''open_positions'', VList []), (''closed_positions'', VList [])]"

lemma migrated_gets:
  "dget (migrated meta micro (boot_payload now cash n st risk)) ''version'' = VStr state_version"
  "dget (migrated meta micro (boot_payload now cash n st risk)) ''paper_only'' = VBool True"
  "dget (migrated meta micro (boot_payload now cash n st risk)) ''execution'' = VDict (migrated_execution cash n st)"
  "dget (migrated meta micro (boot_payload now cash n st risk)) ''risk_state'' = VDict (kernel_state_dict risk)"
  "dget (migrated meta micro (boot_payload now cash n st risk)) ''last_prices'' = VDict (bt_prices st)"
  "dget (migrated meta micro (boot_payload now cash n st risk)) ''meta_labeler_state'' = meta"
  "dget (migrated meta micro (boot_payload now cash n st risk)) ''microstructure_state'' = micro"
  by (simp_all add: migrated_def boot_payload_def migrated_execution_def dget_find)

lemma execution_gets:
  "dget (migrated_execution cash n st) ''cash'' = VFloat (bt_cash st)" "dget (migrated_execution cash n st) ''starting_cash'' = VFloat cash"
  "dget_or (migrated_execution cash n st) ''total_orders'' (VInt 0) = VInt (int n)"
  "dget_or (migrated_execution cash n st) ''closed_position_count_offset'' (VInt 0) = VInt (int n)"
  "dget (migrated_execution cash n st) ''historical_closed_trade_ids'' = VList (bt_ids st)"
  "dget (migrated_execution cash n st) ''open_positions'' = VList []" "dget (migrated_execution cash n st) ''closed_positions'' = VList []"
  by (simp_all add: migrated_execution_def dget_find dget_or_def)

lemma boot_row_prices:
  assumes "boot_row today row st = Inr st1"
  obtains k x where "bt_prices st1 = dset (bt_prices st) k (VFloat x)"
proof -
  obtain pnl u price where "float_of (dget row ''realized_pnl_usd'') = Inr pnl" "parse_ts (dget row ''exit_ts'') = Inr u"
    "float_of (dget row ''exit_price'') = Inr price"
    using assms by (auto simp: boot_row_def rbind_Inr_iff)
  then have "bt_prices st1 = dset (bt_prices st) (py_str (dget row ''symbol'')) (VFloat price)"
    using assms by (auto simp: boot_row_def Let_def boot_streak_def)
  then show thesis by (rule that)
qed

lemma all_finite_dget: "all_finite (VDict d) \<Longrightarrow> all_finite (dget d k)"
  by (auto simp: dget_def list_all_iff split: option.split dest: map_of_SomeD)

lemma boot_prices_floats:
  assumes "boot_rows today rows st = Inr st'" "\<forall>(k, v) \<in> set (bt_prices st). \<exists>x. v = VFloat x"
  shows "\<forall>(k, v) \<in> set (bt_prices st'). \<exists>x. v = VFloat x"
  using assms
proof (induction rows arbitrary: st)
  case (Cons row rows)
  then obtain st1 where r: "boot_row today row st = Inr st1" "boot_rows today rows st1 = Inr st'" by (auto simp: rbind_Inr_iff)
  have "\<forall>(k, v) \<in> set (dset d k (VFloat x)). \<exists>x. v = VFloat x" if "\<forall>(k, v) \<in> set d. \<exists>x. v = VFloat x" for d k x
    using that by (induction d k "VFloat x" rule: dset.induct) auto
  then have "\<forall>(k, v) \<in> set (bt_prices st1). \<exists>x. v = VFloat x"
    using boot_row_prices [OF r(1)] Cons.prems(2) by metis
  with Cons.IH [OF r(2)] show ?case by simp
qed simp

lemma migrated_valid:
  assumes boot: "boot_rows today rows (boot_start cash) = Inr st" "boot_risk now c cash st = Inr risk"
    and rows: "\<forall>row \<in> set rows. sound_row row" "distinct (map trade_id rows)"
    and states: "is_dict meta" "is_dict micro"
    and finite: "all_finite (VDict (migrated meta micro (boot_payload now cash (length rows) st risk)))"
  shows "validate_state (VDict (migrated meta micro (boot_payload now cash (length rows) st risk))) = Inr ()"
proof -
  let ?p = "migrated meta micro (boot_payload now cash (length rows) st risk)" and ?ex = "migrated_execution cash (length rows) st"
  have ids: "bt_ids st = map (\<lambda>r. VStr (trade_id r)) rows" using boot_rows_ids [OF boot(1)] by (simp add: boot_start_def)
  have fin: "all_finite (dget ?p k)" for k by (rule all_finite_dget [OF finite])
  have "all_finite (VDict ?ex)" using fin [of "''execution''"] unfolding migrated_gets .
  then have "all_finite (dget ?ex k)" for k by (rule all_finite_dget)
  then have cash: "is_finite (bt_cash st)" "is_finite cash" using execution_gets by (metis all_finite.simps(1))+
  have "distinct (bt_ids st)" using rows(2) by (simp add: ids distinct_map inj_on_def)
  moreover have "\<not> list_ex blank_text (bt_ids st)" using rows(1) id_text_trade by (auto simp: ids list_ex_iff blank_text_def)
  ultimately have history: "check_history (VList (bt_ids st)) (int (length rows)) = Inr ()" by (simp add: check_history_def ids)
  have "0 \<le> bt_streak st" by (rule boot_streak_nonneg [OF boot(1)]) (simp add: boot_start_def)
  then have counts: "check_counts count_keys (kernel_state_dict risk) = Inr ()"
    using boot(2) by (auto simp: check_counts_iff count_keys_def kernel_state_dict_def dget_or_def boot_risk_def rbind_Inr_iff Let_def)
  have "\<forall>(k, v) \<in> set (bt_prices st). \<exists>x. v = VFloat x" by (rule boot_prices_floats [OF boot(1)]) (simp add: boot_start_def)
  moreover have "list_all (\<lambda>(k, v). all_finite v) (bt_prices st)" using fin [of "''last_prices''"] by (simp add: migrated_gets)
  ultimately have prices: "check_prices (bt_prices st) = Inr ()" unfolding check_prices_iff list_all_iff by fastforce
  have "valid_parts ?p ?ex (kernel_state_dict risk) (bt_prices st) [] [] (int (length rows))"
    unfolding valid_parts_def migrated_gets execution_gets using states finite cash history counts prices
    by (simp del: all_finite.simps(4))
  then show ?thesis unfolding validate_iff by blast
qed

lemma consistent_migrated:
  assumes rows: "\<forall>row \<in> set rows. sound_row row" "distinct (map trade_id rows)"
    and ex: "dget q ''execution'' = VDict ex" "dget ex ''open_positions'' = VList []" "dget ex ''closed_positions'' = VList []"
      "dget ex ''historical_closed_trade_ids'' = VList (map (\<lambda>r. VStr (trade_id r)) rows)"
  shows "journal_state_consistent rows q = Inr ()"
proof -
  have ids: "map (\<lambda>r. id_text r ''trade_id'') rows = map trade_id rows" using rows(1) id_text_trade by simp
  have "[] \<notin> set (map trade_id rows)"
  proof
    assume "[] \<in> set (map trade_id rows)"
    then obtain r where "r \<in> set rows" "trade_id r = []" by auto
    with rows(1) id_text_trade [of r] show False by (simp add: strip_def lstrip_def rstrip_def)
  qed
  then show ?thesis
    using rows(2) unfolding journal_state_consistent_def Let_def ids ex as_dict.simps
    by (auto simp: rows_of_def)
qed

lemma nonblank_journal:
  assumes "load_journal journal = Inr rows" "rows \<noteq> []"
  shows "journal_has_nonblank_content journal = Inr True"
proof -
  obtain t where t: "journal = Content t" using assms by (cases journal) (auto simp: load_journal_def)
  have "filter (\<lambda>l. strip l \<noteq> []) (text_lines [] t) \<noteq> []"
    using read_rows_whole(1) [of 1 "[]" "text_lines [] t" rows] assms unfolding t load_journal_def by auto
  then show ?thesis by (auto simp: t journal_has_nonblank_content_def list_ex_iff filter_empty_conv)
qed

lemma read_rows_parsed: "read_rows n seen ls = Inr rows \<Longrightarrow> row \<in> set rows \<Longrightarrow> parsed (VDict row)"
proof -
  assume r: "read_rows n seen ls = Inr rows" "row \<in> set rows"
  then have "Some (VDict row) \<in> set (map (\<lambda>l. json_read False (strip l)) (filter (\<lambda>l. strip l \<noteq> []) ls))"
    unfolding read_rows_whole(1) [OF r(1)] by simp
  then obtain l where "json_read False (strip l) = Some (VDict row)" by auto
  then show ?thesis by (rule json_read_parsed)
qed

subsection \<open>Witnesses\<close>

definition demo_line :: string where
  "demo_line = ''{\"trade_id\":\"t1\",\"symbol\":\"BTC/USDT\",\"direction\":\"LONG\",\"entry_ts\":\"1970-01-01T00:00:00+00:00\",\"exit_ts\":\"1970-01-01T01:00:00+00:00\",\"exit_reason\":\"TARGET\",\"qty\":1,\"entry_price\":100,\"exit_price\":128,\"realized_pnl_usd\":128,\"risk_usd\":0,\"entry_fee_usd\":0,\"exit_fee_usd\":0,\"total_fees_usd\":0}''"

definition demo_trade :: pydict where
  "demo_trade =
     [(''trade_id'', VStr ''t1''), (''symbol'', VStr ''BTC/USDT''), (''direction'', VStr ''LONG''),
      (''entry_ts'', VStr ''1970-01-01T00:00:00+00:00''), (''exit_ts'', VStr ''1970-01-01T01:00:00+00:00''), (''exit_reason'', VStr ''TARGET''),
      (''qty'', VInt 1), (''entry_price'', VInt 100), (''exit_price'', VInt 128), (''realized_pnl_usd'', VInt 128), (''risk_usd'', VInt 0),
      (''entry_fee_usd'', VInt 0), (''exit_fee_usd'', VInt 0), (''total_fees_usd'', VInt 0)]"

lemma demo_journal: "load_journal (Content demo_line) = Inr [demo_trade]"
  by code_simp

lemma demo_trade_valid: "validate_closed_row (VDict demo_trade) = Inr demo_trade"
  by code_simp

theorem journal_whole_or_refused_witness: "load_journal (Content demo_line) = Inr [demo_trade] \<and> sound_row demo_trade"
  using journal_whole_or_refused [of demo_line] by (simp add: demo_journal)

abbreviation "n128 \<equiv> Flt False 4503599627370496 (-45)"
abbreviation "n256 \<equiv> Flt False 4503599627370496 (-44)"

lemma demo_exit: "parse_ts (dget demo_trade ''exit_ts'') = Inr (Some (unix_epoch + 3600000000))"
  "date_text (unix_epoch + 3600000000) = ''1970-01-01''" "date_text (unix_epoch + 7200000000) = ''1970-01-01''"
  "date_text unix_epoch = ''1970-01-01''"
  by code_simp+

lemma demo_trade_fields:
  "float_of (dget demo_trade ''realized_pnl_usd'') = Inr n128" "float_of (dget demo_trade ''exit_price'') = Inr n128"
  "dget demo_trade ''symbol'' = VStr ''BTC/USDT''" "trade_id demo_trade = ''t1''"
  by (simp_all add: demo_trade_def dget_find trade_id_def float_of_int_def demo_numbers)

lemma demo_arith:
  "fadd n128 n128 = n256" "fadd fzero n128 = n128" "fsub n256 n256 = fzero"
  unfolding fsub_def fzero_def by (simp_all add: fl_int_def) (simp_all add: fl_of_scaled_def round_eval)

lemma demo_quotients: "fdiv n128 n128 = Inr (Flt False 4503599627370496 (-52))" "fdiv fzero n256 = Inr fzero"
  "percent (Flt False 4503599627370496 (-52)) = flit 100 0" "percent fzero = fzero" "percent (flit 10 2) = Flt False 5629499534213120 (-49)"
  unfolding fzero_def by (simp_all add: percent_def demo_literals round_eval)

lemma demo_compare: "flt n128 fzero = False" "flt fzero n128 = True" "fmax n128 n256 = n256" "flt fzero n256 = True"
  "fmax n128 (flit 1 0) = n128" "fmax n128 (flit (Suc 0) 0) = n128" "fle (percent (flit 10 2)) fzero = False" "flt fzero (percent (flit 10 2)) = True"
  "fle (flit 100 0) (fmul (fneg (flit 30 3)) (flit 100 0)) = False"
  unfolding demo_literals fneg.simps not_False_eq_True
  by (simp_all add: demo_percents fmax_def demo_literals fle_def fzero_def fl_int_def del: fmul.simps)

definition demo_books :: boot where
  "demo_books = \<lparr>bt_cash = n256, bt_peak = n256, bt_daily = n128, bt_streak = 0, bt_last_loss = None, bt_ids = [VStr ''t1''],
     bt_prices = [(''BTC/USDT'', VFloat n128)]\<rparr>"

lemma demo_boot_rows: "boot_rows ''1970-01-01'' [demo_trade] (boot_start n128) = Inr demo_books"
  by (simp add: boot_row_def demo_trade_fields demo_exit boot_start_def demo_arith demo_compare boot_streak_def demo_books_def Let_def
    del: fadd.simps flt.simps)

definition demo_now :: int where "demo_now = unix_epoch + 7200000000"

definition demo_risk :: risk_state where
  "demo_risk = (fresh_state ''1970-01-01'' n256)\<lparr>daily_pnl_usd := n128, daily_pnl_pct := flit 100 0\<rparr>"

lemma demo_boot_risk: "boot_risk demo_now risk_defaults n128 demo_books = Inr demo_risk"
proof -
  have "boot_drawdown demo_books = Inr fzero" "boot_daily_pct n128 demo_books = Inr (flit 100 0)" "boot_cooldown demo_now risk_defaults demo_books = Inr None"
    by (simp_all add: boot_drawdown_def boot_daily_pct_def boot_cooldown_def demo_books_def demo_compare demo_arith demo_quotients
      del: fdiv.simps flt.simps)
  moreover have "boot_kill risk_defaults demo_books (flit 100 0) fzero = None"
    unfolding boot_kill_def demo_config demo_compare by (simp add: demo_books_def)
  ultimately show ?thesis by (simp add: boot_risk_def demo_risk_def fresh_state_def demo_exit demo_now_def demo_books_def)
qed

definition demo_boot :: pydict where "demo_boot = boot_payload demo_now n128 1 demo_books demo_risk"

lemma demo_bootstrap: "bootstrap demo_now risk_defaults n128 [demo_trade] = Inr demo_boot"
  using demo_boot_rows demo_boot_risk by (simp add: bootstrap_def demo_trade_valid demo_boot_def demo_now_def demo_exit del: boot_rows.simps)

definition demo_state :: pydict where "demo_state = migrated (VDict []) (VDict []) demo_boot"

lemma demo_migration_texts: "isoformat_utc demo_now = ''1970-01-01T02:00:00+00:00''"
  by code_simp

lemma demo_state_tree: "parsed (VDict demo_state)" "all_finite (VDict demo_state)" "ascii_tree (VDict demo_state)"
proof -
  have n: "flit 100 0 = Flt False 7036874417766400 (-46)" by (rule demo_literals(7))
  show "parsed (VDict demo_state)" "all_finite (VDict demo_state)" "ascii_tree (VDict demo_state)"
    unfolding demo_state_def migrated_def demo_boot_def boot_payload_def demo_books_def demo_risk_def demo_migration_texts kernel_state_dict_def
      state_version_def fresh_state_def
    by (simp_all add: n fzero_def opt_text_def ascii_def)
qed

lemma demo_state_valid: "validate_state (VDict demo_state) = Inr ()"
proof -
  have "load_journal (Content demo_line) = Inr [demo_trade]" by (rule demo_journal)
  then have "sound_row demo_trade" using validated_row(2) [OF demo_trade_valid] by simp
  then show ?thesis
    using migrated_valid [OF demo_boot_rows demo_boot_risk, of "VDict []" "VDict []"] demo_state_tree(2)
    by (simp add: demo_state_def demo_boot_def del: all_finite.simps)
qed

lemma demo_saved: "\<exists>t. save_state (VDict demo_state) = Inr t"
  using demo_state_valid json_err_tidy [OF parsed_finite_tidy [OF demo_state_tree(1,2)]] by (simp add: save_state_def)

theorem control_state_round_trip_witness:
  "\<exists>t. save_state (VDict demo_state) = Inr t \<and> load_state (Content t) = Inr (key_sorted (VDict demo_state))"
  using demo_saved control_state_round_trip [OF _ demo_state_tree(1,3)] by blast

theorem loaded_state_typed_witness: "\<exists>t. load_state (Content t) = Inr (key_sorted (VDict demo_state)) \<and> tidy (key_sorted (VDict demo_state))"
proof -
  obtain t where "save_state (VDict demo_state) = Inr t" using demo_saved by blast
  then have l: "load_state (Content t) = Inr (key_sorted (VDict demo_state))" using saved_loads [OF _ demo_state_tree(1,3)] by blast
  from loaded_state_typed [OF l] l show ?thesis by blast
qed

end
