(* ===== verification/PaperRestart.thy ===== *)
theory PaperRestart
  imports PaperControl Machines
begin

section \<open>Restart of the paper control lane\<close>

text \<open>
  \<^verbatim>\<open>PortfolioCoordinator.start\<close>, \<^verbatim>\<open>_apply_control_state\<close>, \<^verbatim>\<open>_control_state_payload\<close> and
  \<^verbatim>\<open>_persist_control_state\<close> of \<^verbatim>\<open>senecio_polymarket/backend/portfolio/coordinator.py\<close> around the state file of
  PaperControl: the first start, which migrates from the journal, and the restarts after it, each of which rewrites the file. Then
  the books that the migration rebuilds, against those of the live kernel. What the meta labeler and the microstructure restore
  and persist is a parameter; the journal's list of open trades and the portfolio view that \<^verbatim>\<open>start\<close> refreshes are left out.
\<close>

subsection \<open>Restored and running state\<close>












subsection \<open>Restarts\<close>






























subsection \<open>The migration agrees with the live kernel\<close>































subsection \<open>Witnesses of the restart\<close>







end
