(* ===== verification/Spec2Isabelle.thy ===== *)
theory Spec2Isabelle
  imports Strategies Replay Resilience RiskKernel Settlement PaperJournal AuthoritySnapshot Reconciler PaperControl PaperRestart
begin

text \<open>
  A verification development for SeneX: a service that predicts the direction of crypto prices,
  settles its predictions against historical candles, scores them under a fail-closed authority and
  trades on paper only; and a research lab that replays trading strategies on historical candles and
  executes them on paper with a journal. The paths are relative to the root of the repository;
  \<^verbatim>\<open>R\<close> is \<^verbatim>\<open>research/rea_engines\<close> and \<^verbatim>\<open>B\<close> is
  \<^verbatim>\<open>senecio_polymarket/backend\<close>.

  Foundations.
  \<^item> \<open>Prelude\<close>: exceptions as values, the type \<open>res\<close> of a call that may raise, ASCII string
    methods, decimal digits; the collections \<open>res_simps\<close> and \<open>py_defs\<close>.
  \<^item> \<open>PyDecimal\<close>: \<^verbatim>\<open>decimal.Decimal\<close> in the default context (28 digits, half even), every
    operation related to the rational number it stands for; the exponent limits of the context, where the
    operations agree with them, and where they do not.
  \<^item> \<open>PyDatetime\<close>: ISO-8601 texts, conversion to UTC, instants as microseconds; a printed instant
    reads back.
  \<^item> \<open>PyValue\<close>, \<open>PyFloat\<close>, \<open>PyJson\<close>: the values of a document, binary64 numbers with
    rounding to nearest even, conversions, \<^verbatim>\<open>json.dumps\<close> and \<^verbatim>\<open>json.loads\<close>; a canonical text
    reads back.
  \<^item> \<open>FloatText\<close>: the shortest text of a float reads back as the same float; results of the
    arithmetic are in normal form.
  \<^item> \<open>Machines\<close>: the locales \<open>machine\<close> (a step with an invariant), \<open>counted_machine\<close> (with a
    sequence number), \<open>idempotent_machine\<close> (a second delivery changes nothing) and \<open>hash_chain\<close>.

  The lab. \<^verbatim>\<open>R/replay.py\<close> drives a strategy and a ledger over candles;
  \<^verbatim>\<open>R/execution_resilience.py\<close> keeps the state of paper execution, which
  \<^verbatim>\<open>R/paper_execution_contract.py\<close> wraps in a journal.
  \<^item> \<open>Contracts\<close> (\<^verbatim>\<open>R/contracts.py\<close>): validators and records; a constructor function returns the
    normalised record or the exception of \<^verbatim>\<open>__post_init__\<close>.
  \<^item> \<open>Accounting\<close> (\<^verbatim>\<open>R/accounting.py\<close>): the record \<open>ledger\<close> with buy, sell, equity and
    metrics; a \<open>machine\<close>. Invariant under accepted and refused operations, refinement of a book of
    rational numbers, reconciliation of profit; a rounding that leaves a negative cost basis.
  \<^item> \<open>Strategies\<close> (\<^verbatim>\<open>R/strategies.py\<close>): grid, averaging and combined strategy. The locale
    \<open>strategy\<close> is the protocol the replay relies on, interpreted for all three. Sell orders are never
    below the entry price; the combined strategy answers unless it holds units at an average price that is not
    positive; it keeps the adds of the last round.
  \<^item> \<open>Replay\<close> (\<^verbatim>\<open>R/replay.py\<close>): the locals of \<^verbatim>\<open>Replay.run\<close> are the record
    \<open>run_state\<close>, one candle is \<open>bar_step\<close>. For any strategy: every order has exactly one fate, fills
    come from earlier orders at prices inside the candle, no look-ahead, ledger and drawdown bounds,
    and, within the exponent range of decimals, no exception but \<^verbatim>\<open>ReplayError\<close>. \<open>outcome\<close> and \<open>outcomes\<close> are step relations for the
    fate of an order, inverted by \<open>inductive_cases\<close>.
  \<^item> \<open>Resilience\<close> (\<^verbatim>\<open>R/execution_resilience.py\<close>): orders, fills, reconciliation, checkpoints; an
    \<open>idempotent_machine\<close>. State invariant, idempotent redelivery, refusal of conflicting ids, agreement
    of the applied fills with the replay ledger (the realized profit up to rounding), brackets, checkpoint round trip and identity.
  \<^item> \<open>PaperJournal\<close> (\<^verbatim>\<open>R/paper_execution_contract.py\<close>): the commands of the engine, the reducer
    and recovery; a \<open>counted_machine\<close> over a \<open>hash_chain\<close>. Replaying the journal gives the live engine
    back; the head identifies the journal up to a collision on the hashed texts; the invariant of the engine under every command; two errors of
    recovery.

  The service. A settled row passes through the proof gate into the score; snapshots of the score feed
  the live gate, which stays locked on paper, and the readiness probe; the risk kernel guards proposals.
  \<^item> \<open>RiskKernel\<close> (\<^verbatim>\<open>B/portfolio/risk_kernel.py\<close>): a \<open>machine\<close>; approvals need every gate
    open, limits trip the switch, a tripped switch holds for the day; two exceptions to the documented
    behaviour.
  \<^item> \<open>Settlement\<close> (\<^verbatim>\<open>B/settlement_contract.py\<close>, \<^verbatim>\<open>B/settlement_proof.py\<close>): fetched
    evidence validates; an admitted row has the outcome that its prices imply.
  \<^item> \<open>Reconciler\<close> (\<^verbatim>\<open>B/settlement_reconciler.py\<close>): what the proof gate says of a repaired row, which
    keeps its stored outcome; one pass stays within its batch and its counters add up.
  \<^item> \<open>AuthorityScore\<close> (\<^verbatim>\<open>B/authoritative_score.py\<close>): the cohort of rows an hour apart is
    maximal in the order of time and does not depend on the order of the rows (\<open>stamp\<close> is an instance of
    \<open>linorder\<close>); no report claims an authoritative percentage.
  \<^item> \<open>SafetyGates\<close> (\<^verbatim>\<open>B/paper_lock.py\<close>, \<^verbatim>\<open>B/portfolio/live_gate.py\<close>,
    \<^verbatim>\<open>B/paper_live_gate.py\<close>, \<^verbatim>\<open>B/order070_contracts.py\<close>): no evaluation unlocks;
    the gate counts the cohort.
  \<^item> \<open>Readiness\<close> (\<^verbatim>\<open>B/readiness_contract.py\<close>): ready exactly when there is no reason against it.
  \<^item> \<open>AuthoritySnapshot\<close> (\<^verbatim>\<open>B/authority_snapshot.py\<close>): \<^verbatim>\<open>get\<close> is split at its
    \<^verbatim>\<open>await\<close>; the step relation \<open>store_step\<close> interleaves calls under the locks of the symbols.
    Published generations stay complete and are replaced only by the next one; a store that has one
    always serves it.

  \<^item> \<open>PaperControl\<close> (\<^verbatim>\<open>B/portfolio/paper_control_state.py\<close>, and of
    \<^verbatim>\<open>B/portfolio/coordinator.py\<close> the comparison of the state with the journal and the decision
    at a restart): what was saved loads as the same state, a loaded state has the declared shape, the journal
    of closed trades is read whole or refused.
  \<^item> \<open>PaperRestart\<close> (\<^verbatim>\<open>B/portfolio/coordinator.py\<close>): \<^verbatim>\<open>start\<close> with the state written into the engines
    and back into the file. A migration survives any number of restarts; its books are those of a kernel of
    \<open>RiskKernel\<close> that recorded the same trades over any days.

  Bounds and fuel. Every definition is total. The parser of JSON carries the length of its text as fuel,
  enough since every step consumes a character. Loops over lists are structural; Python's integers are
  \<open>int\<close>, its floats are computed exactly and rounded.

  Parameters. SHA-256, the exchange, the database, an observer of the market, the local time zone and
  every reading of a clock are arguments of the definitions. The theorems hold for every such
  function; where a digest identifies a state, the statement leaves a collision of the two texts that were hashed as the other case.

  Not modelled in the modelled files: datetime objects as input; NaN and infinities of decimals; the exponent limits of decimals in
  the operations that the components use (a theorem about them is one about runs whose decimal results stay within the limits); the recursion and digit limits of the interpreter; case mapping outside ASCII; the exact texts of a few \<^verbatim>\<open>TypeError\<close> messages of the
  interpreter, which the code never shows; \<^verbatim>\<open>pow(x, 2)\<close> is taken as \<^verbatim>\<open>x * x\<close>; logging;
  the atomic file operations around checkpoint, journal and control state, whose contents are values; the
  name of the exception in the message for an unreadable control state;
  the list of open trades and the portfolio view that a start refreshes; \<^verbatim>\<open>clear()\<close> between the two halves of a
  \<^verbatim>\<open>get\<close>, and the cancellation of a task at its \<^verbatim>\<open>await\<close>, which \<^verbatim>\<open>except Exception\<close> does not catch; the endless loop around a reconciliation pass.

  Not modelled at all: the oracle (heuristics over live exchange data), the web server, schedulers and
  sockets, the clients of the database and of the markets, the statistical reports (numpy, random draws),
  the simulation and diagnostics of \<^verbatim>\<open>B/antifragility\<close>, the sealing of exported rows, the offline
  experiments and the tests.
\<close>

end
